(* ===== verification/Cpp_Base.thy ===== *)
theory Cpp_Base
  imports Main "HOL-Library.Word" "HOL-Library.AList" "HOL-Library.Sublist"
begin

text \<open>
  Prelude of the development: what the program uses of C++ and of the socket interface, and the
  lemmas on lists, strings, maps and bytes that the components share.

  \<^item> \<open>fault\<close>, \<open>result\<close>: an exception of the standard library that the code does not catch, or
    an access that C++ leaves undefined, is a value \<open>Inl\<close>; a normal result is \<open>Inr\<close>.
  \<^item> \<open>std::string\<close> is a list of characters (one byte each). \<open>find\<close>, \<open>find_first_of\<close>,
    \<open>find_first_not_of\<close>, \<open>find_last_not_of\<close> return \<open>None\<close> for \<open>npos\<close>.
  \<^item> \<open>std::unordered_map<string, V>\<close> is an association list without repeated keys. Its order is
    the order of iteration, which C++ leaves open: theorems about the program quantify over it.
  \<^item> a socket's input is a list of receive events, in the order the kernel delivers them.
\<close>

unbundle bit_operations_syntax

named_theorems cpp_string "characteristic facts of the std::string operations"
named_theorems cpp_map "characteristic facts of the std::unordered_map operations"

type_synonym byte = "8 word"
type_synonym u32 = "32 word"
type_synonym u64 = "64 word"

section \<open>Faults\<close>

datatype fault =
    Out_Of_Range          \<comment> \<open>std::out_of_range\<close>
  | Length_Error          \<comment> \<open>std::length_error\<close>
  | Bad_Alloc             \<comment> \<open>std::bad_alloc\<close>
  | Regex_Error           \<comment> \<open>std::regex_error\<close>
  | Bad_Variant           \<comment> \<open>std::runtime_error of Variant\<close>
  | Bad_Function_Call     \<comment> \<open>std::bad_function_call\<close>
  | Undefined_Behaviour   \<comment> \<open>an access outside an object\<close>

type_synonym 'a result = "fault + 'a"

text \<open>Sequencing: the first fault ends the computation, as an uncaught exception does.\<close>

fun rbind :: "'a result \<Rightarrow> ('a \<Rightarrow> 'b result) \<Rightarrow> 'b result" where
  "rbind (Inl e) f = Inl e"
| "rbind (Inr x) f = f x"

lemma rbind_Inr_iff: "rbind m f = Inr y \<longleftrightarrow> (\<exists>x. m = Inr x \<and> f x = Inr y)"
  by (cases m) auto

lemma rbind_Inr [simp]: "rbind m Inr = m"
  by (cases m) auto

lemma rbind_Inl_iff: "rbind m f = Inl e \<longleftrightarrow> m = Inl e \<or> (\<exists>x. m = Inr x \<and> f x = Inl e)"
  by (cases m) auto

section \<open>std::string\<close>

abbreviation NUL :: char where "NUL \<equiv> CHR 0x00"
abbreviation LF :: char where "LF \<equiv> CHR 0x0A"
abbreviation CR :: char where "CR \<equiv> CHR 0x0D"
abbreviation TAB :: char where "TAB \<equiv> CHR 0x09"
abbreviation SP :: char where "SP \<equiv> CHR 0x20"
abbreviation CRLF :: string where "CRLF \<equiv> [CR, LF]"

text \<open>A \<open>const char*\<close> is read up to its first NUL.\<close>

definition c_str :: "string \<Rightarrow> string" where
  "c_str s = takeWhile (\<lambda>c. c \<noteq> NUL) s"

text \<open>\<open>str.find(pat)\<close> and \<open>str.find(pat, pos)\<close>.\<close>

fun str_find :: "string \<Rightarrow> string \<Rightarrow> nat option" where
  "str_find pat [] = (if pat = [] then Some 0 else None)"
| "str_find pat (c # cs) =
     (if prefix pat (c # cs) then Some 0 else map_option Suc (str_find pat cs))"

definition str_find_at :: "string \<Rightarrow> string \<Rightarrow> nat \<Rightarrow> nat option" where
  "str_find_at pat s pos =
     (if length s < pos then None else map_option (\<lambda>i. pos + i) (str_find pat (drop pos s)))"

definition contains :: "string \<Rightarrow> string \<Rightarrow> bool" where
  "contains s pat \<longleftrightarrow> str_find pat s \<noteq> None"

text \<open>\<open>find_first_of\<close> and \<open>find_first_not_of\<close>, \<open>find_last_not_of\<close>, by the tested predicate.\<close>

fun find_first :: "('a \<Rightarrow> bool) \<Rightarrow> 'a list \<Rightarrow> nat option" where
  "find_first P [] = None"
| "find_first P (x # xs) = (if P x then Some 0 else map_option Suc (find_first P xs))"

fun find_last :: "('a \<Rightarrow> bool) \<Rightarrow> 'a list \<Rightarrow> nat option" where
  "find_last P [] = None"
| "find_last P (x # xs) =
     (case find_last P xs of Some i \<Rightarrow> Some (Suc i) | None \<Rightarrow> if P x then Some 0 else None)"

text \<open>\<open>s.substr(pos, n)\<close> throws when \<open>pos\<close> is past the end; \<open>n\<close> may exceed what is left.\<close>

definition substr :: "string \<Rightarrow> nat \<Rightarrow> nat \<Rightarrow> string result" where
  "substr s pos n = (if length s < pos then Inl Out_Of_Range else Inr (take n (drop pos s)))"

text \<open>\<open>s.substr(pos)\<close>: the rest from \<open>pos\<close> on.\<close>

definition substr_from :: "string \<Rightarrow> nat \<Rightarrow> string result" where
  "substr_from s pos = (if length s < pos then Inl Out_Of_Range else Inr (drop pos s))"

definition npos :: nat where "npos = 2 ^ 64 - 1"

text \<open>\<open>s.erase(0, n)\<close> with \<open>n\<close> the result of a search, and \<open>s.erase(i + 1)\<close> where \<open>npos + 1 = 0\<close>.\<close>

definition erase_front :: "string \<Rightarrow> nat option \<Rightarrow> string" where
  "erase_front s n = (case n of None \<Rightarrow> [] | Some k \<Rightarrow> drop k s)"

definition erase_after :: "string \<Rightarrow> nat option \<Rightarrow> string" where
  "erase_after s i = (case i of None \<Rightarrow> [] | Some k \<Rightarrow> take (Suc k) s)"

text \<open>
  A \<open>size_t\<close> (or \<open>npos\<close>) stored in an \<open>int\<close> keeps its low 32 bits as two's complement; an \<open>int\<close>
  passed as a \<open>size_t\<close> is taken modulo \<open>2 ^ 64\<close>.
\<close>

definition int_of_size :: "nat option \<Rightarrow> int" where
  "int_of_size i = (case i of None \<Rightarrow> -1 | Some n \<Rightarrow> sint (word_of_nat n :: u32))"

definition size_of_int :: "int \<Rightarrow> nat" where
  "size_of_int i = nat (i mod 2 ^ 64)"

text \<open>\<open>std::getline\<close>: the text up to the next newline, which is consumed; \<open>None\<close> at end of input.\<close>

definition getline :: "string \<Rightarrow> (string \<times> string) option" where
  "getline s =
     (if s = [] then None
      else Some (takeWhile (\<lambda>c. c \<noteq> LF) s, drop 1 (dropWhile (\<lambda>c. c \<noteq> LF) s)))"

lemma getline_shorter: "getline s = Some (l, r) \<Longrightarrow> length r < length s"
  using length_dropWhile_le [of "\<lambda>c. c \<noteq> LF" s]
  by (cases s) (auto simp: getline_def split: if_splits)

text \<open>\<open>tolower\<close> and \<open>isdigit\<close> in the "C" locale; \<open>std::to_string\<close> of a non-negative number.\<close>

definition to_lower :: "char \<Rightarrow> char" where
  "to_lower c = (if 65 \<le> (of_char c :: nat) \<and> (of_char c :: nat) \<le> 90
                 then char_of ((of_char c :: nat) + 32) else c)"

definition is_digit :: "char \<Rightarrow> bool" where
  "is_digit c \<longleftrightarrow> 48 \<le> (of_char c :: nat) \<and> (of_char c :: nat) \<le> 57"

definition digit_char :: "nat \<Rightarrow> char" where
  "digit_char d = char_of (48 + d)"

fun nat_to_string :: "nat \<Rightarrow> string" where
  "nat_to_string n =
     (if n < 10 then [digit_char n] else nat_to_string (n div 10) @ [digit_char (n mod 10)])"

declare nat_to_string.simps [simp del]

definition int_to_string :: "int \<Rightarrow> string" where
  "int_to_string i = (if i < 0 then CHR ''-'' # nat_to_string (nat (- i)) else nat_to_string (nat i))"

section \<open>Characters and bytes\<close>

definition byte_of :: "char \<Rightarrow> byte" where "byte_of c = of_char c"
definition char_of_byte :: "byte \<Rightarrow> char" where "char_of_byte b = char_of (unat b)"

definition bytes_of :: "string \<Rightarrow> byte list" where "bytes_of s = map byte_of s"
definition string_of :: "byte list \<Rightarrow> string" where "string_of bs = map char_of_byte bs"

lemma unat_of_char [simp]: "unat (of_char c :: byte) = (of_char c :: nat)"
proof -
  have "(of_char c :: nat) < 256" by (cases c) (simp split: if_splits)
  moreover have "(of_char c :: byte) = word_of_nat (of_char c :: nat)"
    by (cases c) (simp split: if_splits)
  ultimately show ?thesis by (simp add: unat_of_nat)
qed

lemma char_of_byte_of [simp]: "char_of_byte (byte_of c) = c"
  by (simp add: char_of_byte_def byte_of_def)

lemma byte_of_char_of [simp]: "byte_of (char_of_byte b) = b"
proof -
  have "unat b < 256" using unsigned_less [of b] by simp
  then have "(of_char (char_of (unat b) :: char) :: nat) = unat b" by simp
  then have "unat (of_char (char_of (unat b) :: char) :: byte) = unat b" by simp
  then show ?thesis unfolding char_of_byte_def byte_of_def by (simp add: word_unat_eq_iff)
qed

lemma string_of_bytes_of [simp]: "string_of (bytes_of s) = s"
  by (simp add: string_of_def bytes_of_def o_def)

lemma bytes_of_string_of [simp]: "bytes_of (string_of bs) = bs"
  by (simp add: string_of_def bytes_of_def o_def)

lemma length_bytes_of [simp]: "length (bytes_of s) = length s"
  by (simp add: bytes_of_def)

lemma length_string_of [simp]: "length (string_of bs) = length bs"
  by (simp add: string_of_def)

section \<open>Facts of the string operations\<close>

lemma str_find_SomeD:
  "str_find pat s = Some i \<Longrightarrow> i \<le> length s \<and> prefix pat (drop i s) \<and> (\<forall>j<i. \<not> prefix pat (drop j s))"
proof (induction s arbitrary: i)
  case Nil
  then show ?case by (simp split: if_splits)
next
  case (Cons c cs)
  show ?case
  proof (cases "prefix pat (c # cs)")
    case True
    with Cons.prems show ?thesis by simp
  next
    case False
    with Cons.prems obtain k where k: "str_find pat cs = Some k" and i: "i = Suc k" by auto
    have none: "\<not> prefix pat (drop j (c # cs))" if "j < Suc k" for j
      using that Cons.IH [OF k] False by (cases j) auto
    with Cons.IH [OF k] i show ?thesis by auto
  qed
qed

lemma str_find_NoneD: "str_find pat s = None \<Longrightarrow> i \<le> length s \<Longrightarrow> \<not> prefix pat (drop i s)"
proof (induction s arbitrary: i)
  case Nil
  then show ?case by (simp split: if_splits)
next
  case (Cons c cs)
  then show ?case by (cases i) (auto split: if_splits)
qed

lemma str_find_Some_iff [cpp_string]:
  "str_find pat s = Some i \<longleftrightarrow>
     i \<le> length s \<and> prefix pat (drop i s) \<and> (\<forall>j<i. \<not> prefix pat (drop j s))"
proof
  assume r: "i \<le> length s \<and> prefix pat (drop i s) \<and> (\<forall>j<i. \<not> prefix pat (drop j s))"
  then obtain k where k: "str_find pat s = Some k"
    using str_find_NoneD [of pat s i] by (cases "str_find pat s") auto
  with r str_find_SomeD [OF k] show "str_find pat s = Some i"
    by (metis linorder_neqE_nat)
qed (rule str_find_SomeD)

lemma contains_iff [cpp_string]: "contains s pat \<longleftrightarrow> (\<exists>us vs. s = us @ pat @ vs)"
proof
  assume "contains s pat"
  then obtain i where "str_find pat s = Some i" by (auto simp: contains_def)
  then have "prefix pat (drop i s)" by (simp add: str_find_Some_iff)
  then obtain vs where "drop i s = pat @ vs" by (auto simp: prefix_def)
  then have "s = take i s @ pat @ vs" by (metis append_take_drop_id)
  then show "\<exists>us vs. s = us @ pat @ vs" by blast
next
  assume "\<exists>us vs. s = us @ pat @ vs"
  then obtain us vs where s: "s = us @ pat @ vs" by blast
  then have "length us \<le> length s" and "prefix pat (drop (length us) s)" by simp_all
  then have "str_find pat s \<noteq> None" using str_find_NoneD by blast
  then show "contains s pat" by (simp add: contains_def)
qed

lemma str_find_skip:
  "c \<notin> set l \<Longrightarrow> str_find (c # pat) (l @ s) = map_option (\<lambda>i. length l + i) (str_find (c # pat) s)"
  by (induction l; cases "str_find (c # pat) s") auto

lemma str_find_at_ge: "str_find_at pat s pos = Some i \<Longrightarrow> pos \<le> i \<and> i + length pat \<le> length s"
  by (auto simp: str_find_at_def str_find_Some_iff split: if_splits
      dest!: prefix_length_le)

lemma find_first_Some_iff [cpp_string]:
  "find_first P xs = Some i \<longleftrightarrow> i < length xs \<and> P (xs ! i) \<and> (\<forall>j<i. \<not> P (xs ! j))"
proof (induction xs arbitrary: i)
  case (Cons x xs)
  then show ?case
    by (cases i) (auto simp: less_Suc_eq_0_disj nth_Cons split: nat.splits)
qed simp

lemma find_first_None_iff [cpp_string]: "find_first P xs = None \<longleftrightarrow> (\<forall>x \<in> set xs. \<not> P x)"
  by (induction xs) auto

lemma find_last_None_iff [cpp_string]: "find_last P xs = None \<longleftrightarrow> (\<forall>x \<in> set xs. \<not> P x)"
  by (induction xs) (auto split: option.splits)

text \<open>Erasing up to the first, or after the last, character that satisfies a test.\<close>

lemma erase_front_find_first [simp, cpp_string]:
  "erase_front s (find_first P s) = dropWhile (\<lambda>c. \<not> P c) s"
  by (induction s) (auto simp: erase_front_def split: option.splits)

lemma erase_after_find_last [simp, cpp_string]:
  "erase_after s (find_last P s) = rev (dropWhile (\<lambda>c. \<not> P c) (rev s))"
proof (induction s)
  case (Cons c s)
  show ?case
  proof (cases "find_last P s")
    case None
    then have "\<forall>x \<in> set s. \<not> P x" by (simp add: find_last_None_iff)
    then have "dropWhile (\<lambda>c. \<not> P c) (rev s) = []" by (simp add: dropWhile_eq_Nil_conv)
    with None show ?thesis by (simp add: erase_after_def dropWhile_append)
  next
    case (Some i)
    then have "\<exists>x \<in> set s. P x" using find_last_None_iff [of P s] by auto
    then have "dropWhile (\<lambda>c. \<not> P c) (rev s) \<noteq> []" by (simp add: dropWhile_eq_Nil_conv)
    with Cons Some show ?thesis by (simp add: erase_after_def dropWhile_append)
  qed
qed (simp add: erase_after_def)

lemma c_str_no_nul [simp]: "NUL \<notin> set s \<Longrightarrow> c_str s = s"
  by (auto simp: c_str_def takeWhile_eq_all_conv)

lemma c_str_nul_free [simp]: "NUL \<notin> set (c_str s)"
  by (auto simp: c_str_def dest: set_takeWhileD)

lemma c_str_prefix: "prefix (c_str s) s"
  unfolding c_str_def by (metis prefixI takeWhile_dropWhile_id)

text \<open>Decimal numbers, read back with the usual positional value.\<close>

definition digit_val :: "char \<Rightarrow> nat" where
  "digit_val c = (of_char c :: nat) - 48"

definition string_to_nat :: "string \<Rightarrow> nat" where
  "string_to_nat s = fold (\<lambda>c n. 10 * n + digit_val c) s 0"

lemma digit_val_char [simp]: "d < 10 \<Longrightarrow> digit_val (digit_char d) = d"
  by (simp add: digit_val_def digit_char_def)

lemma is_digit_char [simp]: "d < 10 \<Longrightarrow> is_digit (digit_char d)"
  by (simp add: is_digit_def digit_char_def)

lemma string_to_nat_to_string [simp]: "string_to_nat (nat_to_string n) = n"
proof (induction n rule: nat_to_string.induct)
  case (1 n)
  show ?case
  proof (cases "n < 10")
    case True
    then show ?thesis by (subst nat_to_string.simps) (simp add: string_to_nat_def)
  next
    case False
    with 1 have "string_to_nat (nat_to_string (n div 10)) = n div 10" by simp
    with False show ?thesis by (subst nat_to_string.simps) (simp add: string_to_nat_def)
  qed
qed

lemma nat_to_string_digits: "\<forall>c \<in> set (nat_to_string n). is_digit c"
proof (induction n rule: nat_to_string.induct)
  case (1 n)
  then show ?case by (subst nat_to_string.simps) auto
qed

lemma nat_to_string_nonempty [simp]: "nat_to_string n \<noteq> []"
  by (subst nat_to_string.simps) simp

lemma nat_to_string_unfold:
  "n < 10 \<Longrightarrow> nat_to_string n = [digit_char n]"
  "10 \<le> n \<Longrightarrow> nat_to_string n = nat_to_string (n div 10) @ [digit_char (n mod 10)]"
  by (subst nat_to_string.simps, simp)+

text \<open>Numbers of the size of a request: the conversions to and from \<open>int\<close> keep them.\<close>

lemma int_of_size_small [simp]: "n < 2 ^ 31 \<Longrightarrow> int_of_size (Some n) = int n"
proof -
  assume n: "n < 2 ^ 31"
  then have "take_bit 32 n = n" by (simp add: take_bit_nat_eq_self_iff)
  then have "sint (word_of_nat n :: u32) = signed_take_bit 31 (int n)"
    by (simp add: sint_uint unsigned_of_nat)
  also have "\<dots> = int n"
    by (rule signed_take_bit_int_eq_self) (use n in auto)
  finally show ?thesis by (simp add: int_of_size_def)
qed

lemma int_of_size_None [simp]: "int_of_size None = -1"
  by (simp add: int_of_size_def)

lemma size_of_int_nat [simp]: "0 \<le> i \<Longrightarrow> i < 2 ^ 64 \<Longrightarrow> size_of_int i = nat i"
  by (simp add: size_of_int_def)

end
