(* ===== verification/Cpp_Socket.thy ===== *)
theory Cpp_Socket
  imports Cpp_Base
begin

text \<open>
  Reading from a stream socket. \<open>recv\<close> belongs to the operating system: the model's operations
  take it as an argument, and the locale \<open>byte_source\<close> states what \<open>recv(2)\<close> documents: a positive
  result is the number of bytes delivered, at most the number asked for, and these are the next
  bytes of the stream. The provider is a socket whose input arrives as a list of events, so that
  every way of cutting the stream into segments is one of its states. On a list that has come to its
  end every read fails, as on a connection that broke. A read that blocks for ever is not a state of
  the model: a list whose last event is \<open>Rx_Close\<close> never comes to its end, and what is proved about
  the returning of calls assumes such lists.
\<close>

section \<open>The interface\<close>

type_synonym 's recv_fun = "nat \<Rightarrow> 's \<Rightarrow> int \<times> byte list \<times> 's"

text \<open>
  \<open>while (got < want) { r = recv(fd, buf + got, want - got, 0); if (r <= 0) fail; got += r; }\<close>,
  the loop in which the frame reader collects a payload. \<open>want\<close> counts what is still missing.
\<close>

function recv_all :: "'s recv_fun \<Rightarrow> nat \<Rightarrow> byte list \<Rightarrow> 's \<Rightarrow> byte list option \<times> 's" where
  "recv_all rcv want got s =
     (if want = 0 then (Some got, s)
      else case rcv want s of (r, d, s') \<Rightarrow>
        if r \<le> 0 then (None, s') else recv_all rcv (want - nat r) (got @ d) s')"
  by pat_completeness auto
termination
  by (relation "measure (\<lambda>(rcv, want, got, s). want)") auto

declare recv_all.simps [simp del]

lemma recv_all_0 [simp]: "recv_all rcv 0 got s = (Some got, s)"
  by (simp add: recv_all.simps)

locale byte_source =
  fixes rcv :: "'s recv_fun"
    and pending :: "'s \<Rightarrow> byte list"
  assumes recv_delivers: "rcv n s = (r, d, s') \<Longrightarrow> 0 < r \<Longrightarrow>
            length d = nat r \<and> nat r \<le> n \<and> pending s = d @ pending s'"
begin

text \<open>What the collecting loop returns are the next bytes of the stream, however it was cut.\<close>

lemma recv_all_pending:
  "recv_all rcv want got s = (Some bs, s') \<Longrightarrow>
     \<exists>d. bs = got @ d \<and> length d = want \<and> pending s = d @ pending s'"
proof (induction want arbitrary: got s rule: less_induct)
  case (less want)
  show ?case
  proof (cases "want = 0")
    case True
    with less.prems show ?thesis by simp
  next
    case False
    obtain r d s1 where step: "rcv want s = (r, d, s1)" by (cases "rcv want s")
    with False less.prems have pos: "0 < r"
      and rest: "recv_all rcv (want - nat r) (got @ d) s1 = (Some bs, s')"
      by (auto simp: recv_all.simps [of rcv want] split: if_splits)
    have d: "length d = nat r" "nat r \<le> want" "pending s = d @ pending s1"
      using recv_delivers [OF step pos] by auto
    have "want - nat r < want" using pos False by simp
    from less.IH [OF this rest] obtain e
      where "bs = (got @ d) @ e" "length e = want - nat r" "pending s1 = e @ pending s'" by blast
    with d have "bs = got @ (d @ e) \<and> length (d @ e) = want \<and> pending s = (d @ e) @ pending s'"
      by simp
    then show ?thesis by blast
  qed
qed

text \<open>A read that must deliver exactly \<open>n\<close> bytes, as the code reads headers.\<close>

lemma recv_exact: "rcv n s = (int n, d, s') \<Longrightarrow> 0 < n \<Longrightarrow> length d = n \<and> pending s = d @ pending s'"
  using recv_delivers [of n s "int n" d s'] by auto

end

section \<open>The provider: a socket fed by a list of events\<close>

datatype rx_event =
    Rx_Data "byte list"   \<comment> \<open>a segment has arrived\<close>
  | Rx_Close              \<comment> \<open>the peer has shut the connection down: every later read returns 0\<close>
  | Rx_Error              \<comment> \<open>the read fails once\<close>

fun recv :: "nat \<Rightarrow> rx_event list \<Rightarrow> int \<times> byte list \<times> rx_event list" where
  "recv n [] = (-1, [], [])"
| "recv n (Rx_Close # es) = (0, [], Rx_Close # es)"
| "recv n (Rx_Error # es) = (-1, [], es)"
| "recv n (Rx_Data d # es) =
     (if length d \<le> n then (int (length d), d, es)
      else (int n, take n d, Rx_Data (drop n d) # es))"

text \<open>The bytes that reads will deliver before the first end of stream or error.\<close>

fun rx_bytes :: "rx_event list \<Rightarrow> byte list" where
  "rx_bytes (Rx_Data d # es) = d @ rx_bytes es"
| "rx_bytes _ = []"

lemma rx_recv_delivers:
  "recv n s = (r, d, s') \<Longrightarrow> 0 < r \<Longrightarrow>
     length d = nat r \<and> nat r \<le> n \<and> rx_bytes s = d @ rx_bytes s'"
  by (cases "(n, s)" rule: recv.cases) (auto split: if_splits)

interpretation rx: byte_source recv rx_bytes
  by unfold_locales (rule rx_recv_delivers)

text \<open>Collecting a payload that arrives cut into arbitrary non-empty segments.\<close>

lemma recv_all_segments:
  assumes "\<forall>d \<in> set ds. d \<noteq> []" and "length (concat ds) = want"
  shows "recv_all recv want got (map Rx_Data ds @ es) = (Some (got @ concat ds), es)"
  using assms
proof (induction ds arbitrary: want got)
  case (Cons d ds)
  then have "0 < length d" and w: "want = length d + length (concat ds)" by auto
  then have "recv_all recv want got (map Rx_Data (d # ds) @ es)
      = recv_all recv (want - length d) (got @ d) (map Rx_Data ds @ es)"
    by (subst recv_all.simps) simp
  also have "\<dots> = (Some ((got @ d) @ concat ds), es)"
    by (rule Cons.IH) (use Cons.prems w in auto)
  finally show ?case by simp
qed simp

text \<open>When the stream ends too early the loop gives up.\<close>

lemma recv_all_short:
  assumes "length d < want"
  shows "fst (recv_all recv want got [Rx_Data d, Rx_Close]) = None"
  using assms by (simp add: recv_all.simps [of recv want] recv_all.simps [of recv "want - length d"])

end
