(* ===== verification/Codec.thy ===== *)
theory Codec
  imports Cpp_Base
begin

text \<open>
  The contract of an encoder with a decoder: on the values of a domain, decoding what was encoded
  gives the value back. Its consequences (the encoder is injective, encoded values are the ones
  that decode) are proved once here; the encoders of the program interpret it where they are
  defined: decimal numbers below, Base64, hexadecimal and the WebSocket frame in their theories.
\<close>

locale codec =
  fixes enc :: "'a \<Rightarrow> 'b"
    and dec :: "'b \<Rightarrow> 'a option"
    and valid :: "'a \<Rightarrow> bool"
  assumes dec_enc: "valid x \<Longrightarrow> dec (enc x) = Some x"
begin

lemma enc_inj: "valid x \<Longrightarrow> valid y \<Longrightarrow> enc x = enc y \<longleftrightarrow> x = y"
  using dec_enc by (metis option.inject)

lemma enc_inj_on: "inj_on enc {x. valid x}"
  by (rule inj_onI) (simp add: enc_inj)

lemma dec_unique: "valid x \<Longrightarrow> dec (enc x) = Some y \<Longrightarrow> y = x"
  using dec_enc by simp

lemma enc_decodable: "valid x \<Longrightarrow> enc x = c \<Longrightarrow> dec c = Some x"
  using dec_enc by blast

end

interpretation decimal: codec nat_to_string "\<lambda>s. Some (string_to_nat s)" "\<lambda>_. True"
  by unfold_locales simp

lemma nat_to_string_eq_iff [simp]: "nat_to_string m = nat_to_string n \<longleftrightarrow> m = n"
  by (rule decimal.enc_inj) simp_all

end
