(* ===== verification/Ws_Frame.thy ===== *)
theory Ws_Frame
  imports Cpp_Socket Codec
begin

text \<open>
  WebSocket frames: \<open>read_frame\<close> (both overloads) and \<open>send_frame\<close> of src/websocket_handler.cpp.
  The socket is the argument \<open>rcv\<close> of the reader (\<open>Cpp_Socket\<close>); the size of the largest vector
  the process can allocate is the argument \<open>mem\<close>. What a frame is comes from RFC 6455.
\<close>

section \<open>Reading a frame\<close>

text \<open>\<open>payload_length = (payload_length << 8) | extended_payload[i]\<close>, over the bytes in order.\<close>

definition be_accumulate :: "byte list \<Rightarrow> u64" where
  "be_accumulate bs = fold (\<lambda>b acc. push_bit 8 acc OR ucast b) bs 0"

text \<open>\<open>payload[i] ^= masking_key[i % 4]\<close> for all \<open>i\<close>.\<close>

definition unmask :: "byte list \<Rightarrow> byte list \<Rightarrow> byte list" where
  "unmask key payload = map (\<lambda>i. payload ! i XOR key ! (i mod 4)) [0..<length payload]"

definition vector_max :: nat where "vector_max = 2 ^ 63 - 1"

text \<open>\<open>std::vector<uint8_t> payload(payload_length)\<close>.\<close>

definition alloc_check :: "nat \<Rightarrow> nat \<Rightarrow> unit result" where
  "alloc_check mem n =
     (if n > vector_max then Inl Length_Error else if n > mem then Inl Bad_Alloc else Inr ())"

text \<open>The extended length: \<open>None\<close> when a read falls short.\<close>

definition read_length :: "'s recv_fun \<Rightarrow> byte \<Rightarrow> 's \<Rightarrow> u64 option \<times> 's" where
  "read_length rcv h1 s =
     (let len7 = (ucast (h1 AND 0x7F) :: u64) in
      if len7 = 126
      then (case rcv 2 s of (r, ext, s') \<Rightarrow> if r \<noteq> 2 then (None, s')
              else (Some (push_bit 8 (ucast (ext ! 0)) OR ucast (ext ! 1)), s'))
      else if len7 = 127
      then (case rcv 8 s of (r, ext, s') \<Rightarrow> if r \<noteq> 8 then (None, s')
              else (Some (be_accumulate ext), s'))
      else (Some len7, s))"

definition read_key :: "'s recv_fun \<Rightarrow> byte \<Rightarrow> 's \<Rightarrow> byte list option \<times> 's" where
  "read_key rcv h1 s =
     (if drop_bit 7 h1 AND 1 = 1
      then (case rcv 4 s of (r, key, s') \<Rightarrow> if r \<noteq> 4 then (None, s') else (Some key, s'))
      else (Some (replicate 4 0), s))"

text \<open>
  \<open>read_frame(int)\<close>. Every failure returns the empty string; the allocation of the payload may
  throw. \<open>fin\<close> is computed and never used.
\<close>

definition read_frame :: "nat \<Rightarrow> 's recv_fun \<Rightarrow> 's \<Rightarrow> (string \<times> 's) result" where
  "read_frame mem rcv s =
     (case rcv 2 s of (r, header, s1) \<Rightarrow>
        if r \<noteq> 2 then Inr ([], s1) else
        let opcode = header ! 0 AND 0x0F;
            masked = (drop_bit 7 (header ! 1) AND 1 = 1) in
        case read_length rcv (header ! 1) s1 of
          (None, s2) \<Rightarrow> Inr ([], s2)
        | (Some len, s2) \<Rightarrow>
            (case read_key rcv (header ! 1) s2 of
               (None, s3) \<Rightarrow> Inr ([], s3)
             | (Some key, s3) \<Rightarrow>
                 (case alloc_check mem (unat len) of
                    Inl e \<Rightarrow> Inl e
                  | Inr _ \<Rightarrow>
                      (case recv_all rcv (unat len) [] s3 of
                         (None, s4) \<Rightarrow> Inr ([], s4)
                       | (Some payload, s4) \<Rightarrow>
                           let payload = (if masked then unmask key payload else payload) in
                           if opcode = 1 then Inr (string_of payload, s4) else Inr ([], s4)))))"

text \<open>
  \<open>read_frame(uint32_t)\<close>: \<open>ret.reserve(n)\<close> leaves the size of \<open>ret\<close> at 0, and \<open>std::transform\<close>
  then writes the \<open>n\<close> characters at \<open>ret.begin()\<close>, past the end of the vector, which C++ leaves
  undefined; only the empty message writes nothing.
\<close>

definition read_frame_vec :: "nat \<Rightarrow> 's recv_fun \<Rightarrow> 's \<Rightarrow> (byte list \<times> 's) result" where
  "read_frame_vec mem rcv s =
     (case read_frame mem rcv s of
        Inl e \<Rightarrow> Inl e
      | Inr (msg, s') \<Rightarrow> if msg \<noteq> [] then Inl Undefined_Behaviour else Inr ([], s'))"

section \<open>Sending a frame\<close>

text \<open>The bytes that \<open>send_frame\<close> passes to one call of \<open>send\<close>.\<close>

definition send_frame :: "string \<Rightarrow> byte list" where
  "send_frame message =
     (let payload_length = (word_of_nat (length message) :: u64);
          frame = [0x81];
          frame = frame @
            (if payload_length \<le> 125 then [ucast payload_length]
             else if payload_length \<le> 0xFFFF
             then [126, ucast (drop_bit 8 payload_length AND 0xFF), ucast (payload_length AND 0xFF)]
             else 127 # map (\<lambda>i. ucast (drop_bit (i * 8) payload_length AND 0xFF)) (rev [0..<8]))
      in frame @ bytes_of message)"

section \<open>Frames as RFC 6455 defines them\<close>

text \<open>The value of a big-endian byte string.\<close>

definition be_val :: "byte list \<Rightarrow> nat" where
  "be_val bs = fold (\<lambda>b n. 256 * n + unat b) bs 0"

text \<open>
  \<open>text_frame fr m\<close>: the bytes \<open>fr\<close> are one text frame with the payload \<open>m\<close>, masked or not, the
  length given in 7, 16 or 64 bits.
\<close>

definition length_field :: "nat \<Rightarrow> byte list \<Rightarrow> nat \<Rightarrow> bool" where
  "length_field len7 ext n \<longleftrightarrow>
     (if len7 = 126 then length ext = 2 \<and> n = be_val ext
      else if len7 = 127 then length ext = 8 \<and> n = be_val ext
      else ext = [] \<and> n = len7)"

definition text_frame :: "byte list \<Rightarrow> string \<Rightarrow> bool" where
  "text_frame fr m \<longleftrightarrow>
     (\<exists>h0 h1 ext key payload.
        fr = [h0, h1] @ ext @ key @ payload \<and> unat h0 mod 16 = 1 \<and>
        length_field (unat h1 mod 128) ext (length payload) \<and>
        (if unat h1 < 128 then key = [] \<and> m = string_of payload
         else length key = 4 \<and> m = string_of (unmask key payload)))"

section \<open>Bytes and lengths\<close>

lemma low7: "unat (h AND 0x7F) = unat h mod 128" for h :: byte
proof -
  have "(0x7F :: byte) = mask 7" by (simp add: mask_eq_exp_minus_1)
  then have "h AND 0x7F = take_bit 7 h" by (simp only: take_bit_eq_mask)
  then have "unat (h AND 0x7F) = take_bit 7 (unat h)" by (simp only: unsigned_take_bit_eq)
  then show ?thesis by (simp add: take_bit_eq_mod)
qed

lemma low4: "h AND 0x0F = 1 \<longleftrightarrow> unat h mod 16 = 1" for h :: byte
proof -
  have "(0x0F :: byte) = mask 4" by (simp add: mask_eq_exp_minus_1)
  then have "h AND 0x0F = take_bit 4 h" by (simp only: take_bit_eq_mask)
  then have "unat (h AND 0x0F) = unat h mod 16"
    by (simp only: unsigned_take_bit_eq) (simp add: take_bit_eq_mod)
  then show ?thesis by (simp add: word_unat_eq_iff)
qed

lemma top_bit: "drop_bit 7 h AND 1 = 1 \<longleftrightarrow> 128 \<le> unat h" for h :: byte
proof -
  have "unat h < 256" using unsigned_less [of h] by simp
  then have "unat h div 128 < 2" by simp
  then have "unat h div 128 = 0 \<or> unat h div 128 = 1" by arith
  moreover have "unat (drop_bit 7 h) = unat h div 128"
    by (simp only: unat_drop_bit_eq) (simp add: drop_bit_eq_div)
  moreover have "unat (drop_bit 7 h AND 1) = unat (drop_bit 7 h) mod 2"
    by (simp add: and_one_eq unat_mod)
  moreover have "128 \<le> unat h \<longleftrightarrow> unat h div 128 \<noteq> 0" by (simp add: div_eq_0_iff not_less)
  ultimately show ?thesis by (auto simp: word_unat_eq_iff)
qed

lemma be_val_snoc: "be_val (bs @ [b]) = 256 * be_val bs + unat b"
  by (simp add: be_val_def)

lemma be_val_bound: "be_val bs < 256 ^ length bs"
proof (induction bs rule: rev_induct)
  case (snoc b bs)
  have "unat b < 256" using unsigned_less [of b] by simp
  with snoc show ?case by (simp add: be_val_snoc)
qed (simp add: be_val_def)

lemma be_accumulate_val: "be_accumulate bs = word_of_nat (be_val bs)"
proof (induction bs rule: rev_induct)
  case (snoc b bs)
  have "push_bit 8 (be_accumulate bs) AND ucast b = 0"
    by (rule bit_word_eqI) (auto simp: bit_simps dest: bit_imp_le_length)
  then have "be_accumulate (bs @ [b]) = push_bit 8 (be_accumulate bs) + ucast b"
    by (simp add: be_accumulate_def disjunctive_add_eq_or)
  also have "\<dots> = 256 * be_accumulate bs + word_of_nat (unat b)"
    by (simp add: push_bit_eq_mult unsigned_ucast_eq mult.commute)
  finally show ?case using snoc by (simp add: be_val_snoc)
qed (simp add: be_accumulate_def be_val_def)

lemma unat_be_accumulate: "length bs \<le> 8 \<Longrightarrow> unat (be_accumulate bs) = be_val bs"
proof -
  assume "length bs \<le> 8"
  then have "(256 :: nat) ^ length bs \<le> 256 ^ 8" by (rule power_increasing) simp
  with be_val_bound [of bs] have "be_val bs < 2 ^ 64" by simp
  then show ?thesis by (simp add: be_accumulate_val unat_of_nat)
qed

lemma two_byte_length: "push_bit 8 (ucast (bs ! 0)) OR ucast (bs ! 1) = be_accumulate bs" if "length bs = 2"
proof -
  from that obtain a b where "bs = [a, b]" by (auto simp: length_Suc_conv numeral_2_eq_2)
  then show ?thesis by (simp add: be_accumulate_def)
qed

lemma length_unmask [simp]: "length (unmask key p) = length p"
  by (simp add: unmask_def)

text \<open>Masking twice with the same key is the identity.\<close>

lemma unmask_unmask [simp]: "unmask key (unmask key p) = p"
  by (rule nth_equalityI) (simp_all add: unmask_def xor.assoc)

section \<open>What a reader returns is a frame of the stream\<close>

context byte_source
begin

lemma read_length_sound:
  assumes "read_length rcv h1 s = (Some len, s')"
  shows "\<exists>ext. pending s = ext @ pending s' \<and> length_field (unat h1 mod 128) ext (unat len)"
proof -
  let ?l = "(ucast (h1 AND 0x7F) :: u64)"
  have "unat h1 mod 128 < 2 ^ 64" by (rule less_trans [of _ 128]) simp_all
  then have l: "unat ?l = unat h1 mod 128"
    by (simp only: unsigned_ucast_eq low7) (simp add: low7 take_bit_nat_eq_self_iff)
  then have e126: "?l = 126 \<longleftrightarrow> unat h1 mod 128 = 126" and e127: "?l = 127 \<longleftrightarrow> unat h1 mod 128 = 127"
    by (simp_all add: word_unat_eq_iff)
  consider "unat h1 mod 128 = 126" | "unat h1 mod 128 = 127" | "unat h1 mod 128 \<noteq> 126" "unat h1 mod 128 \<noteq> 127"
    by blast
  then show ?thesis
  proof cases
    case 1
    then obtain ext where r: "rcv 2 s = (2, ext, s')" and len: "len = push_bit 8 (ucast (ext ! 0)) OR ucast (ext ! 1)"
      using assms e126 by (auto simp: read_length_def Let_def split: prod.splits if_splits)
    from recv_exact [of 2 s ext s'] r have "length ext = 2" "pending s = ext @ pending s'" by auto
    with len have "len = be_accumulate ext" using two_byte_length by metis
    with 1 \<open>length ext = 2\<close> \<open>pending s = _\<close> show ?thesis
      by (auto simp: length_field_def unat_be_accumulate)
  next
    case 2
    then obtain ext where r: "rcv 8 s = (8, ext, s')" and len: "len = be_accumulate ext"
      using assms e126 e127 by (auto simp: read_length_def Let_def split: prod.splits if_splits)
    from recv_exact [of 8 s ext s'] r have "length ext = 8" "pending s = ext @ pending s'" by auto
    with 2 len show ?thesis by (auto simp: length_field_def unat_be_accumulate)
  next
    case 3
    then have "len = ?l" and "s' = s" using assms e126 e127 by (auto simp: read_length_def Let_def)
    with 3 l show ?thesis by (auto simp: length_field_def)
  qed
qed

lemma read_key_sound:
  assumes "read_key rcv h1 s = (Some key, s')"
  shows "if unat h1 < 128 then s' = s else length key = 4 \<and> pending s = key @ pending s'"
proof (cases "unat h1 < 128")
  case True
  then show ?thesis using assms by (simp add: read_key_def top_bit)
next
  case False
  then have "rcv 4 s = (4, key, s')"
    using assms by (auto simp: read_key_def top_bit split: prod.splits if_splits)
  with recv_exact [of 4 s key s'] False show ?thesis by simp
qed

text \<open>Whatever way the stream is cut, a non-empty message is the payload of its next frame.\<close>

lemma read_frame_sound:
  assumes "read_frame mem rcv s = Inr (m, s')" and "m \<noteq> []"
  shows "\<exists>fr. text_frame fr m \<and> pending s = fr @ pending s'"
proof -
  obtain header s1 s2 s3 len key payload
    where h: "rcv 2 s = (2, header, s1)"
      and l: "read_length rcv (header ! 1) s1 = (Some len, s2)"
      and k: "read_key rcv (header ! 1) s2 = (Some key, s3)"
      and p: "recv_all rcv (unat len) [] s3 = (Some payload, s')"
      and op: "header ! 0 AND 0x0F = 1"
      and m: "m = string_of (if drop_bit 7 (header ! 1) AND 1 = 1 then unmask key payload else payload)"
    using assms
    by (auto simp: read_frame_def Let_def split: prod.splits if_splits option.splits sum.splits)
  from recv_exact [of 2 s header s1] h
  have "length header = 2" and pend0: "pending s = header @ pending s1" by auto
  then obtain h0 h1 where header: "header = [h0, h1]" by (auto simp: length_Suc_conv numeral_2_eq_2)
  from read_length_sound [OF l] header obtain ext where
    ext: "pending s1 = ext @ pending s2" "length_field (unat h1 mod 128) ext (unat len)" by auto
  from recv_all_pending [OF p] have pay: "length payload = unat len" "pending s3 = payload @ pending s'"
    by auto
  have op': "unat h0 mod 16 = 1" using op header low4 by simp
  have m': "m = string_of (if unat h1 < 128 then payload else unmask key payload)"
    using m header top_bit [of h1] by (simp add: not_less [symmetric])
  show ?thesis
  proof (cases "unat h1 < 128")
    case True
    then have "s3 = s2" using read_key_sound [OF k] header by simp
    then have "pending s = ([h0, h1] @ ext @ [] @ payload) @ pending s'"
      using pend0 ext pay header by simp
    moreover have "text_frame ([h0, h1] @ ext @ [] @ payload) m"
      unfolding text_frame_def using True op' ext(2) pay(1) m'
      by (intro exI [of _ h0] exI [of _ h1] exI [of _ ext] exI [of _ "[]"] exI [of _ payload]) simp
    ultimately show ?thesis by blast
  next
    case False
    then have "length key = 4" "pending s2 = key @ pending s3"
      using read_key_sound [OF k] header by simp_all
    then have "pending s = ([h0, h1] @ ext @ key @ payload) @ pending s'"
      using pend0 ext pay header by simp
    moreover have "text_frame ([h0, h1] @ ext @ key @ payload) m"
      unfolding text_frame_def using False op' ext(2) pay(1) m' \<open>length key = 4\<close>
      by (intro exI [of _ h0] exI [of _ h1] exI [of _ ext] exI [of _ key] exI [of _ payload]) simp
    ultimately show ?thesis by blast
  qed
qed

end

section \<open>What a frame of the wire format is read as\<close>

text \<open>The shortest length field of RFC 6455, with the mask bit, and a frame with this field.\<close>

definition be_bytes :: "nat \<Rightarrow> nat \<Rightarrow> byte list" where
  "be_bytes k n = map (\<lambda>i. word_of_nat (n div 256 ^ i)) (rev [0..<k])"

definition frame_length :: "bool \<Rightarrow> nat \<Rightarrow> byte list" where
  "frame_length masked n =
     (let m = (if masked then 128 else 0) in
      if n \<le> 125 then [word_of_nat (m + n)]
      else if n \<le> 65535 then word_of_nat (m + 126) # be_bytes 2 n
      else word_of_nat (m + 127) # be_bytes 8 n)"

definition frame_head :: "byte \<Rightarrow> byte list option \<Rightarrow> nat \<Rightarrow> byte list" where
  "frame_head h0 key n =
     h0 # frame_length (key \<noteq> None) n @ (case key of None \<Rightarrow> [] | Some k \<Rightarrow> k)"

definition ws_frame :: "byte \<Rightarrow> byte list option \<Rightarrow> byte list \<Rightarrow> byte list" where
  "ws_frame h0 key payload =
     frame_head h0 key (length payload) @ (case key of None \<Rightarrow> payload | Some k \<Rightarrow> unmask k payload)"

lemma be_bytes_Suc: "be_bytes (Suc k) n = be_bytes k (n div 256) @ [word_of_nat n]"
proof -
  have "rev [0..<Suc k] = map Suc (rev [0..<k]) @ [0]"
    by (simp add: upt_conv_Cons rev_map [symmetric] map_Suc_upt del: upt_Suc)
  then show ?thesis by (simp add: be_bytes_def div_mult2_eq del: upt_Suc)
qed

lemma length_be_bytes [simp]: "length (be_bytes k n) = k"
  by (simp add: be_bytes_def)

lemma be_val_be_bytes: "n < 256 ^ k \<Longrightarrow> be_val (be_bytes k n) = n"
proof (induction k arbitrary: n)
  case 0
  then show ?case by (simp add: be_bytes_def be_val_def)
next
  case (Suc k)
  then have "n div 256 < 256 ^ k" by (simp add: less_mult_imp_div_less mult.commute)
  then have "be_val (be_bytes k (n div 256)) = n div 256" by (rule Suc.IH)
  then show ?case by (simp add: be_bytes_Suc be_val_snoc unat_of_nat)
qed

text \<open>Reads from a socket whose next segment is long enough.\<close>

definition rx_cons :: "byte list \<Rightarrow> rx_event list \<Rightarrow> rx_event list" where
  "rx_cons d es = (if d = [] then es else Rx_Data d # es)"

lemma recv_rx_cons [simp]: "length a = n \<Longrightarrow> 0 < n \<Longrightarrow> recv n (rx_cons (a @ d) es) = (int n, a, rx_cons d es)"
  by (auto simp: rx_cons_def)

lemma recv_all_enough:
  assumes "\<forall>d \<in> set ds. d \<noteq> []" and "want \<le> length (concat ds)"
  shows "\<exists>ds'. recv_all recv want got (map Rx_Data ds @ es)
              = (Some (got @ take want (concat ds)), map Rx_Data ds' @ es)
            \<and> concat ds' = drop want (concat ds) \<and> (\<forall>d \<in> set ds'. d \<noteq> [])"
  using assms
proof (induction ds arbitrary: want got)
  case Nil
  then show ?case by simp
next
  case (Cons d ds)
  consider "want = 0" | "0 < want" "want < length d" | "0 < want" "length d \<le> want" by linarith
  then show ?case
  proof cases
    case 1
    then show ?thesis by (intro exI [of _ "d # ds"]) (use Cons.prems in simp)
  next
    case 2
    then have "recv_all recv want got (map Rx_Data (d # ds) @ es)
        = (Some (got @ take want d), map Rx_Data (drop want d # ds) @ es)"
      by (subst recv_all.simps) simp
    with 2 Cons.prems show ?thesis by (intro exI [of _ "drop want d # ds"]) simp
  next
    case 3
    from Cons.prems have "0 < length d" by simp
    moreover from 3 obtain w where "want = Suc w" by (cases want) auto
    ultimately have step: "recv_all recv want got (map Rx_Data (d # ds) @ es)
        = recv_all recv (want - length d) (got @ d) (map Rx_Data ds @ es)"
      using 3 by (simp add: recv_all.simps [of recv "Suc w"])
    have le: "want - length d \<le> length (concat ds)" using Cons.prems(2) by simp
    obtain ds' where ds':
      "recv_all recv (want - length d) (got @ d) (map Rx_Data ds @ es)
         = (Some ((got @ d) @ take (want - length d) (concat ds)), map Rx_Data ds' @ es)"
      "concat ds' = drop (want - length d) (concat ds)" "\<forall>d \<in> set ds'. d \<noteq> []"
      using Cons.IH [of "want - length d" "got @ d"] le Cons.prems(1) by auto
    show ?thesis
      by (rule exI [of _ ds']) (use step ds' 3 in simp)
  qed
qed

section \<open>The head of a frame\<close>

lemma head_byte:
  assumes "n < 128"
  shows "unat ((word_of_nat ((if b then 128 else 0) + n) :: byte) AND 0x7F) = n"
    and "drop_bit 7 (word_of_nat ((if b then 128 else 0) + n) :: byte) AND 1 = 1 \<longleftrightarrow> b"
proof -
  have u: "unat (word_of_nat ((if b then 128 else 0) + n) :: byte) = (if b then 128 else 0) + n"
    using assms by (simp only: unat_of_nat) (simp add: take_bit_nat_eq_self_iff del: of_nat_add)
  show "unat ((word_of_nat ((if b then 128 else 0) + n) :: byte) AND 0x7F) = n"
    using assms by (simp only: low7 u) simp
  show "drop_bit 7 (word_of_nat ((if b then 128 else 0) + n) :: byte) AND 1 = 1 \<longleftrightarrow> b"
    using assms by (simp only: top_bit u) simp
qed

text \<open>After the first byte of the frame and the length byte, the length that \<open>read_length\<close> finds.\<close>

definition length_byte :: "bool \<Rightarrow> nat \<Rightarrow> byte" where
  "length_byte masked n = word_of_nat ((if masked then 128 else 0) + (if n \<le> 125 then n else if n \<le> 65535 then 126 else 127))"

definition length_ext :: "nat \<Rightarrow> byte list" where
  "length_ext n = (if n \<le> 125 then [] else if n \<le> 65535 then be_bytes 2 n else be_bytes 8 n)"

lemma frame_length_split: "frame_length masked n = length_byte masked n # length_ext n"
  by (simp add: frame_length_def length_byte_def length_ext_def Let_def)

lemma length_byte_bits:
  "ucast (length_byte b n AND 0x7F) = (word_of_nat (if n \<le> 125 then n else if n \<le> 65535 then 126 else 127) :: u64)"
  "drop_bit 7 (length_byte b n) AND 1 = 1 \<longleftrightarrow> b"
proof -
  let ?k = "if n \<le> 125 then n else if n \<le> 65535 then 126 else 127 :: nat"
  have k: "?k < 128" by simp
  have "unat (length_byte b n AND 0x7F) = ?k"
    unfolding length_byte_def by (rule head_byte(1) [OF k])
  then have "word_of_nat (unat (length_byte b n AND 0x7F)) = (word_of_nat ?k :: u64)"
    by (rule arg_cong)
  then show "ucast (length_byte b n AND 0x7F) = (word_of_nat ?k :: u64)"
    by (simp only: of_nat_unat)
  show "drop_bit 7 (length_byte b n) AND 1 = 1 \<longleftrightarrow> b"
    unfolding length_byte_def by (rule head_byte(2) [OF k])
qed

lemma read_length_head:
  assumes "n < 2 ^ 64"
  shows "read_length recv (length_byte b n) (rx_cons (length_ext n @ d) es) = (Some (word_of_nat n), rx_cons d es)"
proof -
  let ?l = "ucast (length_byte b n AND 0x7F) :: u64"
  consider "n \<le> 125" | "125 < n" "n \<le> 65535" | "65535 < n" by linarith
  then show ?thesis
  proof cases
    case 1
    then have "?l = word_of_nat n" by (simp add: length_byte_bits)
    moreover have "(word_of_nat n :: u64) \<noteq> 126 \<and> (word_of_nat n :: u64) \<noteq> 127"
      using 1 by (simp add: word_unat_eq_iff unat_of_nat)
    ultimately show ?thesis using 1 by (simp add: read_length_def length_ext_def)
  next
    case 2
    then have "?l = 126" by (simp add: length_byte_bits)
    moreover have "push_bit 8 (ucast (be_bytes 2 n ! 0)) OR ucast (be_bytes 2 n ! 1) = (word_of_nat n :: u64)"
      using two_byte_length [of "be_bytes 2 n"] 2 by (simp add: be_accumulate_val be_val_be_bytes)
    ultimately show ?thesis using 2 by (simp add: read_length_def length_ext_def)
  next
    case 3
    then have "?l = 127" by (simp add: length_byte_bits)
    with 3 assms show ?thesis
      by (simp add: read_length_def length_ext_def be_accumulate_val be_val_be_bytes)
  qed
qed

lemma read_key_head:
  assumes "\<And>k. key = Some k \<Longrightarrow> length k = 4"
  shows "read_key recv (length_byte (key \<noteq> None) n) (rx_cons ((case key of None \<Rightarrow> [] | Some k \<Rightarrow> k) @ d) es)
          = (Some (case key of None \<Rightarrow> replicate 4 0 | Some k \<Rightarrow> k), rx_cons d es)"
  using assms by (cases key) (simp_all add: read_key_def length_byte_bits)

section \<open>Reading what a peer sent\<close>

lemma append_eq_longer:
  "xs @ ys = us @ vs \<Longrightarrow> length us \<le> length xs \<Longrightarrow> \<exists>w. xs = us @ w \<and> w @ ys = vs"
  by (auto simp: append_eq_append_conv2)

lemma ws_frame_split:
  "ws_frame h0 key p
   = [h0, length_byte (key \<noteq> None) (length p)] @ length_ext (length p)
     @ (case key of None \<Rightarrow> [] | Some k \<Rightarrow> k) @ (case key of None \<Rightarrow> p | Some k \<Rightarrow> unmask k p)"
  by (simp add: ws_frame_def frame_head_def frame_length_split)

text \<open>
  \<open>read_frame\<close> from the head of a frame onwards, on every branch: the allocation, a payload that
  does not arrive, an opcode other than text, and the payload with the mask taken off.
\<close>

lemma read_frame_head:
  assumes key: "\<And>k. key = Some k \<Longrightarrow> length k = 4" and n: "n < 2 ^ 64"
  shows "read_frame mem recv (rx_cons (frame_head h0 key n @ d) es) =
     (case alloc_check mem n of Inl e \<Rightarrow> Inl e
      | Inr _ \<Rightarrow>
          (case recv_all recv n [] (rx_cons d es) of (None, s) \<Rightarrow> Inr ([], s)
           | (Some p, s) \<Rightarrow>
               Inr (if unat h0 mod 16 = 1
                    then string_of (case key of None \<Rightarrow> p | Some k \<Rightarrow> unmask k p) else [], s)))"
proof -
  let ?b = "key \<noteq> None"
  let ?k = "case key of None \<Rightarrow> [] | Some k \<Rightarrow> k"
  have head: "frame_head h0 key n @ d = [h0, length_byte ?b n] @ (length_ext n @ (?k @ d))"
    by (simp add: frame_head_def frame_length_split)
  have r1: "recv 2 (rx_cons (frame_head h0 key n @ d) es)
      = (2, [h0, length_byte ?b n], rx_cons (length_ext n @ (?k @ d)) es)"
    unfolding head by (subst recv_rx_cons) simp_all
  have r2: "read_length recv (length_byte ?b n) (rx_cons (length_ext n @ (?k @ d)) es)
      = (Some (word_of_nat n), rx_cons (?k @ d) es)"
    by (rule read_length_head [OF n])
  have r3: "read_key recv (length_byte ?b n) (rx_cons (?k @ d) es)
      = (Some (case key of None \<Rightarrow> replicate 4 0 | Some k \<Rightarrow> k), rx_cons d es)"
    by (rule read_key_head) (rule key)
  have n': "unat (word_of_nat n :: u64) = n" using n by (simp add: unat_of_nat take_bit_nat_eq_self_iff)
  show ?thesis
    unfolding read_frame_def r1
    using length_byte_bits(2) [of ?b n] r2 r3
    by (cases key) (auto simp add: n' low4 split: sum.splits option.splits prod.splits)
qed

lemma read_frame_of_frame:
  assumes key: "\<And>k. key = Some k \<Longrightarrow> length k = 4"
    and h0: "unat h0 mod 16 = 1"
    and size: "length p \<le> mem" "length p \<le> vector_max"
    and cut: "d0 @ concat ds = ws_frame h0 key p @ rest" "\<forall>d \<in> set ds. d \<noteq> []"
    and head: "length (frame_head h0 key (length p)) \<le> length d0"
  shows "\<exists>ds'. read_frame mem recv (map Rx_Data (d0 # ds) @ es) = Inr (string_of p, map Rx_Data ds' @ es)
             \<and> concat ds' = rest \<and> (\<forall>d \<in> set ds'. d \<noteq> [])"
proof -
  let ?n = "length p"
  let ?wire = "case key of None \<Rightarrow> p | Some k \<Rightarrow> unmask k p"
  let ?es = "map Rx_Data ds @ es"
  have n64: "?n < 2 ^ 64" using size(2) by (simp add: vector_max_def)
  have "d0 @ concat ds = frame_head h0 key ?n @ ?wire @ rest"
    using cut(1) by (simp add: ws_frame_def)
  with head obtain d where d0: "d0 = frame_head h0 key ?n @ d" and wire: "d @ concat ds = ?wire @ rest"
    using append_eq_longer by metis
  have ev: "map Rx_Data (d0 # ds) @ es = rx_cons (frame_head h0 key ?n @ d) ?es"
    by (simp add: rx_cons_def d0 frame_head_def)
  define ds0 where "ds0 = (if d = [] then ds else d # ds)"
  have rest_ev: "rx_cons d ?es = map Rx_Data ds0 @ es"
    and ds0: "concat ds0 = ?wire @ rest" "\<forall>x \<in> set ds0. x \<noteq> []"
    using wire cut(2) by (auto simp: rx_cons_def ds0_def)
  have wire_len: "length ?wire = ?n" by (cases key) simp_all
  obtain ds' where "recv_all recv ?n [] (map Rx_Data ds0 @ es) = (Some ?wire, map Rx_Data ds' @ es)"
    and ds': "concat ds' = rest" "\<forall>d \<in> set ds'. d \<noteq> []"
    using recv_all_enough [OF ds0(2), of ?n "[]" es] ds0(1) wire_len by auto
  moreover have "alloc_check mem ?n = Inr ()" using size by (simp add: alloc_check_def)
  ultimately have "read_frame mem recv (map Rx_Data (d0 # ds) @ es) = Inr (string_of p, map Rx_Data ds' @ es)"
    using h0 read_frame_head [where key = key, OF key n64, where mem = mem and ?h0.0 = h0 and d = d and es = ?es]
    unfolding ev rest_ev by (cases key) simp_all
  with ds' show ?thesis by blast
qed

section \<open>What the server sends\<close>

lemma length_octet:
  assumes "n < 2 ^ 64"
  shows "ucast (drop_bit (i * 8) (word_of_nat n :: u64) AND 0xFF) = (word_of_nat (n div 256 ^ i) :: byte)"
proof -
  let ?w = "drop_bit (i * 8) (word_of_nat n :: u64)"
  have n: "unat (word_of_nat n :: u64) = n" using assms by (simp add: unat_of_nat take_bit_nat_eq_self_iff)
  have "(0xFF :: u64) = mask 8" by (simp add: mask_eq_exp_minus_1)
  moreover have "ucast (?w AND mask 8) = (ucast ?w :: byte)"
    by (auto intro!: bit_word_eqI simp: bit_simps)
  ultimately have "ucast (?w AND 0xFF) = (ucast ?w :: byte)" by simp
  also have "\<dots> = word_of_nat (unat ?w)" by simp
  also have "unat ?w = n div 256 ^ i"
    by (simp only: unat_drop_bit_eq n)
      (simp add: drop_bit_eq_div power_mult mult.commute [of i])
  finally show ?thesis .
qed

lemma send_frame_ws:
  assumes "length m < 2 ^ 64"
  shows "send_frame m = ws_frame 0x81 None (bytes_of m)"
proof -
  let ?n = "length m"
  let ?w = "word_of_nat ?n :: u64"
  have n: "unat ?w = ?n" using assms by (simp add: unat_of_nat take_bit_nat_eq_self_iff)
  have le: "?w \<le> 125 \<longleftrightarrow> ?n \<le> 125" "?w \<le> 0xFFFF \<longleftrightarrow> ?n \<le> 65535"
    by (simp_all add: word_le_nat_alt n)
  note octet = length_octet [OF assms]
  have "ucast ?w = (word_of_nat ?n :: byte)" by (metis n of_nat_unat)
  moreover have "[ucast (drop_bit 8 ?w AND 0xFF), ucast (?w AND 0xFF)] = be_bytes 2 ?n"
    using octet [of 1] octet [of 0] by (simp add: be_bytes_def numeral_2_eq_2)
  moreover have "map (\<lambda>i. ucast (drop_bit (i * 8) ?w AND 0xFF)) (rev [0..<8]) = be_bytes 8 ?n"
    by (simp only: octet be_bytes_def)
  ultimately show ?thesis
    by (simp add: send_frame_def ws_frame_def frame_head_def frame_length_def Let_def le)
qed

text \<open>The frames of \<open>send_frame\<close> are read back, so the encoding is an instance of \<open>codec\<close>.\<close>

lemma read_frame_sent:
  assumes "length m \<le> mem" and "length m \<le> vector_max"
  shows "read_frame mem recv (Rx_Data (send_frame m) # es) = Inr (m, es)"
proof -
  have m64: "length m < 2 ^ 64" using assms(2) by (simp add: vector_max_def)
  then have ev: "Rx_Data (send_frame m) # es = rx_cons (frame_head 0x81 None (length m) @ bytes_of m) es"
    by (simp add: send_frame_ws ws_frame_def rx_cons_def frame_head_def)
  have "recv_all recv (length m) [] (rx_cons (bytes_of m) es) = (Some (bytes_of m), es)"
  proof (cases "m = []")
    case True
    then show ?thesis by (simp add: rx_cons_def bytes_of_def)
  next
    case False
    then have "bytes_of m \<noteq> []" by (simp add: bytes_of_def)
    then show ?thesis
      using recv_all_segments [of "[bytes_of m]" "length m" "[]" es] by (simp add: rx_cons_def)
  qed
  then show ?thesis
    unfolding ev using assms m64 by (subst read_frame_head) (simp_all add: alloc_check_def)
qed

definition frame_message :: "byte list \<Rightarrow> string option" where
  "frame_message bs =
     (case read_frame vector_max recv [Rx_Data bs] of Inr (m, []) \<Rightarrow> Some m | _ \<Rightarrow> None)"

interpretation ws: codec send_frame frame_message "\<lambda>m. length m \<le> vector_max"
  by unfold_locales (simp add: frame_message_def read_frame_sent)

section \<open>Properties\<close>

text \<open>
  C4: A text frame is received as its payload, however TCP cuts it after its head: for every
  payload that fits in memory, masked with any key or not, with its length given in 7, 16 or 64
  bits, read_frame returns the payload unmasked and leaves exactly the bytes that follow the
  frame.
\<close>

theorem read_frame_receives:
  assumes "\<And>k. key = Some k \<Longrightarrow> length k = 4"
    and "unat h0 mod 16 = 1"
    and "length p \<le> mem" and "length p \<le> vector_max"
    and "d0 @ concat ds = ws_frame h0 key p @ rest" and "\<forall>d \<in> set ds. d \<noteq> []"
    and "length (frame_head h0 key (length p)) \<le> length d0"
  shows "\<exists>ds'. read_frame mem recv (map Rx_Data (d0 # ds) @ es) = Inr (string_of p, map Rx_Data ds' @ es)
             \<and> concat ds' = rest"
  using read_frame_of_frame [OF assms] by blast

text \<open>The masked frame ``Hello'' of RFC 6455, section 5.7, cut in two, and the first byte of the next.\<close>

theorem read_frame_receives_witness:
  "\<exists>ds'. read_frame 1000 recv
      (map Rx_Data [[0x81, 0x85, 0x37, 0xfa, 0x21, 0x3d, 0x7f, 0x9f], [0x4d, 0x51, 0x58, 0x81]] @ [Rx_Close])
    = Inr (string_of (bytes_of ''Hello''), map Rx_Data ds' @ [Rx_Close]) \<and> concat ds' = [0x81]"
proof (rule read_frame_receives [where key = "Some [0x37, 0xfa, 0x21, 0x3d]" and ?h0.0 = "0x81"])
  show "[0x81, 0x85, 0x37, 0xfa, 0x21, 0x3d, 0x7f, 0x9f] @ concat [[0x4d, 0x51, 0x58, 0x81]]
      = ws_frame 0x81 (Some [0x37, 0xfa, 0x21, 0x3d]) (bytes_of ''Hello'') @ [0x81]"
    by code_simp
  show "length (frame_head 0x81 (Some [0x37, 0xfa, 0x21, 0x3d]) (length (bytes_of ''Hello'')))
      \<le> length [0x81, 0x85, 0x37, 0xfa, 0x21, 0x3d, 0x7f, 0x9f :: byte]"
    by code_simp
qed (simp_all add: vector_max_def)

text \<open>
  C16: Nothing but a text frame is received as a message: for every socket whose recv returns the
  next bytes of its stream, a non-empty message is the payload (unmasked) of the frame that the
  stream continues with, and read_frame has consumed this frame exactly.
\<close>

theorem read_frame_only_frames:
  assumes "read_frame mem recv s = Inr (m, s')" and "m \<noteq> []"
  shows "\<exists>fr. text_frame fr m \<and> rx_bytes s = fr @ rx_bytes s'"
  by (rule rx.read_frame_sound [OF assms])

theorem read_frame_only_frames_witness:
  "\<exists>fr. text_frame fr ''Hi'' \<and> rx_bytes [Rx_Data [0x81, 2, 72, 105, 7]] = fr @ rx_bytes [Rx_Data [7]]"
proof -
  have "string_of [72, 105] = ''Hi''" by code_simp
  then have "read_frame 10 recv [Rx_Data [0x81, 2, 72, 105, 7]] = Inr (''Hi'', [Rx_Data [7]])"
    by (simp add: read_frame_def read_length_def read_key_def alloc_check_def vector_max_def
        recv_all.simps)
  then show ?thesis by (rule read_frame_only_frames) simp
qed

text \<open>
  C17: Every branch of read_frame after the head of a frame has arrived: std::length_error or
  std::bad_alloc for a length that no vector can have, the empty string when the payload does not
  arrive or the opcode is not text, otherwise the payload with the mask taken off.
\<close>

theorem read_frame_branches:
  assumes "\<And>k. key = Some k \<Longrightarrow> length k = 4" and "n < 2 ^ 64"
  shows "read_frame mem recv (rx_cons (frame_head h0 key n @ d) es) =
     (case alloc_check mem n of Inl e \<Rightarrow> Inl e
      | Inr _ \<Rightarrow>
          (case recv_all recv n [] (rx_cons d es) of (None, s) \<Rightarrow> Inr ([], s)
           | (Some p, s) \<Rightarrow>
               Inr (if unat h0 mod 16 = 1
                    then string_of (case key of None \<Rightarrow> p | Some k \<Rightarrow> unmask k p) else [], s)))"
  by (rule read_frame_head [OF assms])

text \<open>Ten bytes that make the reader ask for \<open>2 ^ 63\<close> bytes of memory.\<close>

theorem read_frame_branches_witness:
  "read_frame 1000 recv [Rx_Data [0x81, 127, 0x80, 0, 0, 0, 0, 0, 0, 0]] = Inl Length_Error"
proof -
  have "be_bytes 8 9223372036854775808 = [0x80, 0, 0, 0, 0, 0, 0, 0]"
    by (simp add: be_bytes_def upt_rec word_unat_eq_iff)
  then show ?thesis
    using read_frame_branches [of None 9223372036854775808 1000 "0x81" "[]" "[]"]
    by (simp add: rx_cons_def frame_head_def frame_length_def alloc_check_def vector_max_def)
qed

text \<open>
  What the server sends with send_frame is one frame that read_frame reads back: the message,
  for every length up to the largest vector, nothing of the bytes that follow.
\<close>

theorem send_frame_read_frame:
  assumes "length m \<le> mem" and "length m \<le> vector_max"
  shows "read_frame mem recv (Rx_Data (send_frame m) # es) = Inr (m, es)"
  by (rule read_frame_sent [OF assms])

theorem send_frame_read_frame_witness:
  "read_frame 65536 recv [Rx_Data (send_frame ''ID[5]=>hello''), Rx_Close] = Inr (''ID[5]=>hello'', [Rx_Close])"
  by (rule send_frame_read_frame) (simp_all add: vector_max_def)

text \<open>
  send_frame writes the frame of RFC 6455: FIN and the text opcode, no mask, the shortest
  length field, in big-endian order, then the message.
\<close>

theorem send_frame_is_ws_frame:
  assumes "length m < 2 ^ 64"
  shows "send_frame m = ws_frame 0x81 None (bytes_of m)"
  by (rule send_frame_ws [OF assms])

theorem send_frame_is_ws_frame_witness:
  "send_frame ''Hello'' = [0x81, 0x05, 0x48, 0x65, 0x6c, 0x6c, 0x6f]"
  using send_frame_is_ws_frame [of "''Hello''"]
  by (simp add: ws_frame_def frame_head_def frame_length_def bytes_of_def byte_of_def)

section \<open>Where the readers lose data\<close>

text \<open>
  When the two header bytes do not arrive together, the first is consumed and dropped: the bytes
  that follow are then read as the head of a frame.
\<close>

lemma read_frame_split_header: "read_frame mem recv (Rx_Data [b] # es) = Inr ([], es)"
  by (simp add: read_frame_def)

lemma read_frame_vec_undefined:
  "read_frame mem rcv s = Inr (m, s') \<Longrightarrow> m \<noteq> [] \<Longrightarrow> read_frame_vec mem rcv s = Inl Undefined_Behaviour"
  by (simp add: read_frame_vec_def)

end
