(* ===== verification/Sha1.thy ===== *)
theory Sha1
  imports Cpp_Base
begin

text \<open>
  The class \<open>SHA1\<close> of src/SHA1.cpp (the same text, in a namespace, is
  src/base/simple_server_sha1.cpp). The record has the members of the class; \<open>H\<close> and
  \<open>Message_Block\<close> are the arrays, the counters keep their width. Every member function is one
  definition, with the loops of the code. The constructor does not set \<open>Message_Block\<close>: its
  initial content is an argument.
\<close>

record sha1_state =
  H :: "u32 list"
  Length_Low :: u32
  Length_High :: u32
  Message_Block :: "byte list"
  Message_Block_Index :: nat
  Computed :: bool
  Corrupted :: bool

section \<open>The compression function\<close>

definition CircularShift :: "nat \<Rightarrow> u32 \<Rightarrow> u32" where
  "CircularShift bits word =
     (push_bit bits word AND 0xFFFFFFFF) OR drop_bit (32 - bits) (word AND 0xFFFFFFFF)"

definition SHA1_K :: "u32 list" where
  "SHA1_K = [0x5A827999, 0x6ED9EBA1, 0x8F1BBCDC, 0xCA62C1D6]"

definition block_word :: "byte list \<Rightarrow> nat \<Rightarrow> u32" where
  "block_word blk t =
     push_bit 24 (ucast (blk ! (t * 4))) OR push_bit 16 (ucast (blk ! (t * 4 + 1)))
       OR push_bit 8 (ucast (blk ! (t * 4 + 2))) OR ucast (blk ! (t * 4 + 3))"

text \<open>The array \<open>W\<close>, filled from index 0 to 79: entry \<open>t\<close> is appended in iteration \<open>t\<close>.\<close>

definition init_W :: "byte list \<Rightarrow> u32 list" where
  "init_W blk = map (block_word blk) [0..<16]"

definition extend_W :: "u32 list \<Rightarrow> u32 list" where
  "extend_W W0 =
     fold (\<lambda>t W. W @ [CircularShift 1 (W ! (t - 3) XOR W ! (t - 8) XOR W ! (t - 14) XOR W ! (t - 16))])
       [16..<80] W0"

type_synonym regs = "u32 \<times> u32 \<times> u32 \<times> u32 \<times> u32"

text \<open>The body shared by the four loops: \<open>f\<close> is the mixing of \<open>B, C, D\<close>, \<open>k\<close> the constant.\<close>

fun round_body :: "(u32 \<Rightarrow> u32 \<Rightarrow> u32 \<Rightarrow> u32) \<Rightarrow> u32 \<Rightarrow> u32 list \<Rightarrow> nat \<Rightarrow> regs \<Rightarrow> regs" where
  "round_body f k W t (A, B, C, D, E) =
     (let temp = (CircularShift 5 A + f B C D + E + W ! t + k) AND 0xFFFFFFFF
      in (temp, A, CircularShift 30 B, C, D))"

definition rounds :: "u32 list \<Rightarrow> regs \<Rightarrow> regs" where
  "rounds W r0 =
     (let r1 = fold (round_body (\<lambda>B C D. (B AND C) OR (NOT B AND D)) (SHA1_K ! 0) W) [0..<20] r0;
          r2 = fold (round_body (\<lambda>B C D. B XOR C XOR D) (SHA1_K ! 1) W) [20..<40] r1;
          r3 = fold (round_body (\<lambda>B C D. (B AND C) OR (B AND D) OR (C AND D)) (SHA1_K ! 2) W) [40..<60] r2
      in fold (round_body (\<lambda>B C D. B XOR C XOR D) (SHA1_K ! 3) W) [60..<80] r3)"

definition ProcessMessageBlock :: "sha1_state \<Rightarrow> sha1_state" where
  "ProcessMessageBlock s =
     (let W = extend_W (init_W (Message_Block s)) in
      case rounds W (H s ! 0, H s ! 1, H s ! 2, H s ! 3, H s ! 4) of (A, B, C, D, E) \<Rightarrow>
        s\<lparr>H := [(H s ! 0 + A) AND 0xFFFFFFFF, (H s ! 1 + B) AND 0xFFFFFFFF,
                (H s ! 2 + C) AND 0xFFFFFFFF, (H s ! 3 + D) AND 0xFFFFFFFF,
                (H s ! 4 + E) AND 0xFFFFFFFF],
          Message_Block_Index := 0\<rparr>)"

section \<open>The interface of the class\<close>

definition Reset :: "sha1_state \<Rightarrow> sha1_state" where
  "Reset s = s\<lparr>Length_Low := 0, Length_High := 0, Message_Block_Index := 0,
     H := [0x67452301, 0xEFCDAB89, 0x98BADCFE, 0x10325476, 0xC3D2E1F0],
     Computed := False, Corrupted := False\<rparr>"

text \<open>The constructor, on memory that holds anything.\<close>

definition SHA1_new :: "sha1_state \<Rightarrow> sha1_state" where
  "SHA1_new mem = Reset mem"

definition put_byte :: "byte \<Rightarrow> sha1_state \<Rightarrow> sha1_state" where
  "put_byte b s = s\<lparr>Message_Block := (Message_Block s)[Message_Block_Index s := b],
     Message_Block_Index := Message_Block_Index s + 1\<rparr>"

text \<open>One iteration of the loop of \<open>Input\<close>.\<close>

definition Input_step :: "byte \<Rightarrow> sha1_state \<Rightarrow> sha1_state" where
  "Input_step b s =
     (let s = put_byte (b AND 0xFF) s;
          s = s\<lparr>Length_Low := (Length_Low s + 8) AND 0xFFFFFFFF\<rparr>;
          s = (if Length_Low s = 0
               then (let s = s\<lparr>Length_High := (Length_High s + 1) AND 0xFFFFFFFF\<rparr>
                     in if Length_High s = 0 then s\<lparr>Corrupted := True\<rparr> else s)
               else s)
      in if Message_Block_Index s = 64 then ProcessMessageBlock s else s)"

fun Input_loop :: "byte list \<Rightarrow> sha1_state \<Rightarrow> sha1_state" where
  "Input_loop [] s = s"
| "Input_loop (b # bs) s = (if Corrupted s then s else Input_loop bs (Input_step b s))"

text \<open>
  \<open>Input(message_array, length)\<close>: the list is the \<open>length\<close> octets of the array, an \<open>unsigned\<close>, so that
  calls have lists shorter than \<open>2 ^ 32\<close>; what is proved of longer lists is about no call.
\<close>

definition Input :: "byte list \<Rightarrow> sha1_state \<Rightarrow> sha1_state" where
  "Input msg s =
     (if msg = [] then s
      else if Computed s \<or> Corrupted s then s\<lparr>Corrupted := True\<rparr>
      else Input_loop msg s)"

text \<open>\<open>Input(element)\<close>, \<open>operator<<(element)\<close> and \<open>operator<<(string)\<close>.\<close>

definition Input_char :: "byte \<Rightarrow> sha1_state \<Rightarrow> sha1_state" where
  "Input_char b s = Input [b] s"

definition stream_char :: "byte \<Rightarrow> sha1_state \<Rightarrow> sha1_state" where
  "stream_char b s = Input_char b s"

fun stream_in :: "byte list \<Rightarrow> sha1_state \<Rightarrow> sha1_state" where
  "stream_in [] s = s"
| "stream_in (b # bs) s = (if b = 0 then s else stream_in bs (Input_char b s))"

function zero_fill :: "nat \<Rightarrow> sha1_state \<Rightarrow> sha1_state" where
  "zero_fill lim s = (if Message_Block_Index s < lim then zero_fill lim (put_byte 0 s) else s)"
  by pat_completeness auto
termination
  by (relation "measure (\<lambda>(lim, s). lim - Message_Block_Index s)") (auto simp: put_byte_def)

declare zero_fill.simps [simp del]

definition length_octets :: "u32 \<Rightarrow> u32 \<Rightarrow> byte list" where
  "length_octets high low =
     [ucast (drop_bit 24 high AND 0xFF), ucast (drop_bit 16 high AND 0xFF),
      ucast (drop_bit 8 high AND 0xFF), ucast (high AND 0xFF),
      ucast (drop_bit 24 low AND 0xFF), ucast (drop_bit 16 low AND 0xFF),
      ucast (drop_bit 8 low AND 0xFF), ucast (low AND 0xFF)]"

definition PadMessage :: "sha1_state \<Rightarrow> sha1_state" where
  "PadMessage s =
     (let s = (if Message_Block_Index s > 55
               then (let s = put_byte 0x80 s; s = zero_fill 64 s; s = ProcessMessageBlock s
                     in zero_fill 56 s)
               else (let s = put_byte 0x80 s in zero_fill 56 s));
          s = s\<lparr>Message_Block := take 56 (Message_Block s) @ length_octets (Length_High s) (Length_Low s)\<rparr>
      in ProcessMessageBlock s)"

text \<open>\<open>Result\<close>: the returned flag, the digest written on success, the object afterwards.\<close>

definition Result :: "sha1_state \<Rightarrow> (u32 list) option \<times> sha1_state" where
  "Result s =
     (if Corrupted s then (None, s)
      else (let s = (if Computed s then s else (PadMessage s)\<lparr>Computed := True\<rparr>)
            in (Some (map (\<lambda>i. H s ! i) [0..<5]), s)))"

end
