(* ===== verification/Sha1_Eval.thy ===== *)
theory Sha1_Eval
  imports Sha1_Spec
begin

text \<open>
  The standard on integers, in a form that rewriting evaluates: words are integers below \<open>2 ^ 32\<close>,
  the message schedule is a window of 16 words that moves with the rounds. It serves for known
  answers: \<open>SHA1_spec\<close> of a concrete message is computed inside the logic.
\<close>

section \<open>The definitions\<close>

definition rol :: "nat \<Rightarrow> int \<Rightarrow> int" where
  "rol n x = take_bit 32 (push_bit n x) OR drop_bit (32 - n) x"

definition eval_ft :: "nat \<Rightarrow> int \<Rightarrow> int \<Rightarrow> int \<Rightarrow> int" where
  "eval_ft t x y z =
     (if t < 20 then z XOR (x AND (y XOR z))
      else if 40 \<le> t \<and> t < 60 then (x AND y) OR (z AND (x OR y))
      else x XOR y XOR z)"

definition eval_Kt :: "nat \<Rightarrow> int" where
  "eval_Kt t = (if t < 20 then 0x5A827999 else if t < 40 then 0x6ED9EBA1
           else if t < 60 then 0x8F1BBCDC else 0xCA62C1D6)"

type_synonym iregs = "int \<times> int \<times> int \<times> int \<times> int"

fun eval_step :: "int \<Rightarrow> nat \<Rightarrow> iregs \<Rightarrow> iregs" where
  "eval_step w t (a, b, c, d, e) =
     (take_bit 32 (rol 5 a + eval_ft t b c d + e + eval_Kt t + w), a, rol 30 b, c, d)"

definition slide :: "int list \<Rightarrow> int list" where
  "slide win = tl win @ [rol 1 (win ! 13 XOR win ! 8 XOR win ! 2 XOR win ! 0)]"

function eval_rounds :: "nat \<Rightarrow> int list \<Rightarrow> iregs \<Rightarrow> iregs" where
  "eval_rounds t win r = (if 80 \<le> t then r else eval_rounds (t + 1) (slide win) (eval_step (hd win) t r))"
  by pat_completeness auto
termination
  by (relation "measure (\<lambda>(t, win, r). 80 - t)") auto

declare eval_rounds.simps [simp del]

fun int_words :: "int list \<Rightarrow> int list" where
  "int_words (b0 # b1 # b2 # b3 # bs) = (b0 * 2 ^ 24 + b1 * 2 ^ 16 + b2 * 2 ^ 8 + b3) # int_words bs"
| "int_words _ = []"

fun eval_add :: "iregs \<Rightarrow> iregs \<Rightarrow> iregs" where
  "eval_add (h0, h1, h2, h3, h4) (a, b, c, d, e) =
     (take_bit 32 (h0 + a), take_bit 32 (h1 + b), take_bit 32 (h2 + c), take_bit 32 (h3 + d), take_bit 32 (h4 + e))"

definition eval_block :: "iregs \<Rightarrow> int list \<Rightarrow> iregs" where
  "eval_block r ws = eval_add r (eval_rounds 0 ws r)"

section \<open>They compute the standard\<close>

fun uregs :: "regs \<Rightarrow> iregs" where
  "uregs (a, b, c, d, e) = (uint a, uint b, uint c, uint d, uint e)"

lemma uint_rotl: "0 < n \<Longrightarrow> n < 32 \<Longrightarrow> uint (word_rotl n w) = rol n (uint w)" for w :: u32
proof -
  assume n: "0 < n" "n < 32"
  have "word_rotl n w = push_bit n w OR drop_bit (32 - n) w"
    using CircularShift_rotl [OF n, of w] by (simp add: CircularShift_def)
  moreover have "uint w < 2 ^ 32" using unsigned_less [of w] by simp
  then have "take_bit 32 (uint w) = uint w" by (simp add: take_bit_int_eq_self_iff)
  ultimately show ?thesis by (simp add: rol_def unsigned_or_eq unsigned_push_bit_eq unsigned_drop_bit_eq n)
qed

lemma uint_ft: "uint (ft t x y z) = eval_ft t (uint x) (uint y) (uint z)"
proof -
  have "(x AND y) OR (NOT x AND z) = z XOR (x AND (y XOR z))"
    and "(x AND y) OR (x AND z) OR (y AND z) = (x AND y) OR (z AND (x OR y))"
    by (rule bit_word_eqI, auto simp: bit_simps)+
  then show ?thesis
    by (simp add: ft_def eval_ft_def unsigned_or_eq unsigned_and_eq unsigned_xor_eq)
qed

lemma uint_Kt: "uint (Kt t) = eval_Kt t"
  by (simp add: Kt_def eval_Kt_def)

lemma uint_step: "uregs (sha_step W t r) = eval_step (uint (W t)) t (uregs r)"
  by (cases r)
    (simp add: uint_word_ariths uint_rotl uint_ft uint_Kt take_bit_eq_mod mod_simps ac_simps)

definition window :: "(nat \<Rightarrow> u32) \<Rightarrow> nat \<Rightarrow> int list" where
  "window W t = map (\<lambda>i. uint (W (t + i))) [0..<16]"

lemma slide_window: "slide (window (schedule M) t) = window (schedule M) (Suc t)"
proof -
  have "schedule M (t + 16) = word_rotl 1 (schedule M (t + 13) XOR schedule M (t + 8) XOR schedule M (t + 2) XOR schedule M t)"
    by (subst schedule.simps) (simp add: numeral_eq_Suc)
  then have new: "uint (schedule M (t + 16))
      = rol 1 (uint (schedule M (t + 13)) XOR uint (schedule M (t + 8)) XOR uint (schedule M (t + 2)) XOR uint (schedule M t))"
    by (simp add: uint_rotl unsigned_xor_eq)
  show ?thesis
  proof (rule nth_equalityI)
    fix i
    assume "i < length (slide (window (schedule M) t))"
    then consider "i < 15" | "i = 15" by (simp add: slide_def window_def) linarith
    then show "slide (window (schedule M) t) ! i = window (schedule M) (Suc t) ! i"
      by cases (use new in \<open>simp_all add: slide_def window_def nth_append nth_tl add.commute [of 16]\<close>)
  qed (simp add: slide_def window_def)
qed

lemma hd_window: "hd (window W t) = uint (W t)"
  by (simp add: window_def upt_conv_Cons)

lemma eval_rounds_correct:
  "t \<le> 80 \<Longrightarrow> eval_rounds t (window (schedule M) t) (uregs (sha_vars (schedule M) r t))
     = uregs (sha_vars (schedule M) r 80)"
proof (induction "80 - t" arbitrary: t)
  case 0
  then show ?case by (simp add: eval_rounds.simps)
next
  case (Suc n)
  then have t: "t < 80" by simp
  have "eval_rounds (Suc t) (window (schedule M) (Suc t)) (uregs (sha_vars (schedule M) r (Suc t)))
      = uregs (sha_vars (schedule M) r 80)"
    by (rule Suc.hyps(1)) (use Suc.hyps(2) t in auto)
  with t show ?case
    by (subst eval_rounds.simps) (simp add: slide_window hd_window uint_step)
qed

fun uhash :: "u32 list \<Rightarrow> iregs" where
  "uhash hs = uregs (regs_of hs)"

lemma unat_of_nat_len: "n < 2 ^ 32 \<Longrightarrow> unat (word_of_nat n :: u32) = n"
  by (simp add: unat_of_nat take_bit_nat_eq_self_iff)

lemma int_words_window:
  "length blk = 64 \<Longrightarrow> int_words (map uint blk) = window (schedule (be_word blk)) 0"
proof -
  assume len: "length blk = 64"
  have w: "uint (be_word bs t) = uint (bs ! (4 * t)) * 2 ^ 24 + uint (bs ! (4 * t + 1)) * 2 ^ 16
      + uint (bs ! (4 * t + 2)) * 2 ^ 8 + uint (bs ! (4 * t + 3))" for bs :: "byte list" and t
  proof -
    have b: "unat (bs ! i) < 256" for i using unsigned_less [of "bs ! i"] by simp
    let ?v = "unat (bs ! (4 * t)) * 2 ^ 24 + unat (bs ! (4 * t + 1)) * 2 ^ 16
      + unat (bs ! (4 * t + 2)) * 2 ^ 8 + unat (bs ! (4 * t + 3))"
    have "?v < 2 ^ 32" using b [of "4 * t"] b [of "4 * t + 1"] b [of "4 * t + 2"] b [of "4 * t + 3"] by simp
    then have "unat (be_word bs t) = ?v"
      unfolding be_word_def by (simp only: unat_of_nat_len)
    then have "int (unat (be_word bs t)) = int ?v" by (rule arg_cong)
    then show ?thesis by (simp only: uint_nat of_nat_add of_nat_mult of_nat_power of_nat_numeral)
  qed
  have "int_words (map uint bs) = map (\<lambda>i. uint (be_word bs i)) [0..<n]" if "length bs = 4 * n" for bs n
    using that
  proof (induction n arbitrary: bs)
    case (Suc n)
    then have "length bs = Suc (Suc (Suc (Suc (4 * n))))" by simp
    then obtain b0 b1 b2 b3 cs where bs: "bs = b0 # b1 # b2 # b3 # cs" "length cs = 4 * n"
      by (auto simp: length_Suc_conv)
    have "bs ! (4 * Suc i) = cs ! (4 * i)" "bs ! (4 * Suc i + 1) = cs ! (4 * i + 1)"
      "bs ! (4 * Suc i + 2) = cs ! (4 * i + 2)" "bs ! (4 * Suc i + 3) = cs ! (4 * i + 3)" for i
      by (simp_all add: bs(1) add.commute [of 3])
    then have "be_word bs (Suc i) = be_word cs i" for i by (simp only: be_word_def)
    then show ?case
      using Suc.IH [OF bs(2)] by (simp add: bs(1) w upt_conv_Cons map_Suc_upt [symmetric] add.commute [of 3] del: upt_Suc)
  qed simp
  from this [of blk 16] show ?thesis using len by (simp add: window_def schedule_small)
qed

lemma eval_add_correct: "uhash (add_regs hs r) = eval_add (uhash hs) (uregs r)"
  by (cases r) (simp add: uint_word_ariths take_bit_eq_mod)

lemma eval_block_correct:
  assumes "length hs = 5" and "length blk = 64"
  shows "uhash (compress hs blk) = eval_block (uhash hs) (int_words (map uint blk))"
  using eval_rounds_correct [of 0 "be_word blk" "regs_of hs"] assms
  by (simp add: compress_def eval_block_def int_words_window eval_add_correct [unfolded uhash.simps]
      del: regs_of.simps)

lemma list_of_5: "length xs = 5 \<Longrightarrow> \<exists>a b c d e. xs = [a, b, c, d, e]"
  by (auto simp: length_Suc_conv numeral_eq_Suc)

text \<open>Whole messages.\<close>

function eval_hash :: "iregs \<Rightarrow> int list \<Rightarrow> iregs" where
  "eval_hash r bs =
     (if length bs < 64 then r else eval_hash (eval_block r (int_words (take 64 bs))) (drop 64 bs))"
  by pat_completeness auto
termination
  by (relation "measure (\<lambda>(r, bs). length bs)") auto

declare eval_hash.simps [simp del]

definition eval_pad :: "int list \<Rightarrow> int list" where
  "eval_pad m = m @ 0x80 # replicate ((119 - length m mod 64) mod 64) 0
     @ map (\<lambda>i. int (8 * length m) div 256 ^ (7 - i) mod 256) [0..<8]"

definition eval_SHA1 :: "int list \<Rightarrow> iregs" where
  "eval_SHA1 m = eval_hash (0x67452301, 0xEFCDAB89, 0x98BADCFE, 0x10325476, 0xC3D2E1F0) (eval_pad m)"

lemma eval_hash_correct: "length hs = 5 \<Longrightarrow> uhash (hash_blocks hs m) = eval_hash (uhash hs) (map uint m)"
proof (induction hs m rule: hash_blocks.induct)
  case (1 hs m)
  show ?case
  proof (cases "length m < 64")
    case True
    then show ?thesis by (simp add: eval_hash.simps)
  next
    case False
    then have "uhash (hash_blocks (compress hs (take 64 m)) (drop 64 m))
        = eval_hash (uhash (compress hs (take 64 m))) (map uint (drop 64 m))"
      using "1.IH" by simp
    moreover have "uhash (compress hs (take 64 m)) = eval_block (uhash hs) (int_words (map uint (take 64 m)))"
      by (rule eval_block_correct) (use False "1.prems" in simp_all)
    ultimately show ?thesis
      using False
      by (subst hash_blocks.simps, subst eval_hash.simps) (simp add: take_map drop_map del: uhash.simps)
  qed
qed

lemma eval_pad_correct: "map uint (sha1_pad m) = eval_pad (map uint m)"
proof -
  have "uint (word_of_nat n :: byte) = int n mod 256" for n
    by (simp add: unsigned_of_nat take_bit_eq_mod zmod_int)
  then show ?thesis
    by (simp add: sha1_pad_def eval_pad_def be64_def zdiv_int)
qed

lemma SHA1_eval: "SHA1_spec m = (case eval_SHA1 (map uint m) of (a, b, c, d, e) \<Rightarrow> map word_of_int [a, b, c, d, e])"
proof -
  have "eval_SHA1 (map uint m) = uhash (SHA1_spec m)"
    using eval_hash_correct [of sha1_IV "sha1_pad m"]
    by (simp add: SHA1_spec_def eval_SHA1_def eval_pad_correct sha1_IV_def)
  moreover have "length (SHA1_spec m) = 5" by (simp add: SHA1_spec_def sha1_IV_def)
  then obtain a b c d e where "SHA1_spec m = [a, b, c, d, e]" using list_of_5 by blast
  ultimately show ?thesis by simp
qed

section \<open>Known answers\<close>

lemma eval_step_simp: "eval_rounds t (w # win) (a, b, c, d, e) =
    (if 80 \<le> t then (a, b, c, d, e)
     else eval_rounds (t + 1) (slide (w # win))
       (take_bit 32 (rol 5 a + eval_ft t b c d + e + eval_Kt t + w), a, rol 30 b, c, d))"
  by (subst eval_rounds.simps) simp

lemmas eval_simps = eval_step_simp eval_hash.simps eval_SHA1_def eval_block_def slide_def
  rol_def eval_ft_def eval_Kt_def

lemma pad_abc: "eval_pad [97, 98, 99] = [97, 98, 99, 128, 0, 0, 0, 0, 0, 0, 0, 0, 0, 0, 0, 0,
    0, 0, 0, 0, 0, 0, 0, 0, 0, 0, 0, 0, 0, 0, 0, 0, 0, 0, 0, 0, 0, 0, 0, 0, 0, 0, 0, 0, 0, 0, 0, 0,
    0, 0, 0, 0, 0, 0, 0, 0, 0, 0, 0, 0, 0, 0, 0, 24]"
  by code_simp

lemma eval_abc: "eval_SHA1 [97, 98, 99] = (0xa9993e36, 0x4706816a, 0xba3e2571, 0x7850c26c, 0x9cd0d89d)"
  by (simp add: eval_simps pad_abc)

text \<open>``abc'', the first example of FIPS 180-1.\<close>

lemma SHA1_abc: "SHA1_spec (bytes_of ''abc'') = [0xa9993e36, 0x4706816a, 0xba3e2571, 0x7850c26c, 0x9cd0d89d]"
proof -
  have "map uint (bytes_of ''abc'') = [97, 98, 99]" by code_simp
  then show ?thesis by (simp add: SHA1_eval eval_abc)
qed

text \<open>The example key of RFC 6455 with the GUID: 60 octets, which make two blocks.\<close>

definition sample_challenge :: string where
  "sample_challenge = ''dGhlIHNhbXBsZSBub25jZQ==258EAFA5-E914-47DA-95CA-C5AB0DC85B11''"

definition sample_octets :: "int list" where
  "sample_octets = [
    100, 71, 104, 108, 73, 72, 78, 104, 98, 88, 66, 115, 90, 83, 66, 117, 98, 50, 53, 106, 90, 81,
    61, 61, 50, 53, 56, 69, 65, 70, 65, 53, 45, 69, 57, 49, 52, 45, 52, 55, 68, 65, 45, 57, 53, 67,
    65, 45, 67, 53, 65, 66, 48, 68, 67, 56, 53, 66, 49, 49]"

lemma sample_octets: "map uint (bytes_of sample_challenge) = sample_octets"
  unfolding sample_challenge_def sample_octets_def by code_simp

lemma sample_pad: "eval_pad sample_octets = [
    100, 71, 104, 108, 73, 72, 78, 104, 98, 88, 66, 115, 90, 83, 66, 117, 98, 50, 53, 106, 90, 81,
    61, 61, 50, 53, 56, 69, 65, 70, 65, 53, 45, 69, 57, 49, 52, 45, 52, 55, 68, 65, 45, 57, 53, 67,
    65, 45, 67, 53, 65, 66, 48, 68, 67, 56, 53, 66, 49, 49, 128, 0, 0, 0, 0, 0, 0, 0, 0, 0, 0, 0,
    0, 0, 0, 0, 0, 0, 0, 0, 0, 0, 0, 0, 0, 0, 0, 0, 0, 0, 0, 0, 0, 0, 0, 0, 0, 0, 0, 0, 0, 0, 0, 0,
    0, 0, 0, 0, 0, 0, 0, 0, 0, 0, 0, 0, 0, 0, 0, 0, 0, 0, 0, 0, 0, 0, 1, 224]"
  unfolding sample_octets_def by code_simp

lemma eval_sample: "eval_SHA1 sample_octets = (0xb37a4f2c, 0xc0624f16, 0x90f64606, 0xcf385945, 0xb2bec4ea)"
  by (simp add: eval_simps sample_pad)

lemma SHA1_sample:
  "SHA1_spec (bytes_of sample_challenge) = [0xb37a4f2c, 0xc0624f16, 0x90f64606, 0xcf385945, 0xb2bec4ea]"
  by (simp add: SHA1_eval sample_octets eval_sample)

end
