(* ===== verification/Hash_Interface.thy ===== *)
theory Hash_Interface
  imports Cpp_Base
begin

text \<open>
  The contract between an incremental hash object and its users: an object made by the constructor,
  fed with octets, yields the hash of all it was fed, whatever the cuts between the calls were, as
  long as the message stays under the length limit. The class \<open>SHA1\<close> provides it (\<open>Sha1_Refine\<close>);
  the WebSocket handshake uses it (\<open>Ws_Accept\<close>).
\<close>

locale stream_hash =
  fixes fresh :: "'mem \<Rightarrow> 's"
    and feed :: "byte list \<Rightarrow> 's \<Rightarrow> 's"
    and digest :: "'s \<Rightarrow> 'd option"
    and good_mem :: "'mem \<Rightarrow> bool"
    and rep :: "'s \<Rightarrow> byte list \<Rightarrow> bool"
    and hash :: "byte list \<Rightarrow> 'd"
    and limit :: nat
  assumes limit_pos: "0 < limit"
    and rep_fresh: "good_mem mem \<Longrightarrow> rep (fresh mem) []"
    and rep_feed: "rep s m \<Longrightarrow> length (m @ bs) < limit \<Longrightarrow> rep (feed bs s) (m @ bs)"
    and digest_rep: "rep s m \<Longrightarrow> digest s = Some (hash m)"
begin

lemma rep_feed_all:
  "rep s m \<Longrightarrow> length (m @ concat css) < limit \<Longrightarrow> rep (fold feed css s) (m @ concat css)"
proof (induction css arbitrary: s m)
  case (Cons bs css)
  have "rep (feed bs s) (m @ bs)" by (rule rep_feed) (use Cons.prems in auto)
  then have "rep (fold feed css (feed bs s)) ((m @ bs) @ concat css)"
    by (rule Cons.IH) (use Cons.prems in auto)
  then show ?case by simp
qed simp

lemma digest_chunks:
  assumes "good_mem mem" and "length (concat css) < limit"
  shows "digest (fold feed css (fresh mem)) = Some (hash (concat css))"
  using rep_feed_all [OF rep_fresh [OF assms(1)], of css] assms(2) by (simp add: digest_rep)

lemma digest_once:
  assumes "good_mem mem" and "length bs < limit"
  shows "digest (feed bs (fresh mem)) = Some (hash bs)"
  using digest_chunks [OF assms(1), of "[bs]"] assms(2) by simp

text \<open>Neither the cuts between the calls nor the memory the object was made in matter.\<close>

lemma digest_cuts:
  assumes "good_mem mem" and "good_mem mem'" and "concat css = concat css'" and "length (concat css) < limit"
  shows "digest (fold feed css (fresh mem)) = digest (fold feed css' (fresh mem'))"
  using digest_chunks [OF assms(1,4)] digest_chunks [OF assms(2), of css'] assms(3,4) by simp

end

end
