(* ===== verification/Sha1_Refine.thy ===== *)
theory Sha1_Refine
  imports Sha1_Eval Hash_Interface
begin

text \<open>
  The streaming class of \<open>Sha1\<close> computes the standard's digest of \<open>Sha1_Spec\<close>: first the
  compression function, then one octet of \<open>Input\<close>, then the padding.
\<close>

section \<open>The compression function\<close>

lemma octets_disjoint: "push_bit 24 (ucast a :: u32) OR push_bit 16 (ucast b) OR push_bit 8 (ucast c) OR ucast d
      = ucast a * 2 ^ 24 + ucast b * 2 ^ 16 + ucast c * 2 ^ 8 + ucast d" for a b c d :: byte
proof -
  have 1: "push_bit 24 (ucast a :: u32) AND push_bit 16 (ucast b) = 0" 
    by (rule bit_word_eqI) (auto simp: bit_simps dest: bit_imp_le_length)
  have 2: "(push_bit 24 (ucast a :: u32) OR push_bit 16 (ucast b)) AND push_bit 8 (ucast c) = 0" 
    by (rule bit_word_eqI) (auto simp: bit_simps dest: bit_imp_le_length)
  have 3: "(push_bit 24 (ucast a :: u32) OR push_bit 16 (ucast b) OR push_bit 8 (ucast c)) AND ucast d = 0" 
    by (rule bit_word_eqI) (auto simp: bit_simps dest: bit_imp_le_length)
  show ?thesis using disjunctive_add_eq_or [OF 1] disjunctive_add_eq_or [OF 2] disjunctive_add_eq_or [OF 3]
    by (simp add: push_bit_eq_mult or.assoc)
qed
lemma block_word_be: "block_word blk t = be_word blk t"
  unfolding block_word_def be_word_def octets_disjoint
  by (simp add: mult.commute[of _ 4] of_nat_add unsigned_ucast_eq)

text \<open>The array \<open>W\<close> is the message schedule.\<close>

lemma schedule_large: "16 \<le> t \<Longrightarrow> schedule M t =
    CircularShift 1 (schedule M (t - 3) XOR schedule M (t - 8) XOR schedule M (t - 14) XOR schedule M (t - 16))"
  by (subst schedule.simps) (simp add: CircularShift_rotl)

lemma schedule_array:
  assumes "16 \<le> n"
  shows "fold (\<lambda>t W. W @ [CircularShift 1 (W ! (t - 3) XOR W ! (t - 8) XOR W ! (t - 14) XOR W ! (t - 16))])
     [16..<n] (map (schedule M) [0..<16]) = map (schedule M) [0..<n]"
  using assms
proof (induction n rule: nat_induct_at_least)
  case (Suc n)
  then show ?case by (simp add: schedule_large)
qed simp

lemma extend_W_schedule: "extend_W (init_W blk) = map (schedule (be_word blk)) [0..<80]"
proof -
  have "init_W blk = map (schedule (be_word blk)) [0..<16]"
    unfolding init_W_def by (rule map_cong) (simp_all add: block_word_be schedule_small)
  then show ?thesis
    using schedule_array [of 80 "be_word blk"] by (simp only: extend_W_def)
qed

text \<open>Each of the four loops advances the working variables of the standard.\<close>

lemma round_body_step:
  assumes "t < 80" and "ft t = f" and "Kt t = k" and "W = map Ws [0..<80]"
  shows "round_body f k W t r = sha_step Ws t r"
  using assms by (cases r) (simp add: CircularShift_rotl Let_def add_ac)

lemma rounds_segment:
  assumes "a \<le> b" and "b \<le> 80" and "W = map Ws [0..<80]"
    and "\<And>t. a \<le> t \<Longrightarrow> t < b \<Longrightarrow> ft t = f \<and> Kt t = k"
  shows "fold (round_body f k W) [a..<b] (sha_vars Ws r a) = sha_vars Ws r b"
  using assms
proof (induction b)
  case (Suc b)
  show ?case
  proof (cases "a = Suc b")
    case False
    with Suc.prems have "a \<le> b" and "b < 80" by simp_all
    then have "fold (round_body f k W) [a..<b] (sha_vars Ws r a) = sha_vars Ws r b"
      using Suc by simp
    moreover have "round_body f k W b r' = sha_step Ws b r'" for r'
      by (rule round_body_step) (use Suc.prems \<open>a \<le> b\<close> in auto)
    ultimately show ?thesis using \<open>a \<le> b\<close> by simp
  qed simp
qed simp

lemma rounds_sha_vars: "W = map Ws [0..<80] \<Longrightarrow> rounds W r = sha_vars Ws r 80"
proof -
  assume W: "W = map Ws [0..<80]"
  note seg = rounds_segment [OF _ _ W, of _ _ _ _ r]
  have "fold (round_body (\<lambda>B C D. (B AND C) OR (NOT B AND D)) 0x5A827999 W) [0..<20] (sha_vars Ws r 0)
      = sha_vars Ws r 20"
    and "fold (round_body (\<lambda>B C D. B XOR C XOR D) 0x6ED9EBA1 W) [20..<40] (sha_vars Ws r 20)
      = sha_vars Ws r 40"
    and "fold (round_body (\<lambda>B C D. (B AND C) OR (B AND D) OR (C AND D)) 0x8F1BBCDC W) [40..<60]
          (sha_vars Ws r 40) = sha_vars Ws r 60"
    and "fold (round_body (\<lambda>B C D. B XOR C XOR D) 0xCA62C1D6 W) [60..<80] (sha_vars Ws r 60)
      = sha_vars Ws r 80"
    by (rule seg; simp add: ft_def Kt_def fun_eq_iff)+
  then show ?thesis by (simp add: rounds_def SHA1_K_def Let_def)
qed

theorem ProcessMessageBlock_compress:
  "ProcessMessageBlock s = s\<lparr>H := compress (H s) (Message_Block s), Message_Block_Index := 0\<rparr>"
proof -
  let ?W = "extend_W (init_W (Message_Block s))"
  have "rounds ?W (regs_of (H s)) = sha_vars (schedule (be_word (Message_Block s))) (regs_of (H s)) 80"
    by (rule rounds_sha_vars) (rule extend_W_schedule)
  then show ?thesis
    by (auto simp: ProcessMessageBlock_def compress_def Let_def split: prod.split)
qed

section \<open>One octet of input\<close>

definition sha1_inv :: "sha1_state \<Rightarrow> byte list \<Rightarrow> bool" where
  "sha1_inv s m \<longleftrightarrow>
     length (Message_Block s) = 64 \<and> Message_Block_Index s = length m mod 64 \<and>
     take (length m mod 64) (Message_Block s) = drop (64 * (length m div 64)) m \<and>
     H s = hash_blocks sha1_IV m \<and>
     unat (Length_High s) * 2 ^ 32 + unat (Length_Low s) = 8 * length m \<and>
     \<not> Computed s \<and> \<not> Corrupted s"

lemma sha1_inv_new: "length (Message_Block mem) = 64 \<Longrightarrow> sha1_inv (SHA1_new mem) []"
  by (simp add: sha1_inv_def SHA1_new_def Reset_def sha1_IV_def)

text \<open>The two 32-bit words count bits; the high word is advanced when the low word wraps.\<close>

lemma counter_step:
  fixes hi lo :: u32
  assumes "unat hi * 2 ^ 32 + unat lo = 8 * n" and "8 * Suc n < 2 ^ 64"
  shows "lo + 8 = 0 \<Longrightarrow> hi + 1 \<noteq> 0 \<and> unat (hi + 1) * 2 ^ 32 + unat (lo + 8) = 8 * Suc n"
    and "lo + 8 \<noteq> 0 \<Longrightarrow> unat hi * 2 ^ 32 + unat (lo + 8) = 8 * Suc n"
proof -
  have lo_bound: "unat lo < 2 ^ 32" using unsigned_less [of lo] by simp
  obtain q where q: "unat lo = 8 * q"
  proof
    show "unat lo = 8 * (n - unat hi * 2 ^ 29)" using assms(1) by simp
  qed
  have q_bound: "q < 2 ^ 29" using q lo_bound by simp
  have lo8: "unat (lo + 8) = (unat lo + 8) mod 2 ^ 32" by (simp add: unat_word_ariths)
  have hi1: "unat (hi + 1) = (unat hi + 1) mod 2 ^ 32" by (simp add: unat_word_ariths)
  show "lo + 8 = 0 \<Longrightarrow> hi + 1 \<noteq> 0 \<and> unat (hi + 1) * 2 ^ 32 + unat (lo + 8) = 8 * Suc n"
  proof -
    assume wrap: "lo + 8 = 0"
    then have "(unat lo + 8) mod 2 ^ 32 = 0" using lo8 by simp
    then have "\<not> q + 1 < 2 ^ 29" using q by (auto dest: dvd_imp_le)
    with q_bound have "q = 2 ^ 29 - 1" by simp
    with q have lo_max: "unat lo = 2 ^ 32 - 8" by simp
    with assms have "unat hi + 1 < 2 ^ 32" by simp
    then have "unat (hi + 1) = unat hi + 1" using hi1 by simp
    moreover from this have "hi + 1 \<noteq> 0" by (metis add_is_0 one_neq_zero unat_0)
    ultimately show ?thesis using wrap lo_max assms(1) by simp
  qed
  show "lo + 8 \<noteq> 0 \<Longrightarrow> unat hi * 2 ^ 32 + unat (lo + 8) = 8 * Suc n"
  proof -
    assume "lo + 8 \<noteq> 0"
    then have "(unat lo + 8) mod 2 ^ 32 \<noteq> 0" using lo8 by (metis unat_eq_zero)
    then have "q + 1 \<noteq> 2 ^ 29" using q by auto
    with q_bound q have "unat lo + 8 < 2 ^ 32" by simp
    then show ?thesis using lo8 assms(1) by simp
  qed
qed

text \<open>Storing an octet at the index, and the chaining value when it completes a block.\<close>

lemma block_store:
  "i < length blk \<Longrightarrow> take (Suc i) (blk[i := b]) = take i blk @ [b]"
  by (simp add: take_Suc_conv_app_nth)

lemma hash_blocks_snoc:
  assumes "length blk = 64" and "take (length m mod 64) blk = drop (64 * (length m div 64)) m"
  shows "length m mod 64 = 63 \<Longrightarrow>
           hash_blocks hs (m @ [b]) = compress (hash_blocks hs m) (blk[length m mod 64 := b])"
    and "length m mod 64 \<noteq> 63 \<Longrightarrow> hash_blocks hs (m @ [b]) = hash_blocks hs m"
proof -
  let ?rest = "drop (64 * (length m div 64)) m"
  have len: "length ?rest = length m mod 64" by (simp flip: minus_mult_div_eq_mod)
  have eq: "hash_blocks hs (m @ [b]) = hash_blocks (hash_blocks hs m) (?rest @ [b])"
    by (rule hash_blocks_rest)
  show "hash_blocks hs (m @ [b]) = compress (hash_blocks hs m) (blk[length m mod 64 := b])"
    if full: "length m mod 64 = 63"
  proof -
    have "?rest @ [b] = take 64 (blk[63 := b])"
      using assms full block_store [of 63 blk b] by simp
    also have "\<dots> = blk[63 := b]" using assms(1) by simp
    finally show ?thesis
      using eq hash_blocks_block [of "blk[63 := b]" "hash_blocks hs m" "[]"] assms(1) full by simp
  qed
  show "hash_blocks hs (m @ [b]) = hash_blocks hs m" if "length m mod 64 \<noteq> 63"
  proof -
    have "length (?rest @ [b]) < 64" using len that mod_less_divisor [of 64 "length m"] by simp
    with eq show ?thesis by simp
  qed
qed

lemma Suc_div_mod_64:
  "n mod 64 = 63 \<Longrightarrow> Suc n mod 64 = 0 \<and> Suc n div 64 = Suc (n div 64)"
  "n mod 64 \<noteq> 63 \<Longrightarrow> Suc n mod 64 = Suc (n mod 64) \<and> Suc n div 64 = n div 64"
  by (simp_all add: mod_Suc div_Suc)

lemma ff8 [simp]: "w AND 255 = (w :: byte)"
proof -
  have "(255 :: byte) = mask 8" by (simp add: mask_eq_exp_minus_1)
  then have "w AND 255 = take_bit 8 w" by (simp add: take_bit_eq_mask)
  also have "\<dots> = w" by (simp add: take_bit_word_eq_self)
  finally show ?thesis .
qed

text \<open>\<open>Input_step\<close> as one update: the counters, the block and, when it is full, the chaining value.\<close>

lemma Input_step_eq:
  "Input_step b s =
     (let wrap = Length_Low s + 8 = 0;
          hi = (if wrap then Length_High s + 1 else Length_High s);
          blk = (Message_Block s)[Message_Block_Index s := b];
          full = (Message_Block_Index s = 63)
      in s\<lparr>H := (if full then compress (H s) blk else H s),
           Length_Low := Length_Low s + 8, Length_High := hi, Message_Block := blk,
           Message_Block_Index := (if full then 0 else Suc (Message_Block_Index s)),
           Corrupted := (wrap \<and> hi = 0) \<or> Corrupted s\<rparr>)"
  by (simp add: Input_step_def put_byte_def ProcessMessageBlock_compress Let_def)

lemma sha1_inv_Input_step:
  assumes inv: "sha1_inv s m" and fits: "8 * Suc (length m) < 2 ^ 64"
  shows "sha1_inv (Input_step b s) (m @ [b])"
proof -
  let ?hi = "if Length_Low s + 8 = 0 then Length_High s + 1 else Length_High s"
  from inv have blk: "length (Message_Block s) = 64" "Message_Block_Index s = length m mod 64"
    "take (length m mod 64) (Message_Block s) = drop (64 * (length m div 64)) m"
    and Hs: "H s = hash_blocks sha1_IV m" and flags: "\<not> Computed s" "\<not> Corrupted s"
    and cnt: "unat (Length_High s) * 2 ^ 32 + unat (Length_Low s) = 8 * length m"
    by (auto simp: sha1_inv_def)
  have cnt': "unat ?hi * 2 ^ 32 + unat (Length_Low s + 8) = 8 * length (m @ [b])"
    "\<not> (Length_Low s + 8 = 0 \<and> ?hi = 0)"
    using counter_step [OF cnt fits] by auto
  note snoc = hash_blocks_snoc [OF blk(1,3), of sha1_IV b]
  show ?thesis
  proof (cases "length m mod 64 = 63")
    case True
    then show ?thesis
      using cnt' flags blk Hs snoc(1) Suc_div_mod_64(1) [of "length m"]
      by (simp add: Input_step_eq sha1_inv_def Let_def)
  next
    case False
    have "take (Suc (length m mod 64)) ((Message_Block s)[length m mod 64 := b])
        = drop (64 * (length m div 64)) m @ [b]"
      using block_store [of "length m mod 64" "Message_Block s" b] blk by simp
    moreover have "64 * (length m div 64) \<le> length m" by simp
    ultimately show ?thesis
      using False cnt' flags blk Hs snoc(2) Suc_div_mod_64(2) [of "length m"]
      by (simp add: Input_step_eq sha1_inv_def Let_def)
  qed
qed

lemma sha1_inv_Input_loop:
  "sha1_inv s m \<Longrightarrow> 8 * (length m + length bs) < 2 ^ 64 \<Longrightarrow> sha1_inv (Input_loop bs s) (m @ bs)"
proof (induction bs arbitrary: s m)
  case (Cons b bs)
  have "sha1_inv (Input_step b s) (m @ [b])"
    by (rule sha1_inv_Input_step) (use Cons.prems in auto)
  then have "sha1_inv (Input_loop bs (Input_step b s)) ((m @ [b]) @ bs)"
    by (rule Cons.IH) (use Cons.prems in auto)
  moreover have "\<not> Corrupted s" using Cons.prems by (simp add: sha1_inv_def)
  ultimately show ?case by simp
qed simp

text \<open>\<open>Input\<close> keeps the invariant as long as the message stays below \<open>2 ^ 64\<close> bits.\<close>

lemma sha1_inv_Input:
  "sha1_inv s m \<Longrightarrow> 8 * (length m + length bs) < 2 ^ 64 \<Longrightarrow> sha1_inv (Input bs s) (m @ bs)"
  using sha1_inv_Input_loop [of s m bs] by (auto simp: Input_def sha1_inv_def)

section \<open>Padding and the digest\<close>

lemma zero_fill_eq:
  "Message_Block_Index s \<le> lim \<Longrightarrow> lim \<le> length (Message_Block s) \<Longrightarrow>
     zero_fill lim s = s\<lparr>Message_Block := take (Message_Block_Index s) (Message_Block s)
         @ replicate (lim - Message_Block_Index s) 0 @ drop lim (Message_Block s),
       Message_Block_Index := lim\<rparr>"
proof (induction lim s rule: zero_fill.induct)
  case (1 lim s)
  show ?case
  proof (cases "Message_Block_Index s < lim")
    case True
    let ?i = "Message_Block_Index s" and ?b = "Message_Block s"
    have "take (Suc ?i) (?b[?i := 0]) = take ?i ?b @ [0]"
      by (rule block_store) (use True 1 in simp)
    moreover have "drop lim (?b[?i := 0]) = drop lim ?b" using True by simp
    moreover have "replicate (lim - ?i) (0 :: byte) = 0 # replicate (lim - Suc ?i) 0"
      using True by (simp add: Suc_diff_Suc flip: replicate_Suc)
    ultimately show ?thesis
      using 1 True by (subst zero_fill.simps) (simp add: put_byte_def)
  next
    case False
    with "1.prems" show ?thesis by (subst zero_fill.simps) simp
  qed
qed

text \<open>The last eight octets are the bit count in big-endian order.\<close>

lemma octet_mask: "(ucast (w AND 255) :: byte) = ucast w" for w :: u32
proof -
  have "(255 :: u32) = mask 8" by (simp add: mask_eq_exp_minus_1)
  then have "w AND 255 = take_bit 8 w" by (simp only: take_bit_eq_mask)
  then show ?thesis by (intro bit_word_eqI) (auto simp: bit_simps)
qed

lemma octet_of_u32: "(ucast (drop_bit k w AND 255) :: byte) = word_of_nat (unat w div 2 ^ k)" for w :: u32
proof -
  have "(ucast (drop_bit k w AND 255) :: byte) = word_of_nat (unat (drop_bit k w))"
    unfolding octet_mask by (rule bit_word_eqI) (simp add: bit_simps)
  also have "unat (drop_bit k w) = unat w div 2 ^ k"
    by (simp only: unat_drop_bit_eq) (simp only: drop_bit_eq_div)
  finally show ?thesis .
qed

lemma byte_mod_256: "(word_of_nat (256 * a + b) :: byte) = word_of_nat b"
  by (simp only: word_of_nat_eq_iff) (simp add: take_bit_eq_mod)

lemma length_octets_be64:
  fixes hi lo :: u32
  assumes n: "unat hi * 2 ^ 32 + unat lo = n"
  shows "length_octets hi lo = be64 n"
proof -
  have lo: "unat lo < 2 ^ 32" using unsigned_less [of lo] by simp
  have high: "n div 256 ^ (4 + k) = unat hi div 256 ^ k" for k
  proof -
    have "n div 2 ^ 32 = unat hi" using n lo by simp
    then show ?thesis by (simp add: power_add div_mult2_eq)
  qed
  have low: "(word_of_nat (n div 256 ^ k) :: byte) = word_of_nat (unat lo div 256 ^ k)" if "k < 4" for k
  proof -
    have "256 * 256 ^ (3 - k) * 256 ^ k = (2 :: nat) ^ 32"
    proof -
      have "256 * 256 ^ (3 - k) * 256 ^ k = (256 :: nat) ^ (Suc (3 - k) + k)"
        by (simp only: power_add power_Suc)
      also have "Suc (3 - k) + k = 4" using that by simp
      finally show ?thesis by simp
    qed
    then have "n = (256 * (unat hi * 256 ^ (3 - k))) * 256 ^ k + unat lo"
      using n by (metis mult.assoc mult.commute)
    then have "n div 256 ^ k = 256 * (unat hi * 256 ^ (3 - k)) + unat lo div 256 ^ k" by simp
    then show ?thesis using byte_mod_256 by metis
  qed
  have "be64 n = [word_of_nat (n div 256 ^ (4 + 3)), word_of_nat (n div 256 ^ (4 + 2)),
      word_of_nat (n div 256 ^ (4 + 1)), word_of_nat (n div 256 ^ (4 + 0)),
      word_of_nat (n div 256 ^ 3), word_of_nat (n div 256 ^ 2),
      word_of_nat (n div 256 ^ 1), word_of_nat (n div 256 ^ 0)]"
    by (simp add: be64_def upt_rec)
  also have "\<dots> = [word_of_nat (unat hi div 2 ^ 24), word_of_nat (unat hi div 2 ^ 16),
      word_of_nat (unat hi div 2 ^ 8), word_of_nat (unat hi div 2 ^ 0),
      word_of_nat (unat lo div 2 ^ 24), word_of_nat (unat lo div 2 ^ 16),
      word_of_nat (unat lo div 2 ^ 8), word_of_nat (unat lo div 2 ^ 0)]"
    unfolding high using low [of 3] low [of 2] low [of 1] low [of 0] by simp
  also have "\<dots> = length_octets hi lo"
    by (simp only: length_octets_def octet_of_u32) (simp add: octet_mask)
  finally show ?thesis by simp
qed

text \<open>\<open>PadMessage\<close> in closed form: the block that ends the message, after an extra one when needed.\<close>

lemma PadMessage_H:
  assumes blk: "length (Message_Block s) = 64" and idx: "Message_Block_Index s < 64"
  shows "H (PadMessage s) =
     (let i = Message_Block_Index s; tail = length_octets (Length_High s) (Length_Low s);
          start = take i (Message_Block s) @ [0x80]
      in if i > 55 then compress (compress (H s) (start @ replicate (63 - i) 0)) (replicate 56 0 @ tail)
         else compress (H s) (start @ replicate (55 - i) 0 @ tail))"
proof -
  let ?i = "Message_Block_Index s"
  have tk: "take (Suc ?i) ((Message_Block s)[?i := 0x80]) = take ?i (Message_Block s) @ [0x80]"
    by (rule block_store) (use blk idx in simp)
  have "\<not> 55 < ?i \<Longrightarrow> 56 - ?i = Suc (55 - ?i)" by simp
  then show ?thesis
    using blk idx tk
    by (simp add: PadMessage_def put_byte_def zero_fill_eq ProcessMessageBlock_compress Let_def)
qed

lemma length_length_octets [simp]: "length (length_octets hi lo) = 8"
  by (simp add: length_octets_def)

lemma PadMessage_digest:
  assumes inv: "sha1_inv s m"
  shows "H (PadMessage s) = SHA1_spec m"
proof -
  let ?i = "length m mod 64" and ?rest = "drop (64 * (length m div 64)) m"
  from inv have blk: "length (Message_Block s) = 64" and idx: "Message_Block_Index s = ?i"
    and rest: "take ?i (Message_Block s) = ?rest" and Hs: "H s = hash_blocks sha1_IV m"
    and octs: "length_octets (Length_High s) (Length_Low s) = be64 (8 * length m)"
    by (auto simp: sha1_inv_def intro!: length_octets_be64)
  have i: "?i < 64" by simp
  have len: "length ?rest = ?i" by (simp flip: minus_mult_div_eq_mod)
  let ?z = "(119 - ?i) mod 64"
  have spec: "SHA1_spec m = hash_blocks (H s) (?rest @ 0x80 # replicate ?z 0 @ be64 (8 * length m))"
    unfolding SHA1_spec_def sha1_pad_def Hs by (rule hash_blocks_rest)
  show ?thesis
  proof (cases "?i > 55")
    case True
    let ?b1 = "?rest @ 0x80 # replicate (63 - ?i) 0" and ?b2 = "replicate 56 0 @ be64 (8 * length m)"
    have "replicate ?z (0 :: byte) = replicate (63 - ?i) 0 @ replicate 56 0"
      using True i by (simp add: pad_zeros flip: replicate_add)
    then have "SHA1_spec m = hash_blocks (H s) (?b1 @ ?b2 @ [])" using spec by simp
    also have "\<dots> = compress (compress (H s) ?b1) ?b2"
      using True i len by (subst hash_blocks_block, simp, subst hash_blocks_block) simp_all
    finally show ?thesis
      using True PadMessage_H [of s] blk idx rest octs by (simp add: Let_def)
  next
    case False
    let ?b1 = "?rest @ 0x80 # replicate (55 - ?i) 0 @ be64 (8 * length m)"
    have "SHA1_spec m = hash_blocks (H s) (?b1 @ [])" using spec False by (simp add: pad_zeros)
    also have "\<dots> = compress (H s) ?b1"
      using False len by (subst hash_blocks_block) simp_all
    finally show ?thesis
      using False PadMessage_H [of s] blk idx rest octs by (simp add: Let_def)
  qed
qed

lemma map_nth_5: "length hs = 5 \<Longrightarrow> map (\<lambda>i. hs ! i) [0..<5] = hs"
  by (metis map_nth)

lemma length_SHA1_spec [simp]: "length (SHA1_spec m) = 5"
  by (simp add: SHA1_spec_def sha1_IV_def)

text \<open>\<open>Result\<close> on an object that has taken in \<open>m\<close>, and a second call.\<close>

lemma Result_digest:
  assumes "sha1_inv s m"
  shows "fst (Result s) = Some (SHA1_spec m)"
    and "fst (Result (snd (Result s))) = Some (SHA1_spec m)"
proof -
  have pad: "H (PadMessage s) = SHA1_spec m" by (rule PadMessage_digest [OF assms])
  have flags: "\<not> Computed s" "\<not> Corrupted s" using assms by (simp_all add: sha1_inv_def)
  have "Corrupted (PadMessage s) = Corrupted s"
    using assms by (auto simp: PadMessage_def put_byte_def zero_fill_eq ProcessMessageBlock_compress
        sha1_inv_def Let_def)
  with flags pad show "fst (Result s) = Some (SHA1_spec m)"
    and "fst (Result (snd (Result s))) = Some (SHA1_spec m)"
    by (simp_all add: Result_def Let_def map_nth_5)
qed

section \<open>The class as an incremental hash\<close>

interpretation sha1: stream_hash SHA1_new Input "\<lambda>s. fst (Result s)"
    "\<lambda>mem. length (Message_Block mem) = 64" sha1_inv SHA1_spec "2 ^ 61"
  by unfold_locales (auto intro: sha1_inv_new sha1_inv_Input Result_digest(1))

text \<open>
  C5: for octets that arrive in any number of \<open>Input\<close> calls on a new object, \<open>Result\<close> returns the
  SHA-1 digest of FIPS 180-1 of their concatenation, up to the standard's limit of \<open>2 ^ 64 - 1\<close>
  bits, whatever the object's memory held before.
\<close>

theorem sha1_digest_correct:
  assumes "length (Message_Block mem) = 64" and "length (concat css) < 2 ^ 61"
  shows "fst (Result (fold Input css (SHA1_new mem))) = Some (SHA1_spec (concat css))"
  using assms by (rule sha1.digest_chunks)

definition zero_mem :: sha1_state where
  "zero_mem = \<lparr>H = [], Length_Low = 0, Length_High = 0, Message_Block = replicate 64 0,
     Message_Block_Index = 0, Computed = False, Corrupted = False\<rparr>"

lemma length_zero_mem [simp]: "length (Message_Block zero_mem) = 64"
  by (simp add: zero_mem_def)

theorem sha1_digest_correct_witness:
  "fst (Result (fold Input [bytes_of ''ab'', bytes_of ''c''] (SHA1_new zero_mem)))
     = Some [0xa9993e36, 0x4706816a, 0xba3e2571, 0x7850c26c, 0x9cd0d89d]"
  using sha1_digest_correct [of zero_mem "[bytes_of ''ab'', bytes_of ''c'']"] SHA1_abc
  by (simp add: bytes_of_def)

text \<open>
  \<open>ProcessMessageBlock\<close>, with its array of 80 words and its four loops, is the compression
  function of the standard, and it empties the block.
\<close>

theorem process_block_is_compress:
  "ProcessMessageBlock s = s\<lparr>H := compress (H s) (Message_Block s), Message_Block_Index := 0\<rparr>"
  by (rule ProcessMessageBlock_compress)

section \<open>Misuse and overflow\<close>

lemma Input_step_overflow:
  assumes inv: "sha1_inv s m" and len: "8 * Suc (length m) = 2 ^ 64"
  shows "Corrupted (Input_step b s)"
proof -
  from inv have cnt: "unat (Length_High s) * 2 ^ 32 + unat (Length_Low s) = 8 * length m"
    by (simp add: sha1_inv_def)
  have lo: "unat (Length_Low s) < 2 ^ 32" and hi: "unat (Length_High s) < 2 ^ 32"
    using unsigned_less [of "Length_Low s"] unsigned_less [of "Length_High s"] by simp_all
  have hv: "unat (Length_High s) = 2 ^ 32 - 1" using cnt len lo hi by simp
  then have lv: "unat (Length_Low s) = 2 ^ 32 - 8" using cnt len by simp
  have "unat (Length_Low s + 8) = 0" by (simp only: unat_word_ariths lv) simp
  moreover have "unat (Length_High s + 1) = 0" by (simp only: unat_word_ariths hv) simp
  ultimately have "Length_Low s + 8 = 0" and "Length_High s + 1 = 0" by (metis unat_eq_zero)+
  then show ?thesis by (simp add: Input_step_eq Let_def)
qed

lemma Input_loop_corrupted: "Corrupted s \<Longrightarrow> Input_loop bs s = s"
  by (cases bs) simp_all

lemma Input_loop_append:
  "Input_loop (as @ bs) s = Input_loop bs (Input_loop as s)"
  by (induction as arbitrary: s) (auto simp: Input_loop_corrupted)

text \<open>
  a message of \<open>2 ^ 64\<close> bits or more is refused: the 64-bit count wraps, the object is marked
  corrupted and \<open>Result\<close> fails.
\<close>

theorem sha1_too_long_refused:
  assumes "length (Message_Block mem) = 64" and "2 ^ 61 \<le> length bs"
  shows "fst (Result (Input bs (SHA1_new mem))) = None"
proof -
  let ?n = "2 ^ 61 - 1 :: nat"
  have n: "?n < length bs" using assms(2) by simp
  then have bs: "bs = take ?n bs @ bs ! ?n # drop (Suc ?n) bs" by (rule id_take_nth_drop)
  let ?s = "Input_loop (take ?n bs) (SHA1_new mem)"
  have inv: "sha1_inv ?s (take ?n bs)"
    using sha1_inv_Input_loop [OF sha1_inv_new [OF assms(1)], of "take ?n bs"] n by simp
  have "Corrupted (Input_step (bs ! ?n) ?s)"
    by (rule Input_step_overflow [OF inv]) (use n in simp)
  moreover have "\<not> Corrupted ?s" using inv by (simp add: sha1_inv_def)
  moreover have "Input bs (SHA1_new mem) = Input_loop bs (SHA1_new mem)"
    using n by (auto simp: Input_def SHA1_new_def Reset_def)
  moreover have "Input_loop bs (SHA1_new mem) = Input_loop (bs ! ?n # drop (Suc ?n) bs) ?s"
    by (subst bs) (rule Input_loop_append)
  ultimately have "Corrupted (Input bs (SHA1_new mem))" by (simp add: Input_loop_corrupted)
  then show ?thesis by (simp add: Result_def)
qed

theorem sha1_too_long_refused_witness:
  "fst (Result (Input (replicate (2 ^ 61) 0) (SHA1_new zero_mem))) = None"
  by (rule sha1_too_long_refused) simp_all

text \<open>
  once \<open>Result\<close> has succeeded the object takes no more input: a further non-empty \<open>Input\<close> makes
  every later \<open>Result\<close> fail, and only \<open>Reset\<close> makes the object usable again.
\<close>

theorem sha1_input_after_result:
  assumes "fst (Result s) = Some d" and "bs \<noteq> []"
  shows "fst (Result (Input bs (snd (Result s)))) = None
    \<and> \<not> Corrupted (Reset (Input bs (snd (Result s))))"
  using assms by (auto simp: Result_def Input_def Reset_def Let_def split: if_splits)

theorem sha1_input_after_result_witness:
  "fst (Result (Input [1] (snd (Result (SHA1_new zero_mem))))) = None"
proof -
  have "fst (Result (SHA1_new zero_mem)) = Some (SHA1_spec [])"
    by (rule Result_digest(1)) (rule sha1_inv_new, simp)
  then show ?thesis using sha1_input_after_result by blast
qed

text \<open>\<open>operator<<\<close> feeds the characters up to the terminating zero.\<close>

lemma stream_in_inv:
  "sha1_inv s m \<Longrightarrow> 8 * (length m + length bs) < 2 ^ 64 \<Longrightarrow>
     sha1_inv (stream_in bs s) (m @ takeWhile (\<lambda>b. b \<noteq> 0) bs)"
proof (induction bs arbitrary: s m)
  case (Cons b bs)
  show ?case
  proof (cases "b = 0")
    case False
    have "sha1_inv (Input_char b s) (m @ [b])"
      unfolding Input_char_def by (rule sha1_inv_Input) (use Cons.prems in auto)
    then have "sha1_inv (stream_in bs (Input_char b s)) ((m @ [b]) @ takeWhile (\<lambda>b. b \<noteq> 0) bs)"
      by (rule Cons.IH) (use Cons.prems in auto)
    with False show ?thesis by simp
  qed (use Cons.prems in simp)
qed simp

end
