(* ===== verification/Base64.thy ===== *)
theory Base64
  imports Codec
begin

text \<open>
  The text encodings of src/websocket_handler.cpp: \<open>base64_encode\<close> (used for the handshake), \<open>b64\<close>
  (the same encoding with a three-byte buffer) and \<open>hex_2_bytes\<close>. A decoder for Base64 as RFC 4648
  defines it serves as specification: every output of \<open>base64_encode\<close> decodes to the input, and
  \<open>b64\<close> is the same function.
\<close>

section \<open>The alphabet\<close>

definition base64_chars :: string where
  "base64_chars = ''ABCDEFGHIJKLMNOPQRSTUVWXYZabcdefghijklmnopqrstuvwxyz0123456789+/''"

definition b64_char :: "byte \<Rightarrow> char" where
  "b64_char b = base64_chars ! unat b"

section \<open>base64_encode\<close>

text \<open>
  One iteration of \<open>for (i = 0u; i < length; i += 3)\<close> on the bytes from \<open>i\<close> on. The counter is a
  32-bit unsigned: the model is for lengths below \<open>2 ^ 32 - 3\<close>, where it does not wrap (the code
  encodes 20 bytes).
\<close>

fun base64_encode :: "byte list \<Rightarrow> string" where
  "base64_encode [] = []"
| "base64_encode (b0 # bs) =
     (let bytesLeft = length (b0 # bs);
          b1 = (if bytesLeft > 1 then bs ! 0 else 0);
          b2 = (if bytesLeft > 2 then bs ! 1 else 0)
      in [b64_char (drop_bit 2 b0),
          b64_char (push_bit 4 (b0 AND 0x03) OR drop_bit 4 (b1 AND 0xF0)),
          (if bytesLeft > 1 then b64_char (push_bit 2 (b1 AND 0x0F) OR drop_bit 6 (b2 AND 0xC0))
           else CHR ''=''),
          (if bytesLeft > 2 then b64_char (b2 AND 0x3F) else CHR ''='')]
         @ base64_encode (drop 2 bs))"

section \<open>b64\<close>

text \<open>The four sextets of \<open>byte_array_3\<close>, and the loop over the data that fills and flushes it.\<close>

definition b64_quad :: "byte \<Rightarrow> byte \<Rightarrow> byte \<Rightarrow> byte list" where
  "b64_quad a0 a1 a2 =
     [drop_bit 2 (a0 AND 0xFC),
      push_bit 4 (a0 AND 0x03) + drop_bit 4 (a1 AND 0xF0),
      push_bit 2 (a1 AND 0x0F) + drop_bit 6 (a2 AND 0xC0),
      a2 AND 0x3F]"

fun b64_loop :: "byte list \<Rightarrow> byte list \<Rightarrow> string \<Rightarrow> byte list \<times> string" where
  "b64_loop [] arr3 res = (arr3, res)"
| "b64_loop (d # ds) arr3 res =
     (let arr3 = arr3 @ [d] in
      if length arr3 = 3
      then b64_loop ds [] (res @ map b64_char (b64_quad (arr3 ! 0) (arr3 ! 1) (arr3 ! 2)))
      else b64_loop ds arr3 res)"

text \<open>\<open>while (result.size() % 4) result += '=';\<close>\<close>

function pad_quad :: "string \<Rightarrow> string" where
  "pad_quad res = (if length res mod 4 = 0 then res else pad_quad (res @ ''=''))"
  by pat_completeness auto
termination
  by (relation "measure (\<lambda>res. (4 - length res mod 4) mod 4)") (auto simp: mod_Suc)

declare pad_quad.simps [simp del]

definition b64 :: "byte list \<Rightarrow> string" where
  "b64 data =
     (case b64_loop data [] [] of (arr3, res) \<Rightarrow>
        let i = length arr3 in
        if i = 0 then res
        else (let arr3 = arr3 @ replicate (3 - i) 0
              in pad_quad (res @ map b64_char (take (i + 1) (b64_quad (arr3 ! 0) (arr3 ! 1) (arr3 ! 2))))))"

section \<open>hex_2_bytes\<close>

definition is_space :: "char \<Rightarrow> bool" where
  "is_space c \<longleftrightarrow> c = SP \<or> c = TAB \<or> c = LF \<or> c = CR \<or> c = CHR 0x0B \<or> c = CHR 0x0C"

definition hex_val :: "char \<Rightarrow> nat option" where
  "hex_val c =
     (let n = (of_char c :: nat) in
      if 48 \<le> n \<and> n \<le> 57 then Some (n - 48)
      else if 65 \<le> n \<and> n \<le> 70 then Some (n - 55)
      else if 97 \<le> n \<and> n \<le> 102 then Some (n - 87) else None)"

fun hex_digits :: "int \<Rightarrow> string \<Rightarrow> int" where
  "hex_digits acc [] = acc"
| "hex_digits acc (c # cs) =
     (case hex_val c of None \<Rightarrow> acc | Some d \<Rightarrow> hex_digits (16 * acc + int d) cs)"

text \<open>
  \<open>strtol(s, nullptr, 16)\<close> on short strings, where no overflow can occur: leading space, a sign, an
  optional \<open>0x\<close> that is followed by a hexadecimal digit, then the digits; 0 when there are none.
\<close>

definition strip_0x :: "string \<Rightarrow> string" where
  "strip_0x s = (case s of
       a # x # h # r \<Rightarrow> if a = CHR ''0'' \<and> (x = CHR ''x'' \<or> x = CHR ''X'') \<and> hex_val h \<noteq> None
                        then h # r else s
     | _ \<Rightarrow> s)"

definition strtol16 :: "string \<Rightarrow> int" where
  "strtol16 str =
     (let s = dropWhile is_space (c_str str) in
      case s of
        [] \<Rightarrow> 0
      | c # cs \<Rightarrow> if c = CHR ''-'' then - hex_digits 0 (strip_0x cs)
                  else if c = CHR ''+'' then hex_digits 0 (strip_0x cs)
                  else hex_digits 0 (strip_0x s))"

text \<open>The substrings are \<open>hex.substr(i, 2)\<close> for \<open>i = 0, 2, 4, \<dots>\<close>; an odd length leaves one character.\<close>

function hex_2_bytes :: "string \<Rightarrow> byte list" where
  "hex_2_bytes hex =
     (if hex = [] then [] else word_of_int (strtol16 (take 2 hex)) # hex_2_bytes (drop 2 hex))"
  by pat_completeness auto
termination
  by (relation "measure length") auto

declare hex_2_bytes.simps [simp del]

lemma hex_2_bytes_simps [simp]:
  "hex_2_bytes [] = []"
  "hex_2_bytes (c # d # cs) = word_of_int (strtol16 [c, d]) # hex_2_bytes cs"
  by (subst hex_2_bytes.simps, simp)+

section \<open>The decoder of RFC 4648\<close>

definition b64_val :: "char \<Rightarrow> byte option" where
  "b64_val c = map_option word_of_nat (find_first (\<lambda>x. x = c) base64_chars)"

fun b64_decode :: "string \<Rightarrow> byte list option" where
  "b64_decode [] = Some []"
| "b64_decode (c0 # c1 # c2 # c3 # cs) =
     (case (b64_val c0, b64_val c1) of
        (Some v0, Some v1) \<Rightarrow>
          (let o0 = push_bit 2 v0 OR drop_bit 4 v1 in
           if c2 = CHR ''='' then (if c3 = CHR ''='' \<and> cs = [] then Some [o0] else None)
           else (case b64_val c2 of
                   None \<Rightarrow> None
                 | Some v2 \<Rightarrow>
                     (let o1 = push_bit 4 v1 OR drop_bit 2 v2 in
                      if c3 = CHR ''='' then (if cs = [] then Some [o0, o1] else None)
                      else (case b64_val c3 of
                              None \<Rightarrow> None
                            | Some v3 \<Rightarrow> map_option (\<lambda>bs. o0 # o1 # (push_bit 6 v2 OR v3) # bs)
                                          (b64_decode cs)))))
      | _ \<Rightarrow> None)"
| "b64_decode _ = None"

lemma length_base64_chars [simp]: "length base64_chars = 64"
  by (simp add: base64_chars_def)

lemma distinct_base64_chars: "distinct base64_chars"
  by (simp add: base64_chars_def)

lemma pad_not_in_alphabet: "CHR ''='' \<notin> set base64_chars"
  by (simp add: base64_chars_def)

lemma b64_val_char [simp]: "unat b < 64 \<Longrightarrow> b64_val (b64_char b) = Some b"
proof -
  assume b: "unat b < 64"
  then have "find_first (\<lambda>x. x = b64_char b) base64_chars = Some (unat b)"
    unfolding find_first_Some_iff b64_char_def
    using distinct_base64_chars by (auto simp: nth_eq_iff_index_eq)
  then show ?thesis by (simp add: b64_val_def)
qed

lemma b64_char_not_pad [simp]: "unat b < 64 \<Longrightarrow> b64_char b \<noteq> CHR ''=''"
  unfolding b64_char_def using pad_not_in_alphabet nth_mem [of "unat b" base64_chars]
  by (metis length_base64_chars)

text \<open>The masks of the code, as cuts of a byte.\<close>

lemma mask_consts:
  "(3 :: byte) = mask 2" "(15 :: byte) = mask 4" "(63 :: byte) = mask 6"
  "(240 :: byte) = push_bit 4 (mask 4)" "(192 :: byte) = push_bit 6 (mask 2)"
  "(252 :: byte) = push_bit 2 (mask 6)"
  by (simp_all add: mask_eq_exp_minus_1)

lemma byte_masks:
  fixes b :: byte
  shows "b AND 3 = take_bit 2 b" and "b AND 15 = take_bit 4 b" and "b AND 63 = take_bit 6 b"
    and "drop_bit 4 (b AND 240) = drop_bit 4 b" and "drop_bit 6 (b AND 192) = drop_bit 6 b"
    and "drop_bit 2 (b AND 252) = drop_bit 2 b"
  unfolding mask_consts
  by (rule bit_word_eqI; auto simp: bit_simps dest: bit_imp_le_length)+

lemma unat_lt_64I: "(\<And>n. 6 \<le> n \<Longrightarrow> \<not> bit b n) \<Longrightarrow> unat (b :: byte) < 64"
proof -
  assume "\<And>n. 6 \<le> n \<Longrightarrow> \<not> bit b n"
  then have "take_bit 6 b = b"
    by (intro bit_word_eqI) (metis bit_take_bit_iff linorder_not_less)
  then have "unat b = take_bit 6 (unat b)" by (metis unsigned_take_bit_eq)
  then show ?thesis using take_bit_nat_less_exp [of 6 "unat b"] by simp
qed

lemma sextet_bounds [simp]:
  fixes a b :: byte
  shows "unat (drop_bit 2 a) < 64" and "unat (take_bit 6 a) < 64"
    and "unat (push_bit 4 (take_bit 2 a) OR drop_bit 4 b) < 64"
    and "unat (push_bit 2 (take_bit 4 a) OR drop_bit 6 b) < 64"
  by (rule unat_lt_64I; auto simp: bit_simps dest: bit_imp_le_length)+

lemma add_diff_cases:
  "Suc (Suc (n - 2)) = (if 2 \<le> n then n else 2)" "k + (n - k) = (if k \<le> n then n else k)" for n k :: nat
  by arith+

lemma octet_joins [simp]:
  fixes a b c :: byte
  shows "push_bit 2 (drop_bit 2 a) OR drop_bit 4 (push_bit 4 (take_bit 2 a)) = a"
    and "push_bit 4 (drop_bit 4 b) OR drop_bit 2 (push_bit 2 (take_bit 4 b)) = b"
    and "push_bit 6 (drop_bit 6 c) OR take_bit 6 c = c"
  by (rule bit_word_eqI; auto simp: bit_simps add_diff_cases not_less dest: bit_imp_le_length)+

lemma high_bits [simp]:
  fixes b :: byte
  shows "take_bit 4 (drop_bit 4 b) = drop_bit 4 b" and "take_bit 2 (drop_bit 6 b) = drop_bit 6 b"
    and "take_bit 6 (drop_bit 2 b) = drop_bit 2 b"
  by (rule bit_word_eqI; auto simp: bit_simps dest: bit_imp_le_length)+

section \<open>Round trip and equivalence\<close>

text \<open>The characteristic equations of the encoder, by the number of bytes left.\<close>

lemma base64_encode_simps:
  "base64_encode [a] = [b64_char (drop_bit 2 a), b64_char (push_bit 4 (take_bit 2 a)), CHR ''='', CHR ''='']"
  "base64_encode [a, b] = [b64_char (drop_bit 2 a), b64_char (push_bit 4 (take_bit 2 a) OR drop_bit 4 b),
     b64_char (push_bit 2 (take_bit 4 b)), CHR ''='']"
  "base64_encode (a # b # c # bs) = [b64_char (drop_bit 2 a), b64_char (push_bit 4 (take_bit 2 a) OR drop_bit 4 b),
     b64_char (push_bit 2 (take_bit 4 b) OR drop_bit 6 c), b64_char (take_bit 6 c)] @ base64_encode bs"
  by (simp_all add: byte_masks Let_def)

lemmas sextets_no_tail = sextet_bounds(3) [of _ 0, simplified] sextet_bounds(4) [of _ 0, simplified]
text \<open>Induction by groups of three bytes.\<close>

lemma triple_induct [case_names Nil One Two Three]:
  assumes "P []" and "\<And>a. P [a]" and "\<And>a b. P [a, b]"
    and "\<And>a b c bs. P bs \<Longrightarrow> P (a # b # c # bs)"
  shows "P xs"
proof (induction xs rule: length_induct)
  case (1 xs)
  show ?case
  proof (cases xs)
    case (Cons a as)
    show ?thesis
    proof (cases as)
      case Nil
      with Cons assms(2) show ?thesis by simp
    next
      case (Cons b bs)
      with \<open>xs = a # as\<close> 1 assms(3,4) show ?thesis by (cases bs) auto
    qed
  qed (simp add: assms(1))
qed

lemma b64_decode_encode: "b64_decode (base64_encode bs) = Some bs"
proof (induction bs rule: triple_induct)
  case (Three a b c bs)
  then show ?case by (simp add: base64_encode_simps Let_def del: base64_encode.simps)
qed (simp_all add: base64_encode_simps sextets_no_tail Let_def del: base64_encode.simps(2))

lemma length_base64_encode: "length (base64_encode bs) = 4 * ((length bs + 2) div 3)"
proof (induction bs rule: triple_induct)
  case (Three a b c bs)
  have "(5 + length bs) div 3 = Suc ((2 + length bs) div 3)" by arith
  with Three show ?case by (simp add: base64_encode_simps del: base64_encode.simps)
qed (simp_all add: base64_encode_simps del: base64_encode.simps(2))

lemma base64_encode_alphabet: "set (base64_encode bs) \<subseteq> set base64_chars \<union> {CHR ''=''}"
proof -
  have mem: "unat b < 64 \<Longrightarrow> b64_char b \<in> set base64_chars" for b by (simp add: b64_char_def)
  show ?thesis
  proof (induction bs rule: triple_induct)
    case (Three a b c bs)
    then show ?case by (simp add: base64_encode_simps mem del: base64_encode.simps)
  qed (simp_all add: base64_encode_simps sextets_no_tail mem del: base64_encode.simps(2))
qed

interpretation base64: codec base64_encode b64_decode "\<lambda>_. True"
  by unfold_locales (rule b64_decode_encode)

text \<open>
  the decoder of RFC 4648 gives back the bytes from every output of \<open>base64_encode\<close>, so that
  no two byte strings have the same Base64 text.
\<close>

theorem base64_roundtrip:
  "b64_decode (base64_encode bs) = Some bs \<and> (base64_encode bs = base64_encode bs' \<longleftrightarrow> bs = bs')"
  by (simp add: b64_decode_encode base64.enc_inj)

text \<open>\<open>b64\<close>: its quadruple is the encoder's group, and its loop works on groups of three.\<close>

lemma b64_quad_eq:
  "b64_quad a b c = [drop_bit 2 a, push_bit 4 (take_bit 2 a) OR drop_bit 4 b,
     push_bit 2 (take_bit 4 b) OR drop_bit 6 c, take_bit 6 c]"
proof -
  have "push_bit 4 (take_bit 2 a) AND drop_bit 4 b = 0" and "push_bit 2 (take_bit 4 b) AND drop_bit 6 c = 0"
    by (rule bit_word_eqI; auto simp: bit_simps dest: bit_imp_le_length)+
  then show ?thesis unfolding b64_quad_def byte_masks by (simp add: disjunctive_add_eq_or)
qed

lemma pad_quad_eq: "pad_quad res = res @ replicate ((4 - length res mod 4) mod 4) (CHR ''='')"
proof (induction res rule: pad_quad.induct)
  case (1 res)
  show ?case
  proof (cases "length res mod 4 = 0")
    case False
    then have "(4 - length res mod 4) mod 4 = Suc ((4 - Suc (length res) mod 4) mod 4)"
      by (auto simp: mod_Suc)
    with 1 False show ?thesis by (subst pad_quad.simps) (simp flip: replicate_append_same)
  qed (subst pad_quad.simps, simp)
qed

lemma pad_quad_group:
  assumes "length res mod 4 = 0"
  shows "pad_quad (res @ [x, y]) = res @ [x, y, CHR ''='', CHR ''='']"
    and "pad_quad (res @ [x, y, z]) = res @ [x, y, z, CHR ''='']"
proof -
  from assms obtain q where q: "length res = 4 * q" by blast
  have "(4 * q + 2) mod 4 = 2" and "(4 * q + 3) mod 4 = 3" by presburger+
  with q have m: "length (res @ [x, y]) mod 4 = 2" "length (res @ [x, y, z]) mod 4 = 3" by simp_all
  show "pad_quad (res @ [x, y]) = res @ [x, y, CHR ''='', CHR ''='']"
    by (simp only: pad_quad_eq m) (simp add: numeral_2_eq_2)
  show "pad_quad (res @ [x, y, z]) = res @ [x, y, z, CHR ''='']"
    by (simp only: pad_quad_eq m) simp
qed

lemma b64_loop_groups:
  "b64_loop (a # b # c # ds) [] res
     = b64_loop ds [] (res @ map b64_char (b64_quad a b c))"
  by (simp add: Let_def)

text \<open>
  the two Base64 encoders of the file are the same function.
\<close>

theorem b64_eq_base64_encode: "b64 data = base64_encode data"
proof -
  have "(case b64_loop data [] res of (arr3, res') \<Rightarrow>
        let i = length arr3 in
        if i = 0 then res'
        else (let arr3 = arr3 @ replicate (3 - i) 0
              in pad_quad (res' @ map b64_char (take (i + 1) (b64_quad (arr3 ! 0) (arr3 ! 1) (arr3 ! 2))))))
      = res @ base64_encode data" if "length res mod 4 = 0" for res
    using that
  proof (induction data arbitrary: res rule: triple_induct)
    case (Three a b c bs)
    have "length (res @ map b64_char (b64_quad a b c)) mod 4 = 0"
      using Three.prems by (simp add: b64_quad_def)
    from Three.IH [OF this] show ?case
      unfolding b64_loop_groups
      by (simp add: base64_encode_simps b64_quad_eq del: base64_encode.simps b64_loop.simps)
  qed (simp_all add: base64_encode_simps b64_quad_eq pad_quad_group Let_def
        take_Cons' del: base64_encode.simps(2))
  from this [of "[]"] show ?thesis by (simp add: b64_def)
qed

section \<open>Hexadecimal\<close>

definition hex_char :: "nat \<Rightarrow> char" where
  "hex_char n = (if n < 10 then char_of (48 + n) else char_of (87 + n))"

definition hex_encode :: "byte list \<Rightarrow> string" where
  "hex_encode bs = concat (map (\<lambda>b. [hex_char (unat b div 16), hex_char (unat b mod 16)]) bs)"

lemma hex_val_char [simp]: "n < 16 \<Longrightarrow> hex_val (hex_char n) = Some n"
  by (auto simp: hex_val_def hex_char_def Let_def)

lemma hex_char_plain:
  assumes "n < 16"
  shows "\<not> is_space (hex_char n)" "hex_char n \<noteq> NUL" "hex_char n \<noteq> CHR ''-''" "hex_char n \<noteq> CHR ''+''"
  using hex_val_char [OF assms]
  by (auto simp: is_space_def hex_val_def Let_def split: if_splits)

lemma strtol16_hex: "m < 16 \<Longrightarrow> n < 16 \<Longrightarrow> strtol16 [hex_char m, hex_char n] = int (16 * m + n)"
  by (simp add: strtol16_def c_str_def hex_char_plain strip_0x_def)

lemma hex_2_bytes_encode: "hex_2_bytes (hex_encode bs) = bs"
proof (induction bs)
  case (Cons b bs)
  have "unat b < 256" using unsigned_less [of b] by simp
  then have "unat b div 16 < 16" by simp
  then have "strtol16 [hex_char (unat b div 16), hex_char (unat b mod 16)] = int (unat b)"
    by (simp add: strtol16_hex)
  with Cons show ?case by (simp add: hex_encode_def)
qed (simp add: hex_encode_def)

interpretation hex: codec hex_encode "\<lambda>s. Some (hex_2_bytes s)" "\<lambda>_. True"
  by unfold_locales (simp add: hex_2_bytes_encode)

text \<open>
  \<open>hex_2_bytes\<close> reads back every byte string written with two hexadecimal digits per byte.
\<close>

theorem hex_roundtrip: "hex_2_bytes (hex_encode bs) = bs"
  by (rule hex_2_bytes_encode)

end
