(* ===== verification/Ws_Accept.thy ===== *)
theory Ws_Accept
  imports Sha1_Refine Base64
begin

text \<open>
  The answer to the challenge of a WebSocket handshake: \<open>get_accept_key\<close> of
  src/websocket_handler.cpp, from its constant \<open>magic_string\<close>, the class \<open>SHA1\<close>, \<open>htonl\<close> on the
  five words of the digest, and \<open>base64_encode\<close> on their bytes in memory. The byte order of the
  machine is an argument: the result does not depend on it.
\<close>

section \<open>The definitions\<close>

definition magic_string :: string where
  "magic_string = ''258EAFA5-E914-47DA-95CA-C5AB0DC85B11''"

datatype endian = Little_Endian | Big_Endian

definition be_octets :: "u32 \<Rightarrow> byte list" where
  "be_octets w = [ucast (drop_bit 24 w), ucast (drop_bit 16 w), ucast (drop_bit 8 w), ucast w]"

text \<open>The bytes of an \<open>unsigned int\<close> in memory, at increasing addresses.\<close>

definition mem_octets :: "endian \<Rightarrow> u32 \<Rightarrow> byte list" where
  "mem_octets e w = (case e of Big_Endian \<Rightarrow> be_octets w | Little_Endian \<Rightarrow> rev (be_octets w))"

definition of_octets :: "byte list \<Rightarrow> u32" where
  "of_octets bs = fold (\<lambda>b w. push_bit 8 w OR ucast b) bs 0"

text \<open>\<open>htonl\<close>: swaps the bytes on a little-endian machine, nothing else.\<close>

definition htonl :: "endian \<Rightarrow> u32 \<Rightarrow> u32" where
  "htonl e w = (case e of Big_Endian \<Rightarrow> w | Little_Endian \<Rightarrow> of_octets (rev (be_octets w)))"

text \<open>
  \<open>get_accept_key(challenge)\<close>; \<open>mem\<close> is the memory in which \<open>SHA1 hasher\<close> is constructed. When
  \<open>Result\<close> fails, \<open>hash\<close> is read without having been written.
\<close>

definition get_accept_key :: "endian \<Rightarrow> sha1_state \<Rightarrow> string \<Rightarrow> string result" where
  "get_accept_key e mem challenge =
     (let fullString = challenge @ magic_string;
          hasher = SHA1_new mem;
          hasher = Input (take (length fullString mod 2 ^ 32) (bytes_of fullString)) hasher
      in case fst (Result hasher) of
           None \<Rightarrow> Inl Undefined_Behaviour
         | Some hash \<Rightarrow> Inr (base64_encode (concat (map (mem_octets e) (map (htonl e) hash)))))"

section \<open>The answer of RFC 6455\<close>

text \<open>The Base64 text of the 20 digest octets of the challenge and the GUID.\<close>

definition accept_key :: "string \<Rightarrow> string" where
  "accept_key challenge = base64_encode (concat (map be_octets (SHA1_spec (bytes_of (challenge @ magic_string)))))"

lemma length_be_octets [simp]: "length (be_octets w) = 4"
  by (simp add: be_octets_def)

lemma no_bit_byte: "8 \<le> n \<Longrightarrow> \<not> bit b n" for b :: byte
  by (auto dest: bit_imp_le_length)

lemma be_octets_of_octets: "be_octets (of_octets [a, b, c, d]) = [a, b, c, d]"
  by (auto simp: be_octets_def of_octets_def bit_simps no_bit_byte intro!: bit_word_eqI)

lemma mem_htonl: "mem_octets e (htonl e w) = be_octets w"
proof (cases e)
  case Little_Endian
  obtain a b c d where w: "be_octets w = [a, b, c, d]" by (simp add: be_octets_def)
  then show ?thesis by (simp add: Little_Endian mem_octets_def htonl_def be_octets_of_octets)
qed (simp add: mem_octets_def htonl_def)

lemma map_mem_htonl: "map (mem_octets e) (map (htonl e) ws) = map be_octets ws"
  by (simp add: mem_htonl)

lemma get_accept_key_eq:
  assumes "length (Message_Block mem) = 64" and "length challenge < 2 ^ 32 - 36"
  shows "get_accept_key e mem challenge = Inr (accept_key challenge)"
proof -
  let ?full = "challenge @ magic_string"
  have magic: "length magic_string = 36" by (simp add: magic_string_def)
  then have full: "length ?full < 2 ^ 32" using assms(2) by simp
  then have "take (length ?full mod 2 ^ 32) (bytes_of ?full) = bytes_of ?full" by simp
  moreover have "fst (Result (Input (bytes_of ?full) (SHA1_new mem))) = Some (SHA1_spec (bytes_of ?full))"
    by (rule sha1.digest_once [OF assms(1)]) (use full in simp)
  ultimately show ?thesis
    unfolding get_accept_key_def Let_def accept_key_def map_mem_htonl by simp
qed

lemma length_accept_key: "length (accept_key challenge) = 28"
proof -
  have "length (concat (map be_octets ws)) = 4 * length ws" for ws
    by (induction ws) simp_all
  then show ?thesis by (simp add: accept_key_def length_base64_encode)
qed

lemma accept_key_alphabet: "set (accept_key challenge) \<subseteq> set base64_chars \<union> {CHR ''=''}"
  unfolding accept_key_def by (rule base64_encode_alphabet)

text \<open>The example of RFC 6455.\<close>

lemma accept_key_sample: "accept_key ''dGhlIHNhbXBsZSBub25jZQ=='' = ''s3pPLMBiTxaQ9kYGzzhZRbK+xOo=''"
proof -
  have "''dGhlIHNhbXBsZSBub25jZQ=='' @ magic_string = sample_challenge"
    by (simp add: magic_string_def sample_challenge_def)
  moreover have "base64_encode (concat (map be_octets [0xb37a4f2c, 0xc0624f16, 0x90f64606, 0xcf385945, 0xb2bec4ea]))
      = ''s3pPLMBiTxaQ9kYGzzhZRbK+xOo=''" by code_simp
  ultimately show ?thesis unfolding accept_key_def by (simp only: SHA1_sample)
qed

section \<open>Properties\<close>

text \<open>
  C6: get_accept_key answers every challenge with the value that RFC 6455 demands (Base64 of the
  big-endian SHA-1 digest of the challenge and the GUID), on machines of either byte order, from
  whatever memory the hash object is built in; the answer has 28 characters.
\<close>

theorem accept_key_correct:
  assumes "length (Message_Block mem) = 64" and "length challenge < 2 ^ 32 - 36"
  shows "get_accept_key e mem challenge = Inr (accept_key challenge) \<and> length (accept_key challenge) = 28"
  using get_accept_key_eq [OF assms] length_accept_key by simp

theorem accept_key_correct_witness:
  "get_accept_key Little_Endian zero_mem ''dGhlIHNhbXBsZSBub25jZQ=='' = Inr ''s3pPLMBiTxaQ9kYGzzhZRbK+xOo=''"
  using accept_key_correct [of zero_mem "''dGhlIHNhbXBsZSBub25jZQ==''" Little_Endian] accept_key_sample
  by simp

end
