(* ===== verification/Cpp_Map.thy ===== *)
theory Cpp_Map
  imports Cpp_Base
begin

text \<open>
  The interface of \<open>std::unordered_map<std::string, V>\<close> that the program relies on
  (\<open>operator[]\<close> assignment, \<open>find\<close>, iteration), as the locale \<open>string_map\<close>, and its provider:
  association lists without repeated keys, whose order stands for the iteration order.
  The client lemmas are about a sequence of assignments, which is how the header, query and
  route tables of the program are filled.
\<close>

section \<open>The interface\<close>

locale string_map =
  fixes empty :: "'m"
    and assign :: "string \<Rightarrow> 'v \<Rightarrow> 'm \<Rightarrow> 'm"
    and lookup :: "'m \<Rightarrow> string \<Rightarrow> 'v option"
    and items :: "'m \<Rightarrow> (string \<times> 'v) list"
    and invar :: "'m \<Rightarrow> bool"
  assumes lookup_empty: "lookup empty k = None"
    and lookup_assign: "invar m \<Longrightarrow> lookup (assign k v m) = (lookup m)(k \<mapsto> v)"
    and items_lookup: "invar m \<Longrightarrow> map_of (items m) = lookup m"
    and items_distinct: "invar m \<Longrightarrow> distinct (map fst (items m))"
    and invar_empty: "invar empty"
    and invar_assign: "invar m \<Longrightarrow> invar (assign k v m)"
begin

text \<open>Assignments in order: the last one to a key is the one that is found.\<close>

lemma invar_assign_all: "invar m \<Longrightarrow> invar (fold (\<lambda>(k, v). assign k v) kvs m)"
  by (induction kvs arbitrary: m) (auto simp: invar_assign)

lemma lookup_assign_all:
  "invar m \<Longrightarrow> lookup (fold (\<lambda>(k, v). assign k v) kvs m) = lookup m ++ map_of (rev kvs)"
proof (induction kvs arbitrary: m)
  case (Cons p kvs)
  obtain k v where p: "p = (k, v)" by (cases p)
  have "lookup (fold (\<lambda>(k, v). assign k v) kvs (assign k v m)) = lookup (assign k v m) ++ map_of (rev kvs)"
    using Cons by (simp add: invar_assign)
  then show ?case
    using Cons.prems by (auto simp: p lookup_assign map_add_def fun_eq_iff split: option.splits)
qed simp

lemma mem_items_iff: "invar m \<Longrightarrow> (k, v) \<in> set (items m) \<longleftrightarrow> lookup m k = Some v"
  using items_lookup items_distinct by (metis map_of_eq_Some_iff)

lemma assign_last: "invar m \<Longrightarrow> lookup (assign k v m) k = Some v"
  by (simp add: lookup_assign)

lemma assign_other: "invar m \<Longrightarrow> k' \<noteq> k \<Longrightarrow> lookup (assign k v m) k' = lookup m k'"
  by (simp add: lookup_assign)

end

section \<open>The provider\<close>

type_synonym 'v umap = "(string \<times> 'v) list"

text \<open>\<open>m[k] = v\<close>: the node of \<open>k\<close> is kept when there is one, else a node is added.\<close>

definition umap_set :: "string \<Rightarrow> 'v \<Rightarrow> 'v umap \<Rightarrow> 'v umap" where
  "umap_set k v m = AList.update k v m"

text \<open>\<open>m.find(k)\<close>, \<open>None\<close> for \<open>m.end()\<close>.\<close>

definition umap_find :: "'v umap \<Rightarrow> string \<Rightarrow> 'v option" where
  "umap_find m k = map_of m k"

definition umap_ok :: "'v umap \<Rightarrow> bool" where
  "umap_ok m \<longleftrightarrow> distinct (map fst m)"

interpretation umap: string_map "[]" umap_set umap_find "\<lambda>m. m" umap_ok
  by unfold_locales
    (auto simp: umap_set_def umap_find_def umap_ok_def update_conv distinct_update fun_eq_iff)

lemmas umap_laws [cpp_map] =
  umap.lookup_assign umap.invar_assign umap.items_distinct umap.mem_items_iff

lemma umap_ok_Nil [simp]: "umap_ok []"
  by (rule umap.invar_empty)

lemma umap_find_Nil [simp]: "umap_find [] k = None"
  by (rule umap.lookup_empty)

lemma umap_ok_set [simp]: "umap_ok m \<Longrightarrow> umap_ok (umap_set k v m)"
  by (rule umap.invar_assign)

lemma umap_find_set [simp]: "umap_find (umap_set k v m) k' = (if k' = k then Some v else umap_find m k')"
  by (simp add: umap_set_def umap_find_def update_conv')

lemma umap_find_assign_all: "umap_find (fold (\<lambda>(k, v). umap_set k v) kvs []) = map_of (rev kvs)"
  using umap.lookup_assign_all [OF umap.invar_empty, of kvs]
  by (simp add: fun_eq_iff map_add_def split: option.splits)

text \<open>
  The result of a search through a map, in iteration order, for a key that satisfies a test; when
  at most one key satisfies it, the result does not depend on the order.
\<close>

lemma find_unique_key:
  assumes "umap_ok m" and "(k, v) \<in> set m" and "P k"
    and "\<And>k'. k' \<in> fst ` set m \<Longrightarrow> P k' \<Longrightarrow> k' = k"
  shows "List.find (\<lambda>(k, v). P k) m = Some (k, v)"
  using assms
proof (induction m)
  case (Cons p m)
  obtain k0 v0 where p: "p = (k0, v0)" by (cases p)
  show ?case
  proof (cases "P k0")
    case True
    with Cons.prems(4) [of k0] p have "k0 = k" by force
    with Cons.prems(1,2) p True show ?thesis by (force simp: umap_ok_def)
  next
    case False
    with Cons.prems p have "(k, v) \<in> set m" by auto
    with Cons False p show ?thesis by (auto simp: umap_ok_def)
  qed
qed simp

end
