(* ===== verification/String_Utils.thy ===== *)
theory String_Utils
  imports Cpp_Base
begin

text \<open>
  The string helpers of includes/string_utils.h: \<open>replace_all\<close>, \<open>to_lower_case\<close>, \<open>split_words\<close>.
  Each has a specification that says what it computes without the loop, its indices and its
  accumulators. \<open>tolower\<close> is the one of the "C" locale, which the program never changes.
\<close>

section \<open>The definitions\<close>

text \<open>
  The loop of \<open>replace_all\<close>; \<open>None\<close> is a loop that does not end. (Such a loop keeps adding \<open>to\<close>;
  the memory the string may take is not modelled.)
\<close>

partial_function (option) replace_loop :: "string \<Rightarrow> string \<Rightarrow> string \<Rightarrow> nat \<Rightarrow> string option" where
  "replace_loop from_str to_str str start_pos =
     (case str_find_at from_str str start_pos of
        None \<Rightarrow> Some str
      | Some p \<Rightarrow>
          replace_loop from_str to_str (take p str @ to_str @ drop (p + length from_str) str)
            (p + length to_str))"

definition replace_all :: "string \<Rightarrow> string \<Rightarrow> string \<Rightarrow> string option" where
  "replace_all str from_str to_str = replace_loop from_str to_str str 0"

definition to_lower_case :: "string \<Rightarrow> string" where
  "to_lower_case str = map to_lower str"

text \<open>
  The loop of \<open>split_words\<close> on the rest of the word, the current word and the result. Reading the
  character at the size of a \<open>std::string\<close> gives NUL. The last test is never reached: a character
  that is not the separator has been handled before.
\<close>

primrec split_loop :: "string \<Rightarrow> char \<Rightarrow> string \<Rightarrow> string list \<Rightarrow> string list" where
  "split_loop [] sp str ret = (if str \<noteq> [] then ret @ [str] else ret)"
| "split_loop (c # cs) sp str ret =
     (if c = NUL then (if str \<noteq> [] then ret @ [str] else ret)
      else if c \<noteq> sp then split_loop cs sp (str @ [c]) ret
      else if str \<noteq> [] then
        (if c = sp then split_loop cs sp [] (ret @ [str])
         else if hd (cs @ [NUL]) = sp then split_loop cs sp [] (ret @ [str @ [c]])
         else split_loop cs sp str ret)
      else split_loop cs sp str ret)"

definition split_words :: "string \<Rightarrow> char \<Rightarrow> string list" where
  "split_words word sp = split_loop word sp [] []"

section \<open>What they compute\<close>

text \<open>Every occurrence replaced, from left to right, without looking at what was inserted.\<close>

function replaced :: "string \<Rightarrow> string \<Rightarrow> string \<Rightarrow> string" where
  "replaced from_str to_str s =
     (if s = [] \<or> from_str = [] then s
      else if prefix from_str s then to_str @ replaced from_str to_str (drop (length from_str) s)
      else hd s # replaced from_str to_str (tl s))"
  by pat_completeness auto
termination
  by (relation "measure (\<lambda>(f, t, s). length s)") auto

declare replaced.simps [simp del]

text \<open>The fields between the separators, empty ones included.\<close>

fun fields :: "char \<Rightarrow> string \<Rightarrow> string list" where
  "fields sp [] = [[]]"
| "fields sp (c # cs) =
     (if c = sp then [] # fields sp cs
      else case fields sp cs of [] \<Rightarrow> [[c]] | f # fs \<Rightarrow> (c # f) # fs)"

lemma fields_nonempty [simp]: "fields sp s \<noteq> []"
  by (induction s) (auto split: list.splits)

section \<open>replace_all\<close>

lemma replaced_Nil [simp]: "replaced f t [] = []"
  by (simp add: replaced.simps)

lemma replaced_none: "from_str \<noteq> [] \<Longrightarrow> str_find from_str s = None \<Longrightarrow> replaced from_str to_str s = s"
proof (induction s)
  case (Cons c cs)
  then show ?case by (subst replaced.simps) (auto split: if_splits)
qed simp

lemma replaced_some:
  "from_str \<noteq> [] \<Longrightarrow> str_find from_str s = Some i \<Longrightarrow>
     replaced from_str to_str s = take i s @ to_str @ replaced from_str to_str (drop (i + length from_str) s)"
proof (induction s arbitrary: i)
  case (Cons c cs)
  then show ?case by (subst replaced.simps) (auto split: if_splits)
qed simp

lemma replace_loop_eq:
  assumes "from_str \<noteq> []"
  shows "replace_loop from_str to_str (pre @ s) (length pre) = Some (pre @ replaced from_str to_str s)"
proof (induction s arbitrary: pre rule: length_induct)
  case (1 s)
  show ?case
  proof (cases "str_find from_str s")
    case None
    then show ?thesis
      using assms by (subst replace_loop.simps) (simp add: str_find_at_def replaced_none)
  next
    case (Some i)
    then have i: "i + length from_str \<le> length s"
      by (auto simp: str_find_Some_iff dest!: prefix_length_le)
    let ?rest = "drop (i + length from_str) s"
    let ?pre = "pre @ take i s @ to_str"
    have "length ?rest < length s" using assms i by (cases from_str) auto
    then have "replace_loop from_str to_str (?pre @ ?rest) (length ?pre) = Some (?pre @ replaced from_str to_str ?rest)"
      using 1 by blast
    moreover have "length ?pre = length pre + i + length to_str" using i by simp
    ultimately show ?thesis
      using Some assms i
      by (subst replace_loop.simps) (simp add: str_find_at_def replaced_some add.assoc)
  qed
qed

lemma replace_loop_empty: "replace_loop [] to_str s pos = Some r \<Longrightarrow> length s < pos"
proof -
  have "f = [] \<longrightarrow> length s < pos" if "replace_loop f t s pos = Some r" for f t s pos r
  proof (rule replace_loop.raw_induct [where P = "\<lambda>f t s pos r. f = [] \<longrightarrow> length s < pos", OF _ that])
    fix rl f t s pos r
    assume 1: "\<And>f t s pos r. rl f t s pos = Some r \<Longrightarrow> f = [] \<longrightarrow> length s < pos"
      "(case str_find_at f s pos of None \<Rightarrow> Some s
        | Some p \<Rightarrow> rl f t (take p s @ t @ drop (p + length f) s) (p + length t)) = Some r"
    show "f = [] \<longrightarrow> length s < pos"
    proof
      assume f: "f = []"
      have found: "str_find [] u = Some 0" for u :: string by (cases u) simp_all
      show "length s < pos"
      proof (rule ccontr)
        assume "\<not> length s < pos"
        with f 1(2) found have "rl f t (take pos s @ t @ drop pos s) (pos + length t) = Some r"
          by (simp add: str_find_at_def)
        with 1(1) f have "length (take pos s @ t @ drop pos s) < pos + length t" by blast
        with \<open>\<not> length s < pos\<close> show False by simp
      qed
    qed
  qed
  then show "replace_loop [] to_str s pos = Some r \<Longrightarrow> length s < pos" by blast
qed

text \<open>
  replace_all returns for every non-empty pattern, and its result is the string with each
  occurrence replaced from left to right, inserted text never searched again; for the empty
  pattern it never returns.
\<close>

theorem replace_all_correct:
  "replace_all str from_str to_str
     = (if from_str = [] then None else Some (replaced from_str to_str str))"
  using replace_loop_eq [of from_str to_str "[]" str] replace_loop_empty [of to_str str 0]
  by (cases "replace_loop [] to_str str 0") (auto simp: replace_all_def)

section \<open>split_words\<close>

lemma split_loop_eq:
  "split_loop s sp str ret
     = ret @ filter (\<lambda>f. f \<noteq> []) (case fields sp (c_str s) of f # fs \<Rightarrow> (str @ f) # fs | [] \<Rightarrow> [])"
proof (induction s arbitrary: str ret)
  case Nil
  then show ?case by (simp add: c_str_def)
next
  case (Cons c cs)
  consider "c = NUL" | "c \<noteq> NUL" "c = sp" | "c \<noteq> NUL" "c \<noteq> sp" by blast
  then show ?case
  proof cases
    case 1
    then show ?thesis by (simp add: c_str_def)
  next
    case 2
    then show ?thesis using Cons by (auto simp: c_str_def split: list.splits)
  next
    case 3
    then show ?thesis using Cons by (auto simp: c_str_def split: list.splits)
  qed
qed

lemma split_words_fields: "split_words word sp = filter (\<lambda>f. f \<noteq> []) (fields sp (c_str word))"
  unfolding split_words_def split_loop_eq
  by (cases "fields sp (c_str word)") simp_all

lemma fields_append_sep: "sp \<notin> set f \<Longrightarrow> fields sp (f @ sp # s) = f # fields sp s"
  by (induction f) auto

lemma fields_no_sep: "sp \<notin> set f \<Longrightarrow> fields sp f = [f]"
  by (induction f) auto

lemma fields_sep_free: "f \<in> set (fields sp s) \<Longrightarrow> sp \<notin> set f"
proof (induction s arbitrary: f)
  case (Cons c s)
  then show ?case by (cases "fields sp s") (auto split: if_splits)
qed simp

lemma fields_chars: "f \<in> set (fields sp s) \<Longrightarrow> set f \<subseteq> set s"
proof (induction s arbitrary: f)
  case (Cons c s)
  show ?case
  proof (cases "fields sp s")
    case (Cons g gs)
    with Cons.IH have "set g \<subseteq> set s" and "\<And>h. h \<in> set gs \<Longrightarrow> set h \<subseteq> set s" by simp_all
    with Cons \<open>f \<in> set (fields sp (c # s))\<close> show ?thesis by (fastforce split: if_splits)
  qed simp
qed simp

text \<open>A word of the result is not empty and holds neither a separator nor a NUL.\<close>

lemma split_words_word:
  "w \<in> set (split_words word sp) \<Longrightarrow> w \<noteq> [] \<and> sp \<notin> set w \<and> NUL \<notin> set w \<and> set w \<subseteq> set word"
  using fields_sep_free [of w sp "c_str word"] fields_chars [of w sp "c_str word"]
  by (auto simp: split_words_fields c_str_def dest: set_takeWhileD)

lemma split_words_join:
  assumes "\<forall>f \<in> set fs. f \<noteq> [] \<and> sp \<notin> set f \<and> NUL \<notin> set f" and "sp \<noteq> NUL"
  shows "split_words (concat (map (\<lambda>f. sp # f) fs)) sp = fs"
proof -
  have nul: "NUL \<notin> set (concat (map (\<lambda>f. sp # f) fs))" using assms by auto
  have "filter (\<lambda>f. f \<noteq> []) (fields sp (g @ concat (map (\<lambda>f. sp # f) fs)))
      = (if g = [] then fs else g # fs)" if "sp \<notin> set g" for g
    using assms(1) that
  proof (induction fs arbitrary: g)
    case (Cons f fs)
    then show ?case by (simp add: fields_append_sep)
  qed (simp add: fields_no_sep)
  from this [of "[]"] nul show ?thesis by (simp add: split_words_fields)
qed

text \<open>A separator at the front makes no difference.\<close>

lemma split_words_sep_front: "sp \<noteq> NUL \<Longrightarrow> split_words (sp # s) sp = split_words s sp"
  by (simp add: split_words_def)

text \<open>
  split_words returns the non-empty fields between the separators of the part of the string
  before its first NUL, in order; none of them holds a separator.
\<close>

theorem split_words_correct:
  "split_words word sp = filter (\<lambda>f. f \<noteq> []) (fields sp (c_str word))
   \<and> (\<forall>f. f \<in> set (split_words word sp) \<longrightarrow> f \<noteq> [] \<and> sp \<notin> set f)"
  using split_words_fields split_words_word by blast

theorem split_words_correct_witness:
  "split_words ''/a//b/'' CHR ''/'' = [''a'', ''b'']"
  using split_words_correct [of "''/a//b/''" "CHR ''/''"] by (simp add: c_str_def)

text \<open>
  split_words takes a path apart as it was put together: for words without separator and
  NUL, none empty, splitting their concatenation with a separator before each gives them back.
\<close>

theorem split_words_roundtrip:
  assumes "\<forall>f \<in> set fs. f \<noteq> [] \<and> sp \<notin> set f \<and> NUL \<notin> set f" and "sp \<noteq> NUL"
  shows "split_words (concat (map (\<lambda>f. sp # f) fs)) sp = fs"
  by (rule split_words_join [OF assms])

theorem split_words_roundtrip_witness: "split_words ''/api/user/7'' CHR ''/'' = [''api'', ''user'', ''7'']"
  using split_words_roundtrip [of "[''api'', ''user'', ''7'']" "CHR ''/''"] by simp

section \<open>to_lower_case\<close>

lemma to_lower_idem [simp]: "to_lower (to_lower c) = to_lower c"
  by (simp add: to_lower_def)

lemma to_lower_case_idem [simp]: "to_lower_case (to_lower_case s) = to_lower_case s"
  by (simp add: to_lower_case_def)

lemma length_to_lower_case [simp]: "length (to_lower_case s) = length s"
  by (simp add: to_lower_case_def)

lemma to_lower_case_append [simp]: "to_lower_case (s @ t) = to_lower_case s @ to_lower_case t"
  by (simp add: to_lower_case_def)

end
