(* ===== verification/Ws_Manager.thy ===== *)
theory Ws_Manager
  imports Ws_Frame Ws_Accept Cpp_Map String_Utils
begin

text \<open>
  The singleton \<open>websocket_manager\<close> of src/websocket_handler.cpp: the set of the descriptors that
  have completed a handshake, the handshake itself, and the relay of a message to all of them.
  Its state is the set \<open>websocket_descriptor\<close>; what it does to the network is the list of
  \<open>net_effect\<close>s of a call, in order.
\<close>

section \<open>The definitions\<close>

datatype net_effect =
    Send int "byte list"   \<comment> \<open>send(fd, data, size, 0), its result not looked at\<close>
  | Close int              \<comment> \<open>close(fd)\<close>

text \<open>The first key of the iteration that reads ``sec-websocket-key'' in lower case.\<close>

fun find_websocket_key :: "string umap \<Rightarrow> string" where
  "find_websocket_key [] = []"
| "find_websocket_key ((k, v) # headers) =
     (if to_lower_case k = ''sec-websocket-key'' then v else find_websocket_key headers)"

definition is_websocket :: "string umap \<Rightarrow> bool" where
  "is_websocket headers \<longleftrightarrow> umap_find headers ''Upgrade'' \<noteq> None"

definition is_websocket_fd :: "int set \<Rightarrow> int \<Rightarrow> bool" where
  "is_websocket_fd websocket_descriptor fd \<longleftrightarrow> fd \<in> websocket_descriptor"

definition handshake_response :: "string \<Rightarrow> string" where
  "handshake_response key =
     ''HTTP/1.1 101 Switching Protocols'' @ CRLF @
     ''Upgrade: websocket'' @ CRLF @
     ''Connection: Upgrade'' @ CRLF @
     ''Sec-WebSocket-Accept: '' @ key @ CRLF @ CRLF"

text \<open>
  \<open>add_new_connection_connection\<close>: the returned flag, what is sent, the set afterwards. \<open>e\<close> and
  \<open>mem\<close> are the arguments of \<open>get_accept_key\<close>.
\<close>

definition add_new_connection_connection ::
  "endian \<Rightarrow> sha1_state \<Rightarrow> int \<Rightarrow> string umap \<Rightarrow> string \<Rightarrow> int set \<Rightarrow> (bool \<times> net_effect list \<times> int set) result" where
  "add_new_connection_connection e mem fd headers endpoint websocket_descriptor =
     (let it = find_websocket_key headers in
      if it = [] then Inr (False, [], websocket_descriptor)
      else rbind (get_accept_key e mem it) (\<lambda>accept_key.
             Inr (True, [Send fd (bytes_of (handshake_response accept_key))], insert fd websocket_descriptor)))"

definition relay_message :: "int \<Rightarrow> string \<Rightarrow> string" where
  "relay_message fd str = ''ID['' @ int_to_string fd @ '']=>'' @ str"

text \<open>
  \<open>notify_message_request\<close>: the descriptors are visited in the order of \<open>std::set\<close>. \<open>maxmem\<close> is the
  memory for a vector, \<open>rcv\<close> the read from \<open>fd\<close>.
\<close>

definition notify_message_request ::
  "nat \<Rightarrow> 's recv_fun \<Rightarrow> int \<Rightarrow> int set \<Rightarrow> 's \<Rightarrow> (net_effect list \<times> 's) result" where
  "notify_message_request maxmem rcv fd websocket_descriptor s =
     (if fd \<notin> websocket_descriptor then Inr ([], s)
      else rbind (read_frame maxmem rcv s) (\<lambda>(str, s').
        let message = relay_message fd str
        in Inr (map (\<lambda>c. Send c (send_frame message)) (sorted_list_of_set websocket_descriptor), s')))"

section \<open>Lemmas\<close>

lemma find_websocket_key_unique:
  assumes "umap_ok hs" and "(k, v) \<in> set hs" and "to_lower_case k = ''sec-websocket-key''"
    and "\<And>k'. k' \<in> fst ` set hs \<Longrightarrow> to_lower_case k' = ''sec-websocket-key'' \<Longrightarrow> k' = k"
  shows "find_websocket_key hs = v"
proof -
  have "find_websocket_key hs
      = (case List.find (\<lambda>(k, v). to_lower_case k = ''sec-websocket-key'') hs of None \<Rightarrow> [] | Some (k, v) \<Rightarrow> v)"
    by (induction hs) auto
  moreover have "List.find (\<lambda>(k, v). to_lower_case k = ''sec-websocket-key'') hs = Some (k, v)"
    by (rule find_unique_key [OF assms(1,2)]) (use assms(3,4) in auto)
  ultimately show ?thesis by simp
qed

lemma find_websocket_key_none:
  "\<forall>k \<in> fst ` set hs. to_lower_case k \<noteq> ''sec-websocket-key'' \<Longrightarrow> find_websocket_key hs = []"
  by (induction hs) auto

text \<open>No call ever removes a descriptor, and only a handshake adds one: its own.\<close>

lemma add_new_connection_set:
  "add_new_connection_connection e mem fd hs url ws = Inr (ok, effs, ws') \<Longrightarrow>
     ws' = (if ok then insert fd ws else ws) \<and> (\<not> ok \<longrightarrow> effs = [])"
  by (auto simp: add_new_connection_connection_def Let_def rbind_Inr_iff split: if_splits)

lemma add_new_connection_handshake:
  assumes "length (Message_Block mem) = 64" and "umap_ok headers"
    and "(k, key) \<in> set headers" and "to_lower_case k = ''sec-websocket-key''"
    and "\<And>k'. k' \<in> fst ` set headers \<Longrightarrow> to_lower_case k' = ''sec-websocket-key'' \<Longrightarrow> k' = k"
    and "length key < 2 ^ 32 - 36"
  shows "add_new_connection_connection e mem fd headers endpoint ws =
     Inr (if key = [] then (False, [], ws)
          else (True, [Send fd (bytes_of (handshake_response (accept_key key)))], insert fd ws))"
  using find_websocket_key_unique [OF assms(2-5)] get_accept_key_eq [OF assms(1,6)]
  by (simp add: add_new_connection_connection_def)

lemma relayed:
  assumes "fd \<in> ws" and "finite ws"
    and "\<And>k. key = Some k \<Longrightarrow> length k = 4" and "unat h0 mod 16 = 1"
    and "length p \<le> maxmem" and "length (relay_message fd (string_of p)) \<le> vector_max"
    and "d0 @ concat ds = ws_frame h0 key p @ rest" and "\<forall>d \<in> set ds. d \<noteq> []"
    and "length (frame_head h0 key (length p)) \<le> length d0"
  shows "\<exists>frame ds'. notify_message_request maxmem recv fd ws (map Rx_Data (d0 # ds) @ es)
           = Inr (map (\<lambda>c. Send c frame) (sorted_list_of_set ws), map Rx_Data ds' @ es)
      \<and> concat ds' = rest
      \<and> read_frame vector_max recv [Rx_Data frame] = Inr (relay_message fd (string_of p), [])"
proof -
  have "length p \<le> vector_max" using assms(6) by (simp add: relay_message_def)
  from read_frame_of_frame [OF assms(3,4,5) this assms(7-9), of es] obtain ds'
    where "read_frame maxmem recv (map Rx_Data (d0 # ds) @ es) = Inr (string_of p, map Rx_Data ds' @ es)"
      and "concat ds' = rest" by blast
  then show ?thesis
    using assms(1) read_frame_sent [OF assms(6,6), of "[]"]
    by (auto simp: notify_message_request_def Let_def)
qed

section \<open>Properties\<close>

text \<open>
  A handshake succeeds exactly when the request has a non-empty key field, its name in any
  case: the client is sent the 101 response with the accept value of RFC 6455 for its key, and its
  descriptor, no other, becomes a WebSocket. Two key fields that differ in case only are excluded.
\<close>

theorem handshake_correct:
  assumes "length (Message_Block mem) = 64" and "umap_ok headers"
    and "(k, key) \<in> set headers" and "to_lower_case k = ''sec-websocket-key''"
    and "\<And>k'. k' \<in> fst ` set headers \<Longrightarrow> to_lower_case k' = ''sec-websocket-key'' \<Longrightarrow> k' = k"
    and "length key < 2 ^ 32 - 36"
  shows "add_new_connection_connection e mem fd headers endpoint ws =
     Inr (if key = [] then (False, [], ws)
          else (True, [Send fd (bytes_of (handshake_response (accept_key key)))], insert fd ws))"
  by (rule add_new_connection_handshake [OF assms])

theorem handshake_correct_witness:
  "add_new_connection_connection Little_Endian zero_mem 5
      [(''Upgrade'', ''websocket''), (''sec-websocket-KEY'', ''dGhlIHNhbXBsZSBub25jZQ=='')] ''/chat'' {}
   = Inr (True, [Send 5 (bytes_of (handshake_response (accept_key ''dGhlIHNhbXBsZSBub25jZQ=='')))], {5})"
proof -
  have "to_lower_case ''sec-websocket-KEY'' = ''sec-websocket-key''" by code_simp
  moreover have "to_lower_case ''Upgrade'' \<noteq> ''sec-websocket-key''" by code_simp
  ultimately show ?thesis
    using handshake_correct [of zero_mem
      "[(''Upgrade'', ''websocket''), (''sec-websocket-KEY'', ''dGhlIHNhbXBsZSBub25jZQ=='')]"
      "''sec-websocket-KEY''" "''dGhlIHNhbXBsZSBub25jZQ==''" Little_Endian 5 "''/chat''" "{}"]
    by (auto simp: umap_ok_def)
qed

text \<open>
  C7: A message is relayed to every WebSocket, the sender included, once each and to nothing
  else: when the next bytes of a registered descriptor are a client's text frame (masked or not,
  cut anywhere after its head), every registered descriptor is sent one frame, and whoever reads
  this frame gets ``ID[fd]=>'' and the payload; what follows the frame stays in the socket.
\<close>

theorem message_relayed:
  assumes "fd \<in> ws" and "finite ws"
    and "\<And>k. key = Some k \<Longrightarrow> length k = 4" and "unat h0 mod 16 = 1"
    and "length p \<le> maxmem" and "length (relay_message fd (string_of p)) \<le> vector_max"
    and "d0 @ concat ds = ws_frame h0 key p @ rest" and "\<forall>d \<in> set ds. d \<noteq> []"
    and "length (frame_head h0 key (length p)) \<le> length d0"
  shows "\<exists>frame ds'. notify_message_request maxmem recv fd ws (map Rx_Data (d0 # ds) @ es)
           = Inr (map (\<lambda>c. Send c frame) (sorted_list_of_set ws), map Rx_Data ds' @ es)
      \<and> concat ds' = rest
      \<and> read_frame vector_max recv [Rx_Data frame] = Inr (relay_message fd (string_of p), [])"
  by (rule relayed [OF assms])

theorem message_relayed_witness:
  "\<exists>frame ds'. notify_message_request 100 recv 5 {5, 6} (map Rx_Data [[0x81, 0x02, 0x48, 0x69]] @ [])
     = Inr (map (\<lambda>c. Send c frame) (sorted_list_of_set {5, 6}), map Rx_Data ds' @ [])
    \<and> concat ds' = []
    \<and> read_frame vector_max recv [Rx_Data frame] = Inr (relay_message 5 (string_of [0x48, 0x69]), [])"
proof (rule message_relayed [where key = None and ?h0.0 = "0x81"])
  have "length (nat_to_string 5) = 1" by code_simp
  then show "length (relay_message 5 (string_of [0x48, 0x69])) \<le> vector_max"
    by (simp add: relay_message_def int_to_string_def vector_max_def)
qed (simp_all add: ws_frame_def frame_head_def frame_length_def)

text \<open>
  A failed or foreign frame is relayed too: whenever read_frame gives the empty string (the
  peer has closed, a read fell short, the opcode is not text) every WebSocket is sent the bare
  prefix, and the descriptor stays registered; only a descriptor that is not registered is
  ignored.
\<close>

theorem empty_message_relayed:
  assumes "fd \<in> ws" and "read_frame maxmem rcv s = Inr ([], s')"
  shows "notify_message_request maxmem rcv fd ws s
     = Inr (map (\<lambda>c. Send c (send_frame (relay_message fd []))) (sorted_list_of_set ws), s')"
  using assms by (simp add: notify_message_request_def)

theorem empty_message_relayed_witness:
  "notify_message_request 100 recv 7 {7} [Rx_Close] = Inr ([Send 7 (send_frame (relay_message 7 []))], [Rx_Close])"
  using empty_message_relayed [of 7 "{7}" 100 recv "[Rx_Close]" "[Rx_Close]"]
  by (simp add: read_frame_def)

end
