(* ===== verification/Tcp_Setup.thy ===== *)
theory Tcp_Setup
  imports Ws_Manager
begin

text \<open>
  The three implementations of \<open>tcp_handler\<close> (includes/tcp_handler.h): what their
  \<open>create_server\<close> does (src/tcp_default_handler.cpp, src/tcp_poll_handler.cpp,
  src/tcp_epoll_handler.cpp). The answers of the system calls are the argument \<open>os\<close>; the result
  is the status, the object afterwards and the calls made, in order.
\<close>

section \<open>System calls\<close>

datatype sock_opt = SO_REUSEADDR | SO_REUSEPORT | SO_KEEPALIVE

datatype backlog = Backlog int | SOMAXCONN

datatype sys_call =
    Sys_Socket
  | Sys_Bind int "16 word"        \<comment> \<open>the descriptor and the port, address INADDR_ANY\<close>
  | Sys_Listen int backlog
  | Sys_Setsockopt int sock_opt
  | Sys_Set_Nonblocking int       \<comment> \<open>fcntl F_GETFL, then F_SETFL with O_NONBLOCK added\<close>
  | Sys_Epoll_Create
  | Sys_Epoll_Add int int         \<comment> \<open>the epoll descriptor and the descriptor to watch\<close>
  | Sys_Epoll_Del int int
  | Sys_Accept int
  | Sys_Net net_effect

record setup_os =
  socket_result :: int
  bind_result :: int
  listen_result :: int
  epoll_create_result :: int
  epoll_add_result :: int

datatype tcp_handler_status = Ok | Error

definition SO_MAXCON :: int where "SO_MAXCON = 10"

section \<open>tcp_default_handler\<close>

record tcp_default_handler =
  server_fd :: int
  port :: "16 word"
  run :: bool

text \<open>No result is looked at: the status is always \<open>Ok\<close>.\<close>

definition default_create_server ::
  "setup_os \<Rightarrow> 'h tcp_default_handler_scheme \<Rightarrow> tcp_handler_status \<times> 'h tcp_default_handler_scheme \<times> sys_call list" where
  "default_create_server os h =
     (let h = h\<lparr>server_fd := socket_result os\<rparr>;
          calls = [Sys_Socket, Sys_Bind (server_fd h) (port h), Sys_Listen (server_fd h) (Backlog SO_MAXCON),
                   Sys_Setsockopt (server_fd h) SO_REUSEADDR, Sys_Setsockopt (server_fd h) SO_REUSEPORT];
          h = h\<lparr>run := True\<rparr>
      in (Ok, h, calls))"

section \<open>tcp_poll_handler\<close>

definition POLLIN :: "16 word" where "POLLIN = 0x001"
definition POLLOUT :: "16 word" where "POLLOUT = 0x004"
definition POLLERR :: "16 word" where "POLLERR = 0x008"
definition POLLHUP :: "16 word" where "POLLHUP = 0x010"
definition POLLNVAL :: "16 word" where "POLLNVAL = 0x020"

record pollfd =
  pfd :: int
  events :: "16 word"
  revents :: "16 word"

record tcp_poll_handler = tcp_default_handler +
  poll_fds :: "pollfd list"

definition poll_create_server ::
  "setup_os \<Rightarrow> tcp_poll_handler \<Rightarrow> tcp_handler_status \<times> tcp_poll_handler \<times> sys_call list" where
  "poll_create_server os h =
     (let h = h\<lparr>server_fd := socket_result os\<rparr>;
          calls = [Sys_Socket, Sys_Bind (server_fd h) (port h), Sys_Listen (server_fd h) (Backlog SO_MAXCON),
                   Sys_Setsockopt (server_fd h) SO_REUSEADDR, Sys_Setsockopt (server_fd h) SO_REUSEPORT];
          h = h\<lparr>run := True\<rparr>;
          calls = calls @ [Sys_Set_Nonblocking (server_fd h)];
          h = h\<lparr>poll_fds := poll_fds h @ [\<lparr>pfd = server_fd h, events = POLLIN, revents = 0\<rparr>]\<rparr>
      in (Ok, h, calls))"

section \<open>tcp_epoll_handler\<close>

record tcp_epoll_handler = tcp_default_handler +
  epoll_fd :: int

definition epoll_create_server ::
  "setup_os \<Rightarrow> tcp_epoll_handler \<Rightarrow> tcp_handler_status \<times> tcp_epoll_handler \<times> sys_call list" where
  "epoll_create_server os h =
     (let h = h\<lparr>server_fd := socket_result os\<rparr>; calls = [Sys_Socket] in
      if server_fd h < 0 then (Error, h, calls) else
      let calls = calls @ [Sys_Set_Nonblocking (server_fd h), Sys_Setsockopt (server_fd h) SO_KEEPALIVE,
                           Sys_Bind (server_fd h) (port h)] in
      if bind_result os < 0 then (Error, h, calls @ [Sys_Net (Close (server_fd h))]) else
      let calls = calls @ [Sys_Listen (server_fd h) SOMAXCONN] in
      if listen_result os < 0 then (Error, h, calls @ [Sys_Net (Close (server_fd h))]) else
      let h = h\<lparr>epoll_fd := epoll_create_result os\<rparr>; calls = calls @ [Sys_Epoll_Create] in
      if epoll_fd h < 0 then (Error, h, calls @ [Sys_Net (Close (server_fd h))]) else
      let calls = calls @ [Sys_Epoll_Add (epoll_fd h) (server_fd h)] in
      if epoll_add_result os < 0
      then (Error, h, calls @ [Sys_Net (Close (server_fd h)), Sys_Net (Close (epoll_fd h))])
      else (Ok, h, calls))"

section \<open>Properties\<close>

text \<open>The descriptors that the calls of a setup have opened, and those they have closed.\<close>

fun opened :: "setup_os \<Rightarrow> sys_call list \<Rightarrow> int list" where
  "opened os [] = []"
| "opened os (c # cs) =
     (case c of
        Sys_Socket \<Rightarrow> (if socket_result os < 0 then [] else [socket_result os])
      | Sys_Epoll_Create \<Rightarrow> (if epoll_create_result os < 0 then [] else [epoll_create_result os])
      | _ \<Rightarrow> []) @ opened os cs"

fun closed :: "sys_call list \<Rightarrow> int list" where
  "closed [] = []"
| "closed (c # cs) = (case c of Sys_Net (Close fd) \<Rightarrow> [fd] | _ \<Rightarrow> []) @ closed cs"

text \<open>
  C29: The epoll server reports a failure of any of its calls and then has closed every descriptor
  that it opened, each once; when it reports success every call has succeeded, the server socket
  is bound, listening and watched, and no descriptor is closed.
\<close>

theorem epoll_setup_no_leak:
  "case epoll_create_server os h of (status, h', calls) \<Rightarrow>
     (status = Error \<longrightarrow> closed calls = opened os calls)
   \<and> (status = Ok \<longleftrightarrow> socket_result os \<ge> 0 \<and> bind_result os \<ge> 0 \<and> listen_result os \<ge> 0
                       \<and> epoll_create_result os \<ge> 0 \<and> epoll_add_result os \<ge> 0)
   \<and> (status = Ok \<longrightarrow> closed calls = [] \<and> opened os calls = [server_fd h', epoll_fd h']
        \<and> Sys_Bind (server_fd h') (port h) \<in> set calls
        \<and> Sys_Listen (server_fd h') SOMAXCONN \<in> set calls
        \<and> Sys_Epoll_Add (epoll_fd h') (server_fd h') \<in> set calls)"
  by (simp add: epoll_create_server_def Let_def)

text \<open>The port is taken: bind fails.\<close>

theorem epoll_setup_no_leak_witness:
  "closed (snd (snd (epoll_create_server
      \<lparr>socket_result = 3, bind_result = -1, listen_result = 0, epoll_create_result = 4, epoll_add_result = 0\<rparr>
      \<lparr>server_fd = 0, port = 9000, run = False, epoll_fd = 0\<rparr>))) = [3]"
  using epoll_setup_no_leak [of
      "\<lparr>socket_result = 3, bind_result = -1, listen_result = 0, epoll_create_result = 4, epoll_add_result = 0\<rparr>"
      "\<lparr>server_fd = 0, port = 9000, run = False, epoll_fd = 0\<rparr>"]
  by (simp add: epoll_create_server_def Let_def)

text \<open>The other two servers report success whatever happens, and set the reuse options after bind.\<close>

lemma default_setup_always_ok: "fst (default_create_server os h) = Ok"
  by (simp add: default_create_server_def Let_def)

lemma poll_setup_always_ok: "fst (poll_create_server os h) = Ok"
  by (simp add: poll_create_server_def Let_def)

end
