(* ===== verification/Tcp_Poll.thy ===== *)
theory Tcp_Poll
  imports Tcp_Setup
begin

text \<open>
  The event loop of \<open>tcp_poll_handler\<close> (src/tcp_poll_handler.cpp): \<open>remove_socket\<close>,
  \<open>handle_incomming_connection\<close> and \<open>accept_and_process_message\<close>. What the loop asks of its
  surroundings is the record \<open>poll_env\<close> over a world \<open>'w\<close>: the results of \<open>accept\<close>, of the
  peeking \<open>recv\<close> and of \<open>fcntl\<close>, the connection handler and the singleton \<open>websocket_manager\<close>
  (\<open>Http_Server\<close> and \<open>Ws_Manager\<close> provide the last two). The entries of \<open>poll_fds\<close> keep their
  order, and an index runs over them while they are erased and appended, as in the code.
\<close>

section \<open>The definitions\<close>

record 'w poll_env =
  env_accept :: "'w \<Rightarrow> int \<times> 'w"
  env_peek :: "int \<Rightarrow> 'w \<Rightarrow> int"
  env_getfl :: "int \<Rightarrow> 'w \<Rightarrow> int"
  env_connection :: "(int \<Rightarrow> 'w \<Rightarrow> (net_effect list \<times> 'w) result) option"
  env_notify :: "int \<Rightarrow> 'w \<Rightarrow> (net_effect list \<times> 'w) result"

text \<open>\<open>remove_socket(fd)\<close>: the first entry of \<open>fd\<close> is erased and \<open>fd\<close> closed.\<close>

fun remove_socket :: "int \<Rightarrow> pollfd list \<Rightarrow> pollfd list \<times> sys_call list" where
  "remove_socket fd [] = ([], [])"
| "remove_socket fd (it # its) =
     (if pfd it = fd then (its, [Sys_Net (Close fd)])
      else case remove_socket fd its of (its', calls) \<Rightarrow> (it # its', calls))"

definition handle_incomming_connection ::
  "'w poll_env \<Rightarrow> int \<Rightarrow> 'w \<Rightarrow> (net_effect list \<times> 'w) result" where
  "handle_incomming_connection env fd w =
     (case env_connection env of None \<Rightarrow> Inr ([], w) | Some cb \<Rightarrow> cb fd w)"

text \<open>The body of the inner loop on the entry \<open>poll_fds[i]\<close>.\<close>

definition poll_event ::
  "'w poll_env \<Rightarrow> int \<Rightarrow> nat \<Rightarrow> pollfd list \<Rightarrow> 'w \<Rightarrow> (pollfd list \<times> sys_call list \<times> 'w) result" where
  "poll_event env server i fds w =
     (let e = fds ! i in
      if revents e AND POLLHUP \<noteq> 0 then
        (case remove_socket (pfd e) fds of (fds, calls) \<Rightarrow> Inr (fds, calls, w))
      else if revents e AND POLLOUT \<noteq> 0 then Inr (fds, [], w)
      else if revents e AND POLLIN \<noteq> 0 then
        (if pfd e = server then
           (case env_accept env w of (new_connection, w) \<Rightarrow>
              let fds = fds @ [\<lparr>pfd = new_connection, events = POLLIN, revents = 0\<rparr>] in
              rbind (handle_incomming_connection env new_connection w) (\<lambda>(effs, w).
                Inr (fds, [Sys_Accept server, Sys_Set_Nonblocking new_connection] @ map Sys_Net effs, w)))
         else
           let client_fd = pfd e; valread = env_peek env client_fd w in
           if valread \<le> 0 then
             (if env_getfl env client_fd w = -1
              then (case remove_socket client_fd fds of (fds, calls) \<Rightarrow> Inr (fds, calls, w))
              else (case remove_socket client_fd fds of (fds, calls) \<Rightarrow>
                      Inr (fds, Sys_Net (Close client_fd) # calls, w)))
           else rbind (env_notify env client_fd w) (\<lambda>(effs, w). Inr (fds, map Sys_Net effs, w)))
      else Inr (fds, [], w))"

lemma remove_socket_split:
  "fd \<in> pfd ` set fds \<Longrightarrow>
     \<exists>xs p ys. fds = xs @ p # ys \<and> pfd p = fd \<and> fd \<notin> pfd ` set xs
       \<and> remove_socket fd fds = (xs @ ys, [Sys_Net (Close fd)])"
proof (induction fds)
  case (Cons q fds)
  show ?case
  proof (cases "pfd q = fd")
    case True
    then show ?thesis by (intro exI [of _ "[]"] exI [of _ q] exI [of _ fds]) simp
  next
    case False
    with Cons obtain xs p ys where "fds = xs @ p # ys" "pfd p = fd" "fd \<notin> pfd ` set xs"
      "remove_socket fd fds = (xs @ ys, [Sys_Net (Close fd)])" by auto
    with False show ?thesis by (intro exI [of _ "q # xs"] exI [of _ p] exI [of _ ys]) simp
  qed
qed simp

text \<open>What an event does to the entries: nothing, an entry erased at or before \<open>i\<close>, or one added.\<close>

lemma poll_event_fds:
  assumes "i < length fds" and "poll_event env server i fds w = Inr (fds', calls, w')"
  shows "fds' = fds
    \<or> (\<exists>xs p ys. fds = xs @ p # ys \<and> fds' = xs @ ys \<and> length xs \<le> i \<and> Sys_Net (Close (pfd p)) \<in> set calls)
    \<or> (revents (fds ! i) \<noteq> 0 \<and> (\<exists>fd. fds' = fds @ [\<lparr>pfd = fd, events = POLLIN, revents = 0\<rparr>]))"
proof -
  have "pfd (fds ! i) \<in> pfd ` set fds" using assms(1) by simp
  from remove_socket_split [OF this] obtain xs p ys
    where fds: "fds = xs @ p # ys" "pfd p = pfd (fds ! i)" "pfd (fds ! i) \<notin> pfd ` set xs"
      and rem: "remove_socket (pfd (fds ! i)) fds = (xs @ ys, [Sys_Net (Close (pfd (fds ! i)))])" by blast
  have le: "length xs \<le> i"
  proof (rule ccontr)
    assume "\<not> length xs \<le> i"
    then have "fds ! i \<in> set xs" by (subst fds(1)) (simp add: nth_append)
    with fds(3) show False by blast
  qed
  show ?thesis
    using assms(2) rem le fds(1,2)
    by (auto simp: poll_event_def Let_def rbind_Inr_iff split: if_splits prod.splits)
qed

definition entry_weight :: "pollfd \<Rightarrow> nat" where
  "entry_weight p = (if revents p = 0 then 1 else 2)"

lemma poll_event_weight:
  assumes "i < length fds" and "poll_event env server i fds w = Inr (fds', calls, w')"
  shows "sum_list (map entry_weight (drop (Suc i) fds')) < sum_list (map entry_weight (drop i fds))"
proof -
  have d: "drop i fds = fds ! i # drop (Suc i) fds" using assms(1) by (rule Cons_nth_drop_Suc [symmetric])
  have pos: "0 < entry_weight p" for p by (simp add: entry_weight_def)
  from poll_event_fds [OF assms] show ?thesis
  proof (elim disjE exE conjE)
    assume "fds' = fds"
    with d pos show ?thesis by simp
  next
    fix xs p ys
    assume "fds = xs @ p # ys" "fds' = xs @ ys" "length xs \<le> i"
    then have "drop (Suc i) fds' = drop (Suc (Suc i)) fds" by (simp add: Suc_diff_le)
    moreover have "drop (Suc (Suc i)) fds = tl (drop (Suc i) fds)" by (metis drop_Suc tl_drop)
    then have "sum_list (map entry_weight (drop (Suc (Suc i)) fds)) \<le> sum_list (map entry_weight (drop (Suc i) fds))"
      by (cases "drop (Suc i) fds") simp_all
    ultimately show ?thesis using d pos [of "fds ! i"] by simp
  next
    fix fd
    assume "revents (fds ! i) \<noteq> 0" and "fds' = fds @ [\<lparr>pfd = fd, events = POLLIN, revents = 0\<rparr>]"
    then show ?thesis using d assms(1) by (simp add: entry_weight_def)
  qed
qed

text \<open>\<open>for (size_t i = 0; i < poll_fds.size(); i++)\<close>, from \<open>i\<close> on.\<close>

function poll_scan ::
  "'w poll_env \<Rightarrow> int \<Rightarrow> nat \<Rightarrow> pollfd list \<Rightarrow> 'w \<Rightarrow> (pollfd list \<times> sys_call list \<times> 'w) result" where
  "poll_scan env server i fds w =
     (if i < length fds
      then (case poll_event env server i fds w of
              Inl e \<Rightarrow> Inl e
            | Inr (fds', calls, w') \<Rightarrow>
                rbind (poll_scan env server (i + 1) fds' w') (\<lambda>(fds'', calls', w'').
                  Inr (fds'', calls @ calls', w'')))
      else Inr (fds, [], w))"
  by pat_completeness auto
termination
  by (relation "measure (\<lambda>(env, server, i, fds, w). sum_list (map entry_weight (drop i fds)))")
    (auto dest: poll_event_weight)

declare poll_scan.simps [simp del]

text \<open>
  \<open>accept_and_process_message\<close> over a sequence of answers of \<open>poll\<close>: \<open>None\<close> is a negative result,
  which ends the loop; \<open>Some rs\<close> stores \<open>rs k\<close> in \<open>poll_fds[k].revents\<close>. Nothing sets \<open>run\<close> to
  false, so that the loop goes on as long as \<open>poll\<close> answers.
\<close>

definition poll_answer :: "(nat \<Rightarrow> 16 word) \<Rightarrow> pollfd list \<Rightarrow> pollfd list" where
  "poll_answer rs fds = map (\<lambda>k. (fds ! k)\<lparr>revents := rs k\<rparr>) [0..<length fds]"

fun accept_and_process_message ::
  "'w poll_env \<Rightarrow> (nat \<Rightarrow> 16 word) option list \<Rightarrow> tcp_poll_handler \<Rightarrow> 'w \<Rightarrow>
     (tcp_poll_handler \<times> sys_call list \<times> 'w) result" where
  "accept_and_process_message env [] h w = Inr (h, [], w)"
| "accept_and_process_message env (a # answers) h w =
     (if \<not> run h then Inr (h, [], w)
      else case a of
        None \<Rightarrow> Inr (h, [], w)
      | Some rs \<Rightarrow>
          rbind (poll_scan env (server_fd h) 0 (poll_answer rs (poll_fds h)) w) (\<lambda>(fds, calls, w).
          rbind (accept_and_process_message env answers (h\<lparr>poll_fds := fds\<rparr>) w) (\<lambda>(h, calls', w).
            Inr (h, calls @ calls', w))))"

section \<open>Lemmas\<close>

text \<open>An entry without an event that the code looks at; a descriptor that is not open is one.\<close>

definition quiet :: "pollfd \<Rightarrow> bool" where
  "quiet p \<longleftrightarrow> revents p AND POLLHUP = 0 \<and> revents p AND POLLOUT = 0 \<and> revents p AND POLLIN = 0"

lemma quiet_zero: "revents p = 0 \<Longrightarrow> quiet p"
  by (simp add: quiet_def)

lemma quiet_nval: "revents p = POLLNVAL \<Longrightarrow> quiet p"
  by (simp add: quiet_def POLLNVAL_def POLLHUP_def POLLOUT_def POLLIN_def)

lemma poll_event_quiet: "quiet (fds ! i) \<Longrightarrow> poll_event env server i fds w = Inr (fds, [], w)"
  by (simp add: poll_event_def quiet_def Let_def)

lemma poll_scan_step:
  "i < length fds \<Longrightarrow> poll_event env server i fds w = Inr (fds', calls, w') \<Longrightarrow>
     poll_scan env server i fds w
       = rbind (poll_scan env server (Suc i) fds' w') (\<lambda>(fds'', calls', w''). Inr (fds'', calls @ calls', w''))"
  by (simp add: poll_scan.simps [of env server i fds w])

lemma poll_scan_end: "length fds \<le> i \<Longrightarrow> poll_scan env server i fds w = Inr (fds, [], w)"
  by (simp add: poll_scan.simps)

lemma poll_scan_skip:
  "\<forall>p \<in> set xs. quiet p \<Longrightarrow>
     poll_scan env server (length us) (us @ xs @ ys) w = poll_scan env server (length us + length xs) (us @ xs @ ys) w"
proof (induction xs arbitrary: us)
  case (Cons p xs)
  then have "quiet ((us @ p # xs @ ys) ! length us)" by simp
  from poll_scan_step [OF _ poll_event_quiet [OF this], of env server w]
  have "poll_scan env server (length us) (us @ p # xs @ ys) w
      = poll_scan env server (length (us @ [p])) ((us @ [p]) @ xs @ ys) w"
    by simp
  also have "\<dots> = poll_scan env server (length (us @ [p]) + length xs) ((us @ [p]) @ xs @ ys) w"
    by (rule Cons.IH) (use Cons.prems in simp)
  finally show ?case by simp
qed simp

lemma poll_scan_quiet:
  "\<forall>p \<in> set xs. quiet p \<Longrightarrow> poll_scan env server (length us) (us @ xs) w = Inr (us @ xs, [], w)"
  using poll_scan_skip [of xs env server us "[]" w] by (simp add: poll_scan_end)

lemma remove_socket_first:
  "fd \<notin> pfd ` set xs \<Longrightarrow> pfd p = fd \<Longrightarrow> remove_socket fd (xs @ p # ys) = (xs @ ys, [Sys_Net (Close fd)])"
  by (induction xs) auto

text \<open>The relays of the ready entries of a list, in order.\<close>

primrec relay_all :: "'w poll_env \<Rightarrow> pollfd list \<Rightarrow> 'w \<Rightarrow> (net_effect list \<times> 'w) result" where
  "relay_all env [] w = Inr ([], w)"
| "relay_all env (p # ps) w =
     (if revents p AND POLLIN = 0 then relay_all env ps w
      else rbind (env_notify env (pfd p) w) (\<lambda>(effs, w').
             rbind (relay_all env ps w') (\<lambda>(effs', w''). Inr (effs @ effs', w''))))"

definition message_ready :: "'w poll_env \<Rightarrow> int \<Rightarrow> pollfd \<Rightarrow> bool" where
  "message_ready env server p \<longleftrightarrow>
     revents p AND POLLHUP = 0 \<and> revents p AND POLLOUT = 0
     \<and> (revents p AND POLLIN \<noteq> 0 \<longrightarrow> pfd p \<noteq> server \<and> (\<forall>w. 0 < env_peek env (pfd p) w))"

lemma poll_scan_messages:
  "\<forall>p \<in> set ps. message_ready env server p \<Longrightarrow>
     poll_scan env server (length us) (us @ ps) w
       = rbind (relay_all env ps w) (\<lambda>(effs, w'). Inr (us @ ps, map Sys_Net effs, w'))"
proof (induction ps arbitrary: us w)
  case Nil
  then show ?case by (simp add: poll_scan_end)
next
  case (Cons p ps)
  have IH: "poll_scan env server (Suc (length us)) (us @ p # ps) v
      = rbind (relay_all env ps v) (\<lambda>(effs, w'). Inr (us @ p # ps, map Sys_Net effs, w'))" for v
    using Cons.IH [of "us @ [p]" v] Cons.prems by simp
  have ready: "message_ready env server p" using Cons.prems by simp
  show ?case
  proof (cases "revents p AND POLLIN = 0")
    case True
    then have "quiet ((us @ p # ps) ! length us)" using ready by (simp add: quiet_def message_ready_def)
    from poll_scan_step [OF _ poll_event_quiet [OF this], of env server w] True IH show ?thesis
      by simp
  next
    case False
    then have step: "poll_event env server (length us) (us @ p # ps) w
        = rbind (env_notify env (pfd p) w) (\<lambda>(effs, w). Inr (us @ p # ps, map Sys_Net effs, w))"
      using ready by (simp add: poll_event_def message_ready_def Let_def not_le [symmetric])
    show ?thesis
    proof (cases "env_notify env (pfd p) w")
      case (Inl e)
      with step False show ?thesis by (simp add: poll_scan.simps [of env server "length us"])
    next
      case (Inr r)
      obtain effs w' where r: "r = (effs, w')" by (cases r)
      have "poll_scan env server (length us) (us @ p # ps) w
          = rbind (poll_scan env server (Suc (length us)) (us @ p # ps) w')
              (\<lambda>(fds'', calls', w''). Inr (fds'', map Sys_Net effs @ calls', w''))"
        by (rule poll_scan_step) (use step Inr r in simp_all)
      then show ?thesis unfolding IH using False Inr r by (cases "relay_all env ps w'") auto
    qed
  qed
qed

text \<open>A descriptor leaves the table only when it is closed.\<close>

lemma poll_event_closes:
  assumes "i < length fds" and "poll_event env server i fds w = Inr (fds', calls, w')"
    and "fd \<in> pfd ` set fds" and "fd \<notin> pfd ` set fds'"
  shows "Sys_Net (Close fd) \<in> set calls"
  using poll_event_fds [OF assms(1,2)] assms(3,4) by auto

lemma poll_scan_closes:
  "poll_scan env server i fds w = Inr (fds', calls, w') \<Longrightarrow> fd \<in> pfd ` set fds \<Longrightarrow> fd \<notin> pfd ` set fds' \<Longrightarrow>
     Sys_Net (Close fd) \<in> set calls"
proof (induction env server i fds w arbitrary: fds' calls w' rule: poll_scan.induct)
  case (1 env server i fds w)
  show ?case
  proof (cases "i < length fds")
    case True
    with "1.prems"(1) obtain fds1 calls1 w1 calls2
      where ev: "poll_event env server i fds w = Inr (fds1, calls1, w1)"
        and rest: "poll_scan env server (i + 1) fds1 w1 = Inr (fds', calls2, w')"
        and calls: "calls = calls1 @ calls2"
      by (subst (asm) poll_scan.simps) (auto simp: rbind_Inr_iff split: sum.splits prod.splits)
    show ?thesis
    proof (cases "fd \<in> pfd ` set fds1")
      case True
      with "1.IH" [OF \<open>i < length fds\<close> ev refl refl rest] "1.prems"(3) calls show ?thesis by simp
    next
      case False
      with poll_event_closes [OF \<open>i < length fds\<close> ev "1.prems"(2)] calls show ?thesis by simp
    qed
  next
    case False
    with "1.prems" show ?thesis by (simp add: poll_scan.simps)
  qed
qed

lemma poll_answer_fds [simp]: "pfd ` set (poll_answer rs fds) = pfd ` set fds"
proof -
  have "map pfd (poll_answer rs fds) = map pfd fds"
    by (rule nth_equalityI) (simp_all add: poll_answer_def)
  then show ?thesis by (metis set_map)
qed

lemma loop_closes:
  "accept_and_process_message env answers h w = Inr (h', calls, w') \<Longrightarrow>
     fd \<in> pfd ` set (poll_fds h) \<Longrightarrow> fd \<notin> pfd ` set (poll_fds h') \<Longrightarrow> Sys_Net (Close fd) \<in> set calls"
proof (induction answers arbitrary: h w calls)
  case Nil
  then show ?case by auto
next
  case (Cons a answers)
  show ?case
  proof (cases "run h \<and> a \<noteq> None")
    case True
    then obtain rs where a: "a = Some rs" and run: "\<not> \<not> run h" by auto
    from Cons.prems(1) a run obtain fds1 calls1 w1 calls2
      where scan: "poll_scan env (server_fd h) 0 (poll_answer rs (poll_fds h)) w = Inr (fds1, calls1, w1)"
        and rest: "accept_and_process_message env answers (h\<lparr>poll_fds := fds1\<rparr>) w1 = Inr (h', calls2, w')"
        and calls: "calls = calls1 @ calls2"
      by (auto simp: rbind_Inr_iff)
    show ?thesis
    proof (cases "fd \<in> pfd ` set fds1")
      case True
      with Cons.IH [OF rest] Cons.prems(3) calls show ?thesis by simp
    next
      case False
      with poll_scan_closes [OF scan, of fd] Cons.prems(2) calls show ?thesis by simp
    qed
  qed (use Cons.prems in \<open>auto split: if_splits\<close>)
qed

section \<open>Properties\<close>

text \<open>
  A round without hang-ups and new connections serves every ready descriptor exactly once, in
  the order of the table, and leaves the table as it is.
\<close>

theorem round_serves_all:
  assumes "\<forall>p \<in> set fds. message_ready env server p"
  shows "poll_scan env server 0 fds w
    = rbind (relay_all env fds w) (\<lambda>(effs, w'). Inr (fds, map Sys_Net effs, w'))"
  using poll_scan_messages [OF assms, of "[]" w] by simp

definition echo_env :: "nat poll_env" where
  "echo_env = \<lparr>env_accept = (\<lambda>n. (int n, Suc n)), env_peek = (\<lambda>fd n. 1), env_getfl = (\<lambda>fd n. 2),
     env_connection = Some (\<lambda>fd n. Inr ([Close fd], n)), env_notify = (\<lambda>fd n. Inr ([Send fd []], n))\<rparr>"

theorem round_serves_all_witness:
  "poll_scan echo_env 3 0 [\<lparr>pfd = 3, events = 1, revents = 0\<rparr>, \<lparr>pfd = 5, events = 1, revents = 1\<rparr>,
      \<lparr>pfd = 6, events = 1, revents = 1\<rparr>] 0
    = Inr ([\<lparr>pfd = 3, events = 1, revents = 0\<rparr>, \<lparr>pfd = 5, events = 1, revents = 1\<rparr>,
      \<lparr>pfd = 6, events = 1, revents = 1\<rparr>], [Sys_Net (Send 5 []), Sys_Net (Send 6 [])], 0)"
  by (subst round_serves_all)
    (simp_all add: message_ready_def echo_env_def POLLIN_def POLLOUT_def POLLHUP_def)

text \<open>
  C14: No descriptor is forgotten: over any run of the event loop, whatever the system answers, a
  descriptor that is no longer in the table has been closed.
\<close>

theorem no_descriptor_lost:
  assumes "accept_and_process_message env answers h w = Inr (h', calls, w')"
    and "fd \<in> pfd ` set (poll_fds h)" and "fd \<notin> pfd ` set (poll_fds h')"
  shows "Sys_Net (Close fd) \<in> set calls"
  by (rule loop_closes [OF assms])

theorem no_descriptor_lost_witness:
  "\<exists>h' calls. accept_and_process_message echo_env [Some (\<lambda>k. 16), None]
        \<lparr>server_fd = 3, port = 9000, run = True, poll_fds = [\<lparr>pfd = 5, events = 1, revents = 0\<rparr>]\<rparr> 0 = Inr (h', calls, 0)
      \<and> poll_fds h' = [] \<and> Sys_Net (Close 5) \<in> set calls"
proof -
  let ?h = "\<lparr>server_fd = 3, port = 9000, run = True, poll_fds = [\<lparr>pfd = 5, events = 1, revents = 0\<rparr>]\<rparr>"
  have "accept_and_process_message echo_env [Some (\<lambda>k. 16), None] ?h 0
      = Inr (?h\<lparr>poll_fds := []\<rparr>, [Sys_Net (Close 5)], 0)"
    by (simp add: poll_answer_def poll_scan.simps poll_event_def POLLHUP_def)
  with no_descriptor_lost [OF this, of 5] show ?thesis by simp
qed

text \<open>
  A hang-up erases its entry while the index moves on, so that the entry behind it, whatever
  has happened to it, is not looked at in this round.
\<close>

theorem hangup_skips_next:
  assumes "\<forall>x \<in> set xs. quiet x" and "\<forall>y \<in> set ys. quiet y"
    and "revents p AND POLLHUP \<noteq> 0" and "pfd p \<notin> pfd ` set xs"
  shows "poll_scan env server 0 (xs @ p # q # ys) w = Inr (xs @ q # ys, [Sys_Net (Close (pfd p))], w)"
proof -
  have "poll_scan env server 0 (xs @ p # q # ys) w = poll_scan env server (length xs) (xs @ p # q # ys) w"
    using poll_scan_skip [of xs env server "[]" "p # q # ys" w] assms(1) by simp
  also have "poll_event env server (length xs) (xs @ p # q # ys) w = Inr (xs @ q # ys, [Sys_Net (Close (pfd p))], w)"
    using assms(3) remove_socket_first [OF assms(4), of p "q # ys"] by (simp add: poll_event_def Let_def)
  from poll_scan_step [OF _ this]
  have "poll_scan env server (length xs) (xs @ p # q # ys) w
      = rbind (poll_scan env server (length (xs @ [q])) ((xs @ [q]) @ ys) w)
          (\<lambda>(fds'', calls', w''). Inr (fds'', [Sys_Net (Close (pfd p))] @ calls', w''))"
    by simp
  also have "\<dots> = Inr (xs @ q # ys, [Sys_Net (Close (pfd p))], w)"
    using poll_scan_quiet [OF assms(2), of env server "xs @ [q]" w] by simp
  finally show ?thesis .
qed

theorem hangup_skips_next_witness:
  "poll_scan echo_env 3 0 [\<lparr>pfd = 5, events = 1, revents = 16\<rparr>, \<lparr>pfd = 6, events = 1, revents = 1\<rparr>] 0
    = Inr ([\<lparr>pfd = 6, events = 1, revents = 1\<rparr>], [Sys_Net (Close 5)], 0)"
  using hangup_skips_next [of "[]" "[]" "\<lparr>pfd = 5, events = 1, revents = 16\<rparr>" echo_env 3
      "\<lparr>pfd = 6, events = 1, revents = 1\<rparr>" 0]
  by (simp add: POLLHUP_def)

text \<open>
  An accepted connection is watched for ever after, also when its handler has closed it: the
  entry is appended before the handler runs and nothing takes it out, and a later answer POLLNVAL
  for the closed descriptor changes nothing.
\<close>

theorem accepted_stays:
  assumes "pfd p = server" and "revents p AND POLLHUP = 0" and "revents p AND POLLOUT = 0"
    and "revents p AND POLLIN \<noteq> 0" and "\<forall>y \<in> set ys. quiet y"
    and "env_accept env w = (c, w1)" and "handle_incomming_connection env c w1 = Inr (effs, w2)"
  shows "poll_scan env server 0 (p # ys) w
      = Inr (p # ys @ [\<lparr>pfd = c, events = POLLIN, revents = 0\<rparr>],
             [Sys_Accept server, Sys_Set_Nonblocking c] @ map Sys_Net effs, w2)
      \<and> poll_scan env server 0 (poll_answer (\<lambda>k. POLLNVAL) fds) w2
      = Inr (poll_answer (\<lambda>k. POLLNVAL) fds, [], w2)"
proof (rule conjI)
  let ?new = "\<lparr>pfd = c, events = POLLIN, revents = 0\<rparr>"
  have "poll_event env server 0 (p # ys) w
      = Inr (p # ys @ [?new], [Sys_Accept server, Sys_Set_Nonblocking c] @ map Sys_Net effs, w2)"
    using assms by (simp add: poll_event_def Let_def)
  from poll_scan_step [OF _ this]
  have "poll_scan env server 0 (p # ys) w
      = rbind (poll_scan env server (length [p]) ([p] @ (ys @ [?new])) w2)
          (\<lambda>(fds'', calls', w''). Inr (fds'', ([Sys_Accept server, Sys_Set_Nonblocking c] @ map Sys_Net effs) @ calls', w''))"
    by simp
  also have "poll_scan env server (length [p]) ([p] @ (ys @ [?new])) w2 = Inr ([p] @ (ys @ [?new]), [], w2)"
    by (rule poll_scan_quiet) (use assms(5) in \<open>auto intro: quiet_zero\<close>)
  finally show "poll_scan env server 0 (p # ys) w
      = Inr (p # ys @ [?new], [Sys_Accept server, Sys_Set_Nonblocking c] @ map Sys_Net effs, w2)"
    by simp
  have "\<forall>p \<in> set (poll_answer (\<lambda>k. POLLNVAL) fds). quiet p"
    by (auto simp: poll_answer_def intro: quiet_nval)
  from poll_scan_quiet [OF this, of env server "[]" w2]
  show "poll_scan env server 0 (poll_answer (\<lambda>k. POLLNVAL) fds) w2
      = Inr (poll_answer (\<lambda>k. POLLNVAL) fds, [], w2)" by simp
qed

theorem accepted_stays_witness:
  "poll_scan echo_env 3 0 [\<lparr>pfd = 3, events = 1, revents = 1\<rparr>] 7
    = Inr ([\<lparr>pfd = 3, events = 1, revents = 1\<rparr>, \<lparr>pfd = 7, events = 1, revents = 0\<rparr>],
           [Sys_Accept 3, Sys_Set_Nonblocking 7, Sys_Net (Close 7)], 8)"
  using accepted_stays [of "\<lparr>pfd = 3, events = 1, revents = 1\<rparr>" 3 "[]" echo_env 7 7 8 "[Close 7]" 8 "[]"]
  by (simp add: echo_env_def handle_incomming_connection_def POLLIN_def POLLOUT_def POLLHUP_def)

text \<open>A peer that has closed its side: the descriptor is closed twice.\<close>

lemma disconnect_closes_twice:
  assumes "revents p AND POLLHUP = 0" and "revents p AND POLLOUT = 0" and "revents p AND POLLIN \<noteq> 0"
    and "pfd p \<noteq> server" and "env_peek env (pfd p) w \<le> 0" and "env_getfl env (pfd p) w \<noteq> -1"
  shows "poll_event env server 0 (p # ys) w = Inr (ys, [Sys_Net (Close (pfd p)), Sys_Net (Close (pfd p))], w)"
  using assms by (simp add: poll_event_def Let_def)

end
