(* ===== verification/Http_Response.thy ===== *)
theory Http_Response
  imports Cpp_Map Codec
begin

text \<open>
  Responses: the enumerations of includes/http_handler.h, the class \<open>http_response\<close> and the free
  functions of src/http_handler.cpp that turn a response into text, with the file access of
  includes/io_utils.h that fills its body. The file system is an argument: \<open>fs path\<close> is the content
  of a file that can be opened, \<open>dirs path\<close> the entries of a directory that can be opened.
\<close>

section \<open>Status codes\<close>

text \<open>
  \<open>Other_Code n\<close> is an \<open>http_response_code\<close> that holds the number of no enumerator: an object
  whose \<open>status_code\<close> was never assigned may hold any.
\<close>

datatype http_response_code =
    Continue | SwitchingProtocols
  | OK | Created | Accepted
  | MovedPermanently | Found | SeeOther
  | BadRequest | Unauthorized | Forbidden | NotFound
  | InternalServerError | NotImplemented
  | Other_Code int

fun code_value :: "http_response_code \<Rightarrow> int" where
  "code_value Continue = 100"
| "code_value SwitchingProtocols = 101"
| "code_value OK = 200"
| "code_value Created = 201"
| "code_value Accepted = 202"
| "code_value MovedPermanently = 301"
| "code_value Found = 302"
| "code_value SeeOther = 303"
| "code_value BadRequest = 400"
| "code_value Unauthorized = 401"
| "code_value Forbidden = 403"
| "code_value NotFound = 404"
| "code_value InternalServerError = 500"
| "code_value NotImplemented = 501"
| "code_value (Other_Code n) = n"

definition strBuilder :: "int \<Rightarrow> string \<Rightarrow> string" where
  "strBuilder n s = int_to_string n @ '' '' @ s @ CRLF"

fun http_response_code_to_string :: "http_response_code \<Rightarrow> string" where
  "http_response_code_to_string Continue = strBuilder (code_value Continue) ''Continue''"
| "http_response_code_to_string SwitchingProtocols = strBuilder (code_value SwitchingProtocols) ''Switching Protocols''"
| "http_response_code_to_string OK = strBuilder (code_value OK) ''OK''"
| "http_response_code_to_string Created = strBuilder (code_value Created) ''Created''"
| "http_response_code_to_string Accepted = strBuilder (code_value Accepted) ''Accepted''"
| "http_response_code_to_string MovedPermanently = strBuilder (code_value MovedPermanently) ''Moved Permanently''"
| "http_response_code_to_string Found = strBuilder (code_value Found) ''Found''"
| "http_response_code_to_string SeeOther = strBuilder (code_value SeeOther) ''See Other''"
| "http_response_code_to_string BadRequest = strBuilder (code_value BadRequest) ''Bad Request''"
| "http_response_code_to_string Unauthorized = strBuilder (code_value Unauthorized) ''Unauthorized''"
| "http_response_code_to_string Forbidden = strBuilder (code_value Forbidden) ''OK''"
| "http_response_code_to_string NotFound = strBuilder (code_value NotFound) ''Not Found''"
| "http_response_code_to_string InternalServerError = strBuilder (code_value InternalServerError) ''Internal Server Error''"
| "http_response_code_to_string NotImplemented = strBuilder (code_value NotImplemented) ''Not Implemented''"
| "http_response_code_to_string (Other_Code _) = strBuilder (code_value OK) ''OK''"

section \<open>Content types\<close>

datatype http_content_type =
    text_html | text_plain | text_css | application_javascript | application_json
  | application_xml | multipart_form_data | application_octet_stream | image_png | image_jpeg
  | uknown

definition contentTypeMap :: "(http_content_type \<times> string) list" where
  "contentTypeMap =
     [(text_html, ''text/html''), (text_plain, ''text/plain''),
      (application_json, ''application/json''), (application_xml, ''application/xml''),
      (multipart_form_data, ''multipart/form-data''),
      (application_octet_stream, ''application/octet-stream''),
      (image_png, ''image/png''), (image_jpeg, ''image/jpeg''), (text_css, ''text/css''),
      (application_javascript, ''application/javascript''), (uknown, ''unknown'')]"

definition content_type_to_string :: "http_content_type \<Rightarrow> string" where
  "content_type_to_string type =
     (case map_of contentTypeMap type of Some s \<Rightarrow> s | None \<Rightarrow> ''unknown'')"

section \<open>The text of a response\<close>

definition http_headers_to_response_string :: "string umap \<Rightarrow> string" where
  "http_headers_to_response_string headers =
     concat (map (\<lambda>(k, v). k @ '': '' @ v @ CRLF) headers)"

definition build_http_response :: "string umap \<Rightarrow> string \<Rightarrow> http_response_code \<Rightarrow> string" where
  "build_http_response headers body statusCode =
     (let response = ''HTTP/1.1 '' @ http_response_code_to_string statusCode;
          response = response @ http_headers_to_response_string headers;
          bodySize = int_of_size (Some (length body))
      in if bodySize > 0
         then (if umap_find headers ''Content-Length'' = None
               then response @ ''Content-Length: '' @ int_to_string bodySize @ CRLF @ CRLF @ body
               else response @ CRLF @ body)
         else response)"

definition default_400_msg :: string where
  "default_400_msg =
     ''HTTP/1.1 400 Bad Request'' @ CRLF @
     ''Server: SimpleServer/1.0'' @ CRLF @
     ''Content-Type: text/html; charset=UTF-8'' @ CRLF @
     ''Content-Length: 129'' @ CRLF @
     ''Connection: close'' @ CRLF @ CRLF @
     ''<html>'' @ ''<head><title>400 Bad Request</title></head>'' @ ''<body>'' @
     ''<h1>400 Bad Request</h1>'' @
     ''<p>Your request could not be understood by the server due to malformed syntax.</p>'' @
     ''</body>'' @ ''</html>''"

definition default_500_msg :: string where
  "default_500_msg =
     ''HTTP/1.1 500 Not Found'' @ CRLF @
     ''Server: SimpleServer/1.0'' @ CRLF @
     ''Connection: close'' @ CRLF @ CRLF"

section \<open>Files\<close>

type_synonym file_system = "string \<Rightarrow> string option"
type_synonym directories = "string \<Rightarrow> string list option"

text \<open>\<open>while (getline(stream, line)) content << line << "\n"\<close>.\<close>

function copy_lines :: "string \<Rightarrow> string" where
  "copy_lines s = (case getline s of None \<Rightarrow> [] | Some (line, rest) \<Rightarrow> line @ LF # copy_lines rest)"
  by pat_completeness auto
termination
  by (relation "measure length") (auto dest: getline_shorter)

declare copy_lines.simps [simp del]

definition read_text_file :: "file_system \<Rightarrow> string \<Rightarrow> string" where
  "read_text_file fs src = (case fs (c_str src) of None \<Rightarrow> [] | Some content \<Rightarrow> copy_lines content)"

text \<open>
  \<open>list_dir\<close>: for every entry but \<open>.\<close> and \<open>..\<close> a \<open>std::string\<close> object is passed to \<open>snprintf\<close> for
  \<open>%s\<close>, which C++ leaves undefined; the result of \<open>stat\<close> does not matter.
\<close>

definition list_dir :: "directories \<Rightarrow> string \<Rightarrow> string list result" where
  "list_dir dirs path =
     (case dirs (c_str path) of
        None \<Rightarrow> Inr [path]
      | Some entries \<Rightarrow>
          if \<exists>e \<in> set entries. e \<noteq> ''.'' \<and> e \<noteq> ''..'' then Inl Undefined_Behaviour else Inr [])"

section \<open>The class http_response\<close>

record http_response =
  close_fd :: bool
  home_path :: string
  res_headers :: "string umap"
  res_body :: string
  status_code :: http_response_code
  raw_response :: string

text \<open>\<open>http_response()\<close> leaves \<open>status_code\<close> as it is found in memory.\<close>

definition http_response_new :: "http_response_code \<Rightarrow> http_response" where
  "http_response_new junk =
     \<lparr>close_fd = True, home_path = ''/var'', res_headers = [], res_body = [],
      status_code = junk, raw_response = []\<rparr>"

definition response_text :: "http_response \<Rightarrow> string" where
  "response_text r = build_http_response (res_headers r) (res_body r) (status_code r)"

definition set_content_type :: "http_content_type \<Rightarrow> http_response \<Rightarrow> http_response" where
  "set_content_type type r =
     r\<lparr>res_headers := umap_set ''Content-Type'' (content_type_to_string type) (res_headers r)\<rparr>"

definition set_body :: "string \<Rightarrow> http_response \<Rightarrow> http_response" where
  "set_body b r =
     r\<lparr>res_headers := umap_set ''Content-Length'' (nat_to_string (length b)) (res_headers r),
       res_body := b\<rparr>"

definition set_home_path :: "string \<Rightarrow> http_response \<Rightarrow> http_response" where
  "set_home_path p r = r\<lparr>home_path := p\<rparr>"

definition get_home_path :: "http_response \<Rightarrow> string" where
  "get_home_path r = home_path r"

definition render_text_file ::
  "file_system \<Rightarrow> directories \<Rightarrow> string \<Rightarrow> http_response \<Rightarrow> http_response result" where
  "render_text_file fs dirs filename r =
     (let fi = read_text_file fs filename in
      if fi = [] then
        rbind (list_dir dirs filename) (\<lambda>directories.
          let fi = (if length directories > 0 then fi @ concat (map (\<lambda>it. it @ CRLF) directories)
                    else ''file could not be opened.'')
          in Inr (r\<lparr>res_body := fi\<rparr>))
      else Inr (r\<lparr>res_body := fi\<rparr>))"

definition render_html_file ::
  "file_system \<Rightarrow> directories \<Rightarrow> string \<Rightarrow> http_response \<Rightarrow> http_response result" where
  "render_html_file fs dirs filename r = render_text_file fs dirs filename (set_content_type text_html r)"

section \<open>Lines of a message\<close>

text \<open>A line: not empty, no carriage return and no newline.\<close>

definition clean :: "string \<Rightarrow> bool" where
  "clean s \<longleftrightarrow> CR \<notin> set s \<and> LF \<notin> set s"

definition clean_headers :: "string umap \<Rightarrow> bool" where
  "clean_headers hs \<longleftrightarrow> (\<forall>(k, v) \<in> set hs. clean k \<and> clean v)"

definition lines_text :: "string list \<Rightarrow> string" where
  "lines_text ls = concat (map (\<lambda>l. l @ CRLF) ls)"

definition header_line :: "string \<times> string \<Rightarrow> string" where
  "header_line kv = fst kv @ '': '' @ snd kv"

lemma headers_string_lines: "http_headers_to_response_string hs = lines_text (map header_line hs)"
  by (induction hs) (auto simp: http_headers_to_response_string_def lines_text_def header_line_def)

lemma str_find_crlf:
  "\<not> prefix [CR, LF] t \<Longrightarrow>
     str_find [CR, LF, CR, LF] (CR # LF # t) = map_option (\<lambda>i. i + 2) (str_find [CR, LF, CR, LF] t)"
  by (cases "str_find [CR, LF, CR, LF] t") simp_all

lemma str_find_blank_line:
  assumes "\<forall>l \<in> set ls. l \<noteq> [] \<and> clean l" and "ls \<noteq> []"
  shows "str_find (CRLF @ CRLF) (lines_text ls @ CRLF @ rest) = Some (length (lines_text ls) - 2)"
  using assms
proof (induction ls)
  case (Cons l ls)
  let ?pat = "[CR, LF, CR, LF]"
  have l: "CR \<notin> set l" using Cons.prems by (simp add: clean_def)
  show ?case
  proof (cases ls)
    case Nil
    then show ?thesis using str_find_skip [OF l, of "[LF, CR, LF]"] by (simp add: lines_text_def)
  next
    case (Cons l' ls')
    then obtain c cs where tail: "lines_text ls @ CRLF @ rest = c # cs" and c: "c \<noteq> CR"
      using Cons.prems(1) by (cases l') (auto simp: lines_text_def clean_def)
    have IH: "str_find ?pat (c # cs) = Some (length (lines_text ls) - 2)"
      using Cons.IH Cons.prems(1) Cons tail by simp
    have "2 \<le> length (lines_text ls)" using Cons by (simp add: lines_text_def)
    moreover have "str_find ?pat (CR # LF # c # cs) = Some (length (lines_text ls) - 2 + 2)"
      using c by (subst str_find_crlf) (simp_all only: IH option.map, simp)
    moreover have "lines_text (l # ls) @ CRLF @ rest = l @ CR # LF # c # cs"
      using tail by (simp add: lines_text_def)
    ultimately show ?thesis
      using str_find_skip [OF l, of "[LF, CR, LF]" "CR # LF # c # cs"] by (simp add: lines_text_def del: str_find.simps)
  qed
qed simp

lemma digit_string_clean: "clean (nat_to_string n)"
  using nat_to_string_digits [of n] by (auto simp: clean_def is_digit_def)

lemma int_string_clean: "clean (int_to_string i)"
  using digit_string_clean by (auto simp: int_to_string_def clean_def)

text \<open>The status line.\<close>

definition reason :: "http_response_code \<Rightarrow> string" where
  "reason c = (let s = http_response_code_to_string c in take (length s - 2) s)"

lemma code_string: "http_response_code_to_string c = reason c @ CRLF"
  by (cases c) (simp_all add: reason_def strBuilder_def)

lemma reason_clean: "clean (reason c)"
  by (cases c) (auto simp: reason_def strBuilder_def clean_def int_to_string_def
      dest: nat_to_string_digits [rule_format] simp: is_digit_def)

lemma header_line_clean: "clean (fst kv) \<Longrightarrow> clean (snd kv) \<Longrightarrow> header_line kv \<noteq> [] \<and> clean (header_line kv)"
  by (auto simp: header_line_def clean_def)

section \<open>Framing\<close>

text \<open>The header fields that are sent with a body of \<open>n\<close> bytes, and the lines of the head.\<close>

definition sent_headers :: "string umap \<Rightarrow> nat \<Rightarrow> (string \<times> string) list" where
  "sent_headers hs n =
     hs @ (if umap_find hs ''Content-Length'' = None then [(''Content-Length'', nat_to_string n)] else [])"

definition head_lines :: "http_response_code \<Rightarrow> (string \<times> string) list \<Rightarrow> string list" where
  "head_lines c hs = (''HTTP/1.1 '' @ reason c) # map header_line hs"

lemma head_lines_clean:
  assumes "\<forall>(k, v) \<in> set hs. clean k \<and> clean v"
  shows "\<forall>l \<in> set (head_lines c hs). l \<noteq> [] \<and> clean l"
proof -
  have "clean (''HTTP/1.1 '' @ reason c)" using reason_clean [of c] by (simp add: clean_def)
  moreover have "\<forall>l \<in> set (map header_line hs). l \<noteq> [] \<and> clean l"
    using assms header_line_clean by fastforce
  ultimately show ?thesis by (auto simp: head_lines_def)
qed

lemma sent_headers_clean:
  "clean_headers hs \<Longrightarrow> \<forall>(k, v) \<in> set (sent_headers hs n). clean k \<and> clean v"
  using digit_string_clean [of n] by (auto simp: sent_headers_def clean_headers_def clean_def)

lemma build_http_response_lines:
  assumes "0 < length body" and "length body < 2 ^ 31"
  shows "build_http_response hs body c
    = lines_text (head_lines c (sent_headers hs (length body))) @ CRLF @ body"
  using assms
  by (simp add: build_http_response_def Let_def code_string headers_string_lines lines_text_def
      head_lines_def sent_headers_def header_line_def int_to_string_def)

lemma build_http_response_empty:
  "build_http_response hs [] c = lines_text (head_lines c hs)"
  by (simp add: build_http_response_def Let_def code_string headers_string_lines lines_text_def
      head_lines_def)

lemma one_content_length:
  "umap_ok hs \<Longrightarrow> length (filter (\<lambda>kv. fst kv = ''Content-Length'') (sent_headers hs n)) = 1"
proof (cases "umap_find hs ''Content-Length''")
  case None
  then have "\<forall>kv \<in> set hs. fst kv \<noteq> ''Content-Length''"
    by (force simp: umap_find_def map_of_eq_None_iff)
  then have "filter (\<lambda>kv. fst kv = ''Content-Length'') hs = []" by (simp add: filter_empty_conv)
  with None show ?thesis by (simp add: sent_headers_def)
next
  case (Some v)
  moreover assume "umap_ok hs"
  ultimately have "length (filter (\<lambda>kv. fst kv = ''Content-Length'') hs) = 1"
  proof (induction hs)
    case (Cons kv hs)
    obtain k w where kv: "kv = (k, w)" by (cases kv)
    show ?case
    proof (cases "k = ''Content-Length''")
      case True
      with Cons.prems kv have "''Content-Length'' \<notin> fst ` set hs" by (simp add: umap_ok_def)
      then have "\<forall>kv \<in> set hs. fst kv \<noteq> ''Content-Length''" by (metis image_eqI)
      then have "filter (\<lambda>kv. fst kv = ''Content-Length'') hs = []" by (simp add: filter_empty_conv)
      with True kv show ?thesis by simp
    next
      case False
      with Cons kv show ?thesis by (simp add: umap_find_def umap_ok_def)
    qed
  qed simp
  with Some show ?thesis by (simp add: sent_headers_def)
qed

lemma no_blank_line:
  "\<forall>l \<in> set ls. l \<noteq> [] \<and> clean l \<Longrightarrow> str_find (CRLF @ CRLF) (lines_text ls) = None"
proof (induction ls)
  case Nil
  then show ?case by (simp add: lines_text_def)
next
  case (Cons l ls)
  then have l: "CR \<notin> set l" by (simp add: clean_def)
  have "\<not> prefix [CR, LF] (lines_text ls)"
  proof (cases ls)
    case (Cons l' ls')
    with Cons.prems show ?thesis by (cases l') (auto simp: lines_text_def clean_def)
  qed (simp add: lines_text_def)
  moreover have "lines_text (l # ls) = l @ CR # LF # lines_text ls" by (simp add: lines_text_def)
  ultimately show ?case
    using Cons str_find_skip [OF l, of "[LF, CR, LF]" "CR # LF # lines_text ls"]
    by (simp del: str_find.simps add: str_find_crlf)
qed

text \<open>
  A response with a body is framed as HTTP demands: the status line, the header fields, one
  and only one Content-Length among them, an empty line, the body; and the first empty line of
  the text is this one, so that a client finds the body exactly. The header fields must be free
  of line breaks, and the body shorter than \<open>2 ^ 31\<close>.
\<close>

theorem response_framing:
  assumes "umap_ok hs" and "clean_headers hs" and "0 < length body" and "length body < 2 ^ 31"
  shows "build_http_response hs body c
           = lines_text (head_lines c (sent_headers hs (length body))) @ CRLF @ body
    \<and> str_find (CRLF @ CRLF) (build_http_response hs body c)
           = Some (length (lines_text (head_lines c (sent_headers hs (length body)))) - 2)
    \<and> length (filter (\<lambda>kv. fst kv = ''Content-Length'') (sent_headers hs (length body))) = 1"
proof -
  have "\<forall>l \<in> set (head_lines c (sent_headers hs (length body))). l \<noteq> [] \<and> clean l"
    by (rule head_lines_clean) (rule sent_headers_clean [OF assms(2)])
  moreover have "head_lines c (sent_headers hs (length body)) \<noteq> []" by (simp add: head_lines_def)
  ultimately show ?thesis
    unfolding build_http_response_lines [OF assms(3,4)]
    using one_content_length [OF assms(1)] str_find_blank_line by blast
qed

theorem response_framing_witness:
  "build_http_response [(''X-Id'', ''7'')] ''hello'' NotFound
     = ''HTTP/1.1 404 Not Found'' @ CRLF @ ''X-Id: 7'' @ CRLF @ ''Content-Length: 5'' @ CRLF @ CRLF @ ''hello''"
proof -
  have "reason NotFound = ''404 Not Found''" by code_simp
  moreover have "nat_to_string (Suc (Suc (Suc (Suc (Suc 0))))) = ''5''" by code_simp
  ultimately show ?thesis
    using response_framing [of "[(''X-Id'', ''7'')]" "''hello''" NotFound]
    by (simp add: umap_ok_def clean_headers_def clean_def lines_text_def head_lines_def
        sent_headers_def umap_find_def header_line_def)
qed

text \<open>
  The Content-Length that set_body stores is the length of the body it stores, whatever the
  response held before, and it is the one the response is sent with.
\<close>

theorem set_body_length:
  assumes "umap_ok (res_headers r)"
  shows "umap_ok (res_headers (set_body b r))
    \<and> map_option string_to_nat (umap_find (res_headers (set_body b r)) ''Content-Length'')
        = Some (length (res_body (set_body b r)))
    \<and> sent_headers (res_headers (set_body b r)) (length b) = res_headers (set_body b r)
    \<and> (\<forall>k. k \<noteq> ''Content-Length'' \<longrightarrow>
          umap_find (res_headers (set_body b r)) k = umap_find (res_headers r) k)"
  using assms by (simp add: set_body_def sent_headers_def)

theorem set_body_length_witness:
  "map_option string_to_nat (umap_find (res_headers (set_body ''abc'' (http_response_new OK))) ''Content-Length'')
     = Some 3"
  using set_body_length [of "http_response_new OK" "''abc''"]
  by (simp add: http_response_new_def set_body_def)

text \<open>
  A response without a body never ends its header block: the text has no empty line, so that
  a client waits for more header fields.
\<close>

theorem empty_body_unterminated:
  assumes "clean_headers hs"
  shows "\<not> contains (build_http_response hs [] c) (CRLF @ CRLF)"
  using no_blank_line [OF head_lines_clean, of hs c] assms
  by (simp add: contains_def build_http_response_empty clean_headers_def)

theorem empty_body_unterminated_witness:
  "\<not> contains (build_http_response [(''Server'', ''s'')] [] OK) (CRLF @ CRLF)"
  by (rule empty_body_unterminated) (simp add: clean_headers_def clean_def)

text \<open>A body whose length does not fit an \<open>int\<close> is left out of the response.\<close>

lemma long_body_dropped:
  assumes "2 ^ 31 \<le> length body" and "length body < 2 ^ 32"
  shows "build_http_response hs body c = build_http_response hs [] c"
proof -
  let ?w = "word_of_nat (length body) :: u32"
  have "unat ?w = length body" using assms(2) by (simp add: unat_of_nat take_bit_nat_eq_self_iff)
  then have "uint ?w = int (length body)" by (simp add: uint_nat)
  then have "sint ?w = take_bit 32 (int (length body) + 2 ^ 31) - 2 ^ 31"
    by (simp add: sint_uint signed_take_bit_eq_take_bit_shift)
  also have "take_bit 32 (int (length body) + 2 ^ 31) = (int (length body) - 2 ^ 31 + 2 ^ 32) mod 2 ^ 32"
    by (simp add: take_bit_eq_mod add.commute)
  also have "\<dots> = int (length body) - 2 ^ 31"
    using assms by (subst mod_add_self2) (rule mod_pos_pos_trivial, simp_all)
  finally have "sint ?w = int (length body) - 2 ^ 32" by simp
  then have "int_of_size (Some (length body)) \<le> 0" using assms(2) by (simp add: int_of_size_def)
  then show ?thesis by (simp add: build_http_response_def Let_def)
qed

section \<open>Files in a response\<close>

lemma copy_lines_eq: "copy_lines s = (if s = [] \<or> last s = LF then s else s @ [LF])"
proof (induction s rule: copy_lines.induct)
  case (1 s)
  show ?case
  proof (cases "s = []")
    case True
    then show ?thesis by (simp add: copy_lines.simps getline_def)
  next
    case False
    obtain l d where ld: "takeWhile (\<lambda>c. c \<noteq> LF) s = l" "dropWhile (\<lambda>c. c \<noteq> LF) s = d" by blast
    then have s: "s = l @ d" by (metis takeWhile_dropWhile_id)
    have g: "getline s = Some (l, drop 1 d)" using False ld by (simp add: getline_def)
    have IH: "copy_lines (drop 1 d) = (if drop 1 d = [] \<or> last (drop 1 d) = LF then drop 1 d else drop 1 d @ [LF])"
      by (rule 1 [OF g refl])
    have copy: "copy_lines s = l @ LF # copy_lines (drop 1 d)" by (simp add: copy_lines.simps [of s] g)
    show ?thesis
    proof (cases d)
      case Nil
      then have "LF \<notin> set s" using ld by (auto simp: dropWhile_eq_Nil_conv)
      then have "last s \<noteq> LF" using False by (metis last_in_set)
      with copy IH Nil s False show ?thesis by simp
    next
      case (Cons c cs)
      then have "c = LF" using ld hd_dropWhile [of "\<lambda>c. c \<noteq> LF" s] by simp
      with copy IH Cons s show ?thesis by auto
    qed
  qed
qed

text \<open>
  read_text_file returns the content of a file that can be opened, with a newline added when
  the last line has none, and the empty string for every other path.
\<close>

theorem read_text_file_correct:
  "read_text_file fs src =
     (case fs (c_str src) of None \<Rightarrow> []
      | Some content \<Rightarrow> if content = [] \<or> last content = LF then content else content @ [LF])"
  by (simp add: read_text_file_def copy_lines_eq split: option.split)

text \<open>
  The body that render_text_file stores: the text of the file when it is not empty; else the
  path itself when neither a file nor a directory can be opened there; a message for a directory
  without entries; and undefined behaviour for every other directory.
\<close>

theorem render_text_file_cases:
  "render_text_file fs dirs filename r =
     (let text = read_text_file fs filename in
      if text \<noteq> [] then Inr (r\<lparr>res_body := text\<rparr>)
      else case dirs (c_str filename) of
             None \<Rightarrow> Inr (r\<lparr>res_body := filename @ CRLF\<rparr>)
           | Some entries \<Rightarrow>
               if set entries \<subseteq> {''.'', ''..''}
               then Inr (r\<lparr>res_body := ''file could not be opened.''\<rparr>)
               else Inl Undefined_Behaviour)"
  by (auto simp: render_text_file_def list_dir_def Let_def split: option.splits)

text \<open>The Content-Length that the 400 page declares, and the length of its body.\<close>

lemma default_400_length:
  "str_find (CRLF @ CRLF) default_400_msg = Some 130 \<and> length default_400_msg = 130 + 4 + 175"
  unfolding default_400_msg_def by code_simp

lemma content_type_inj: "inj content_type_to_string"
proof (rule injI)
  fix x y assume "content_type_to_string x = content_type_to_string y"
  then show "x = y" by (cases x; cases y) (simp_all add: content_type_to_string_def contentTypeMap_def)
qed

end
