(* ===== verification/Http_Request.thy ===== *)
theory Http_Request
  imports Http_Response String_Utils
begin

text \<open>
  Requests: the functions of src/http_handler.cpp that take the verb, the URL, the header fields,
  the query parameters and the body out of the text of a request. Positions that the code keeps
  in an \<open>int\<close> go through \<open>int_of_size\<close> and \<open>size_of_int\<close>; an exception of \<open>substr\<close> and an access
  outside a vector are values of \<open>fault\<close>.
\<close>

section \<open>The definitions\<close>

datatype request_verb = Get | Post | Put | Delete | Options

text \<open>The result of a search passed as a length.\<close>

definition size_or_npos :: "nat option \<Rightarrow> nat" where
  "size_or_npos i = (case i of None \<Rightarrow> npos | Some n \<Rightarrow> n)"

definition extract_http_verb :: "string \<Rightarrow> string result" where
  "extract_http_verb request =
     substr request 0 (size_or_npos (find_first (\<lambda>c. c = SP) request))"

definition extract_url_with_query_params :: "string \<Rightarrow> string result" where
  "extract_url_with_query_params request =
     (let firstSpace = int_of_size (find_first (\<lambda>c. c = SP) request);
          findHttpVersion = int_of_size (str_find '' HTTP/1.1'' request)
      in substr request (size_of_int (firstSpace + 1)) (size_of_int (findHttpVersion - (firstSpace + 1))))"

definition extract_url :: "string \<Rightarrow> string result" where
  "extract_url request =
     (let firstSpace = int_of_size (find_first (\<lambda>c. c = SP) request);
          findHttpVersion = int_of_size (str_find '' HTTP/1.1'' request)
      in rbind (substr request (size_of_int (firstSpace + 1)) (size_of_int (findHttpVersion - (firstSpace + 1))))
           (\<lambda>url. if find_first (\<lambda>c. c = CHR ''?'') url \<noteq> None
                  then substr url 0 (size_or_npos (find_first (\<lambda>c. c = CHR ''?'') url))
                  else Inr url))"

text \<open>
  \<open>if (pos < str.size()) ; return " ";\<close>: the lone semicolon is the whole branch, so that the
  statements after the \<open>return\<close> are never reached.
\<close>

definition extract_body :: "string \<Rightarrow> string" where
  "extract_body str = '' ''"

text \<open>The five \<open>erase\<close> calls on a header value.\<close>

definition trim_value :: "string \<Rightarrow> string" where
  "trim_value v =
     (let v = erase_front v (find_first (\<lambda>c. c \<noteq> SP \<and> c \<noteq> TAB) v);
          v = erase_after v (find_last (\<lambda>c. c \<noteq> SP \<and> c \<noteq> TAB) v);
          v = erase_front v (find_first (\<lambda>c. c \<noteq> CR) v);
          v = erase_front v (find_first (\<lambda>c. c \<noteq> LF) v)
      in erase_after v (find_last (\<lambda>c. c \<noteq> CR \<and> c \<noteq> LF) v))"

function parse_headers_loop :: "string \<Rightarrow> string umap \<Rightarrow> string umap result" where
  "parse_headers_loop iss headers =
     (case getline iss of
        None \<Rightarrow> Inr headers
      | Some (line, iss') \<Rightarrow>
          if line = [] then Inr headers
          else case find_first (\<lambda>c. c = CHR '':'') line of
                 None \<Rightarrow> parse_headers_loop iss' headers
               | Some colonPos \<Rightarrow>
                   (case substr_from line (colonPos + 2) of
                      Inl e \<Rightarrow> Inl e
                    | Inr headerValue \<Rightarrow>
                        parse_headers_loop iss'
                          (umap_set (take colonPos line) (trim_value headerValue) headers)))"
  by pat_completeness auto
termination
  by (relation "measure (\<lambda>(iss, headers). length iss)") (auto dest: getline_shorter)

declare parse_headers_loop.simps [simp del]

definition parse_headers :: "string \<Rightarrow> string umap result" where
  "parse_headers request =
     (case getline request of
        None \<Rightarrow> Inr []
      | Some (_, iss) \<Rightarrow> parse_headers_loop iss [])"

text \<open>\<open>keyPairs[0]\<close> and \<open>keyPairs[1]\<close> are read without a check of the size of the vector.\<close>

fun parse_params_loop :: "string list \<Rightarrow> string umap \<Rightarrow> string umap result" where
  "parse_params_loop [] ret = Inr ret"
| "parse_params_loop (var # vars) ret =
     (case split_words var CHR ''='' of
        key # val # _ \<Rightarrow> parse_params_loop vars (umap_set key val ret)
      | _ \<Rightarrow> Inl Undefined_Behaviour)"

definition parse_url_params :: "string \<Rightarrow> string umap result" where
  "parse_url_params url =
     (case str_find ''?'' url of
        None \<Rightarrow> Inr []
      | Some pos \<Rightarrow>
          rbind (substr url (pos + 1) (length url - pos))
            (\<lambda>paramList. parse_params_loop (split_words paramList CHR '';'') []))"

definition parse_http_request_verb :: "string \<Rightarrow> request_verb" where
  "parse_http_request_verb buffer =
     (let testStr = to_lower_case buffer in
      if contains testStr ''get'' then Get
      else if contains testStr ''post'' then Post
      else if contains testStr ''put'' then Put
      else Get)"

section \<open>The request line\<close>

lemma extract_url_cut:
  "extract_url request =
     rbind (extract_url_with_query_params request) (\<lambda>url. Inr (takeWhile (\<lambda>c. c \<noteq> CHR ''?'') url))"
proof -
  have "(if find_first (\<lambda>c. c = CHR ''?'') url \<noteq> None
         then substr url 0 (size_or_npos (find_first (\<lambda>c. c = CHR ''?'') url)) else Inr url)
        = Inr (takeWhile (\<lambda>c. c \<noteq> CHR ''?'') url)" for url :: string
  proof (cases "find_first (\<lambda>c. c = CHR ''?'') url")
    case None
    then have "CHR ''?'' \<notin> set url" by (auto simp: find_first_None_iff)
    then have all: "takeWhile (\<lambda>c. c \<noteq> CHR ''?'') url = url" by auto
    show ?thesis unfolding all by (simp add: None)
  next
    case (Some i)
    then have "i < length url" "url ! i = CHR ''?''" "\<forall>j<i. url ! j \<noteq> CHR ''?''"
      by (simp_all add: find_first_Some_iff)
    then have "takeWhile (\<lambda>c. c \<noteq> CHR ''?'') url = take i url"
      by (intro takeWhile_eq_take_P_nth) auto
    with Some show ?thesis by (simp add: substr_def size_or_npos_def)
  qed
  then show ?thesis
    by (simp only: extract_url_def extract_url_with_query_params_def Let_def)
qed

lemma find_first_skip: "\<forall>c \<in> set u. \<not> P c \<Longrightarrow> P d \<Longrightarrow> find_first P (u @ d # s) = Some (length u)"
  by (induction u) auto

lemma extract_url_total:
  assumes "length request < 2 ^ 31"
  shows "\<exists>u. extract_url_with_query_params request = Inr u"
proof (cases "find_first (\<lambda>c. c = SP) request")
  case None
  then show ?thesis by (simp add: extract_url_with_query_params_def substr_def size_of_int_def)
next
  case (Some i)
  then have "i < length request" by (simp add: find_first_Some_iff)
  with Some assms show ?thesis
    by (simp add: extract_url_with_query_params_def substr_def nat_add_distrib)
qed

lemma request_line:
  assumes "SP \<notin> set verb" and "SP \<notin> set url" and "\<not> prefix ''HTTP/1.1'' (url @ '' HTTP/1.1'')"
    and len: "length verb + length url < 2 ^ 31 - 1"
  shows "extract_http_verb (verb @ SP # url @ '' HTTP/1.1'' @ rest) = Inr verb"
    and "extract_url_with_query_params (verb @ SP # url @ '' HTTP/1.1'' @ rest) = Inr url"
proof -
  let ?r = "verb @ SP # url @ '' HTTP/1.1'' @ rest"
  have sp: "find_first (\<lambda>c. c = SP) ?r = Some (length verb)"
    using assms(1) by (intro find_first_skip) auto
  have "\<not> prefix ''HTTP/1.1'' (url @ '' HTTP/1.1'' @ rest)"
  proof
    assume a: "prefix ''HTTP/1.1'' (url @ '' HTTP/1.1'' @ rest)"
    have "prefix (url @ '' HTTP/1.1'') (url @ '' HTTP/1.1'' @ rest)" by simp
    from prefix_length_prefix [OF a this] assms(3) show False by simp
  qed
  then have step: "str_find '' HTTP/1.1'' (SP # url @ '' HTTP/1.1'' @ rest) = Some (Suc (length url))"
    using str_find_skip [OF assms(2), of "''HTTP/1.1''" "'' HTTP/1.1'' @ rest"] by simp
  have ver: "str_find '' HTTP/1.1'' ?r = Some (Suc (length verb + length url))"
    using str_find_skip [OF assms(1), of "''HTTP/1.1''" "SP # url @ '' HTTP/1.1'' @ rest"]
    by (simp only: step) simp
  show "extract_http_verb ?r = Inr verb"
    unfolding extract_http_verb_def sp by (simp add: substr_def size_or_npos_def)
  show "extract_url_with_query_params ?r = Inr url"
    unfolding extract_url_with_query_params_def sp ver Let_def
    using len by (simp add: substr_def nat_add_distrib)
qed

section \<open>Header fields\<close>

text \<open>The lines of a text, and what the loop does with those before the first empty one.\<close>

function text_lines :: "string \<Rightarrow> string list" where
  "text_lines s = (case getline s of None \<Rightarrow> [] | Some (l, r) \<Rightarrow> l # text_lines r)"
  by pat_completeness auto
termination
  by (relation "measure length") (auto dest: getline_shorter)

declare text_lines.simps [simp del]

primrec header_fields :: "string list \<Rightarrow> string umap \<Rightarrow> string umap result" where
  "header_fields [] hs = Inr hs"
| "header_fields (l # ls) hs =
     (case find_first (\<lambda>c. c = CHR '':'') l of
        None \<Rightarrow> header_fields ls hs
      | Some p \<Rightarrow>
          if p + 1 = length l then Inl Out_Of_Range
          else header_fields ls (umap_set (take p l) (trim_value (drop (p + 2) l)) hs))"

lemma parse_headers_loop_eq:
  "parse_headers_loop iss hs = header_fields (takeWhile (\<lambda>l. l \<noteq> []) (text_lines iss)) hs"
proof (induction iss hs rule: parse_headers_loop.induct)
  case (1 iss hs)
  show ?case
  proof (cases "getline iss")
    case None
    then show ?thesis by (simp add: parse_headers_loop.simps [of iss] text_lines.simps [of iss])
  next
    case (Some lr)
    obtain l r where lr: "lr = (l, r)" by (cases lr)
    show ?thesis
    proof (cases "find_first (\<lambda>c. c = CHR '':'') l")
      case None
      with 1(1) Some lr show ?thesis
        by (simp add: parse_headers_loop.simps [of iss] text_lines.simps [of iss])
    next
      case (Some p)
      then have p: "p < length l" by (simp add: find_first_Some_iff)
      show ?thesis
        using 1(2) [OF \<open>getline iss = Some lr\<close> lr [symmetric] _ Some, of "drop (p + 2) l"]
          \<open>getline iss = Some lr\<close> lr Some p
        by (auto simp add: parse_headers_loop.simps [of iss] text_lines.simps [of iss] substr_from_def
            not_less less_Suc_eq)
    qed
  qed
qed

lemma getline_line: "LF \<notin> set l \<Longrightarrow> getline (l @ LF # r) = Some (l, r)"
  by (simp add: getline_def takeWhile_append2 dropWhile_append2) (auto simp: takeWhile_append dropWhile_append)

lemma text_lines_line: "LF \<notin> set l \<Longrightarrow> text_lines (l @ LF # r) = l # text_lines r"
  by (simp add: text_lines.simps [of "l @ LF # r"] getline_line)

lemma text_lines_lines:
  "\<forall>l \<in> set ls. LF \<notin> set l \<Longrightarrow> text_lines (lines_text ls @ t) = map (\<lambda>l. l @ [CR]) ls @ text_lines t"
proof (induction ls)
  case (Cons l ls)
  then have "LF \<notin> set (l @ [CR])" by simp
  from text_lines_line [OF this, of "lines_text ls @ t"] Cons show ?case
    by (simp add: lines_text_def)
qed (simp add: lines_text_def)

text \<open>A header value that the loop keeps: no line break, no blank at either end.\<close>

definition plain_value :: "string \<Rightarrow> bool" where
  "plain_value v \<longleftrightarrow> clean v \<and> (v \<noteq> [] \<longrightarrow> hd v \<notin> {SP, TAB} \<and> last v \<notin> {SP, TAB})"

lemma trim_plain: "plain_value v \<Longrightarrow> trim_value (v @ [CR]) = v"
proof (cases "v = []")
  case True
  then show ?thesis by (simp add: trim_value_def erase_front_def)
next
  case False
  assume "plain_value v"
  with False obtain a v' where v: "v = a # v'" "a \<noteq> SP" "a \<noteq> TAB" "a \<noteq> CR" "a \<noteq> LF"
    by (cases v) (auto simp: plain_value_def clean_def)
  from False obtain u b where u: "v = u @ [b]" by (cases v rule: rev_cases) auto
  have b: "b \<noteq> CR" "b \<noteq> LF" using \<open>plain_value v\<close> u by (auto simp: plain_value_def clean_def)
  have stop: "rev (dropWhile (\<lambda>c. \<not> (c \<noteq> CR \<and> c \<noteq> LF)) (rev (v @ [CR]))) = v" using u b by simp
  have front: "dropWhile (\<lambda>c. \<not> (c \<noteq> SP \<and> c \<noteq> TAB)) (v @ [CR]) = v @ [CR]"
    "dropWhile (\<lambda>c. \<not> c \<noteq> CR) (v @ [CR]) = v @ [CR]"
    "dropWhile (\<lambda>c. \<not> c \<noteq> LF) (v @ [CR]) = v @ [CR]"
    "rev (dropWhile (\<lambda>c. \<not> (c \<noteq> SP \<and> c \<noteq> TAB)) (rev (v @ [CR]))) = v @ [CR]"
    using v by simp_all
  show ?thesis
    unfolding trim_value_def Let_def erase_front_find_first erase_after_find_last front
    by (rule stop)
qed

definition plain_field :: "string \<times> string \<Rightarrow> bool" where
  "plain_field kv \<longleftrightarrow> CHR '':'' \<notin> set (fst kv) \<and> LF \<notin> set (fst kv) \<and> plain_value (snd kv)"

lemma header_fields_plain:
  "\<forall>kv \<in> set kvs. plain_field kv \<Longrightarrow>
     header_fields (map (\<lambda>l. l @ [CR]) (map header_line kvs) @ ls) hs
       = header_fields ls (fold (\<lambda>(k, v). umap_set k v) kvs hs)"
proof (induction kvs arbitrary: hs)
  case (Cons kv kvs)
  obtain k v where kv: "kv = (k, v)" by (cases kv)
  have "find_first (\<lambda>c. c = CHR '':'') (k @ CHR '':'' # SP # v @ [CR]) = Some (length k)"
    using Cons.prems kv by (intro find_first_skip) (auto simp: plain_field_def)
  moreover have "trim_value (v @ [CR]) = v"
    using Cons.prems kv by (intro trim_plain) (auto simp: plain_field_def)
  ultimately show ?case using Cons kv by (simp add: header_line_def)
qed simp

lemma header_fields_none:
  "\<forall>l \<in> set ls. CHR '':'' \<notin> set l \<Longrightarrow> header_fields ls hs = Inr hs"
proof (induction ls)
  case (Cons l ls)
  then have "find_first (\<lambda>c. c = CHR '':'') l = None" by (auto simp: find_first_None_iff)
  with Cons show ?case by simp
qed simp

lemma text_lines_chars: "l \<in> set (text_lines s) \<Longrightarrow> set l \<subseteq> set s"
proof (induction s rule: text_lines.induct)
  case (1 s)
  show ?case
  proof (cases "getline s")
    case (Some lr)
    obtain l' r where lr: "lr = (l', r)" by (cases lr)
    have "set l' \<subseteq> set s" "set r \<subseteq> set s"
      using Some lr by (auto simp: getline_def dest: set_takeWhileD set_dropWhileD in_set_dropD split: if_splits)
    moreover have "text_lines s = l' # text_lines r" using Some lr by (simp add: text_lines.simps [of s])
    ultimately show ?thesis using 1(1) [OF Some lr [symmetric]] 1(2) by auto
  qed (use 1(2) in \<open>simp add: text_lines.simps [of s]\<close>)
qed

lemma parse_headers_plain:
  assumes "LF \<notin> set start" and "\<forall>kv \<in> set kvs. plain_field kv" and "CHR '':'' \<notin> set body"
  shows "parse_headers (start @ CRLF @ lines_text (map header_line kvs) @ CRLF @ body)
          = Inr (fold (\<lambda>(k, v). umap_set k v) kvs [])"
proof -
  let ?iss = "lines_text (map header_line kvs) @ CRLF @ body"
  have g: "getline (start @ CRLF @ ?iss) = Some (start @ [CR], ?iss)"
    using getline_line [of "start @ [CR]" ?iss] assms(1) by simp
  have lf: "\<forall>l \<in> set (map header_line kvs). LF \<notin> set l"
    using assms(2) by (auto simp: header_line_def plain_field_def plain_value_def clean_def)
  have "text_lines (CRLF @ body) = [CR] # text_lines body"
    using text_lines_line [of "[CR]" body] by simp
  then have "text_lines ?iss = map (\<lambda>l. l @ [CR]) (map header_line kvs) @ [CR] # text_lines body"
    using text_lines_lines [OF lf] by simp
  then have lines: "takeWhile (\<lambda>l. l \<noteq> []) (text_lines ?iss)
      = map (\<lambda>l. l @ [CR]) (map header_line kvs) @ [CR] # takeWhile (\<lambda>l. l \<noteq> []) (text_lines body)"
    by (simp only:) (subst takeWhile_append2, auto)
  have "CHR '':'' \<notin> set l" if "l \<in> set ([CR] # takeWhile (\<lambda>l. l \<noteq> []) (text_lines body))" for l
    using that assms(3) text_lines_chars by (fastforce dest: set_takeWhileD)
  then have "header_fields ([CR] # takeWhile (\<lambda>l. l \<noteq> []) (text_lines body)) hs = Inr hs" for hs
    by (intro header_fields_none) blast
  then show ?thesis
    unfolding parse_headers_def g option.case prod.case parse_headers_loop_eq lines
    by (simp only: header_fields_plain [OF assms(2)])
qed

lemma header_fields_fault:
  "header_fields ls hs = Inl e \<longleftrightarrow>
     e = Out_Of_Range \<and> (\<exists>l \<in> set ls. find_first (\<lambda>c. c = CHR '':'') l = Some (length l - 1) \<and> l \<noteq> [])"
proof (induction ls arbitrary: hs)
  case (Cons l ls)
  show ?case
  proof (cases "find_first (\<lambda>c. c = CHR '':'') l")
    case (Some p)
    then have "p < length l" by (simp add: find_first_Some_iff)
    then show ?thesis using Cons Some by (auto split: if_splits)
  qed (use Cons in auto)
qed simp

section \<open>Query parameters\<close>

text \<open>\<open>k=v\<close> pairs joined with semicolons.\<close>

definition params_text :: "(string \<times> string) list \<Rightarrow> string" where
  "params_text kvs = drop 1 (concat (map (\<lambda>(k, v). CHR '';'' # k @ CHR ''='' # v) kvs))"

definition plain_word :: "string \<Rightarrow> bool" where
  "plain_word w \<longleftrightarrow> w \<noteq> [] \<and> CHR '';'' \<notin> set w \<and> CHR ''='' \<notin> set w \<and> NUL \<notin> set w"

lemma split_pair:
  assumes "plain_word k" and "plain_word v"
  shows "split_words (k @ CHR ''='' # v) CHR ''='' = [k, v]"
  using split_words_join [of "[k, v]" "CHR ''=''"] assms split_words_sep_front [of "CHR ''=''" "k @ CHR ''='' # v"]
  by (simp add: plain_word_def)

lemma split_params:
  assumes "\<forall>(k, v) \<in> set kvs. plain_word k \<and> plain_word v"
  shows "split_words (params_text kvs) CHR '';'' = map (\<lambda>(k, v). k @ CHR ''='' # v) kvs"
proof -
  let ?vars = "map (\<lambda>(k, v). k @ CHR ''='' # v) kvs"
  let ?text = "concat (map (\<lambda>f. CHR '';'' # f) ?vars)"
  have joined: "concat (map (\<lambda>(k, v). CHR '';'' # k @ CHR ''='' # v) kvs) = ?text"
    by (induction kvs) auto
  have "split_words ?text CHR '';'' = ?vars"
    by (rule split_words_join) (use assms in \<open>auto simp: plain_word_def\<close>)
  moreover have "split_words (drop 1 ?text) CHR '';'' = split_words ?text CHR '';''"
    by (cases kvs) (auto simp: split_words_sep_front)
  ultimately show ?thesis by (simp only: params_text_def joined)
qed

lemma parse_params_loop_plain:
  "\<forall>(k, v) \<in> set kvs. plain_word k \<and> plain_word v \<Longrightarrow>
     parse_params_loop (map (\<lambda>(k, v). k @ CHR ''='' # v) kvs) ret = Inr (fold (\<lambda>(k, v). umap_set k v) kvs ret)"
  by (induction kvs arbitrary: ret) (auto simp: split_pair)

lemma parse_url_params_plain:
  assumes "CHR ''?'' \<notin> set path" and "\<forall>(k, v) \<in> set kvs. plain_word k \<and> plain_word v"
  shows "parse_url_params (path @ CHR ''?'' # params_text kvs) = Inr (fold (\<lambda>(k, v). umap_set k v) kvs [])"
proof -
  have "str_find ''?'' (path @ CHR ''?'' # params_text kvs) = Some (length path)"
    using str_find_skip [OF assms(1), of "[]" "CHR ''?'' # params_text kvs"] by simp
  then show ?thesis
    unfolding parse_url_params_def
    by (simp add: substr_def split_params [OF assms(2)] parse_params_loop_plain [OF assms(2)])
qed

lemma parse_params_loop_fault:
  "parse_params_loop vars ret = Inl e \<longleftrightarrow>
     e = Undefined_Behaviour \<and> (\<exists>var \<in> set vars. length (split_words var CHR ''='') < 2)"
proof (induction vars arbitrary: ret)
  case (Cons var vars)
  consider "split_words var CHR ''='' = []" | k where "split_words var CHR ''='' = [k]"
    | k v r where "split_words var CHR ''='' = k # v # r"
    by (metis list.exhaust)
  then show ?case by cases (use Cons in auto)
qed simp

section \<open>Properties\<close>

text \<open>
  The verb and the URL of a request line are found: for a verb and a URL without a space (a
  URL that does not itself start with the protocol version) the code extracts the verb, the URL
  with its query part, and the URL up to the first question mark, whatever follows the line.
\<close>

theorem request_line_parsed:
  assumes "SP \<notin> set verb" and "SP \<notin> set url" and "\<not> prefix ''HTTP/1.1'' (url @ '' HTTP/1.1'')"
    and "length verb + length url < 2 ^ 31 - 1"
  shows "extract_http_verb (verb @ SP # url @ '' HTTP/1.1'' @ rest) = Inr verb
    \<and> extract_url_with_query_params (verb @ SP # url @ '' HTTP/1.1'' @ rest) = Inr url
    \<and> extract_url (verb @ SP # url @ '' HTTP/1.1'' @ rest) = Inr (takeWhile (\<lambda>c. c \<noteq> CHR ''?'') url)"
  using request_line [OF assms] by (simp add: extract_url_cut)

theorem request_line_parsed_witness:
  "extract_url (''GET'' @ SP # ''/a?x=1'' @ '' HTTP/1.1'' @ CRLF @ CRLF) = Inr ''/a''"
  using request_line_parsed [of "''GET''" "''/a?x=1''" "CRLF @ CRLF"] by simp

text \<open>
  Taking the URL out of a request never throws, whatever the bytes are, and the result holds
  no question mark.
\<close>

theorem extract_url_never_throws:
  assumes "length request < 2 ^ 31"
  shows "\<exists>url. extract_url request = Inr url \<and> CHR ''?'' \<notin> set url"
  using extract_url_total [OF assms] by (auto simp: extract_url_cut dest: set_takeWhileD)

theorem extract_url_never_throws_witness: "\<exists>url. extract_url ''x'' = Inr url \<and> CHR ''?'' \<notin> set url"
  by (rule extract_url_never_throws) simp

text \<open>
  The header fields of a request are parsed into a map that gives every field its last value:
  for field names without colon and newline, values without line break and outer blanks, and a
  body without colon.
\<close>

theorem parse_headers_correct:
  assumes "LF \<notin> set start" and "\<forall>kv \<in> set kvs. plain_field kv" and "CHR '':'' \<notin> set body"
  shows "\<exists>hs. parse_headers (start @ CRLF @ lines_text (map header_line kvs) @ CRLF @ body) = Inr hs
    \<and> umap_ok hs \<and> umap_find hs = map_of (rev kvs)"
proof -
  show ?thesis
    unfolding parse_headers_plain [OF assms] using umap.invar_assign_all [OF umap.invar_empty] umap_find_assign_all by blast
qed

theorem parse_headers_correct_witness:
  "\<exists>hs. parse_headers (''GET / HTTP/1.1'' @ CRLF @ lines_text (map header_line [(''Host'', ''h''), (''Accept'', ''a''), (''Host'', ''g'')]) @ CRLF @ [])
      = Inr hs \<and> umap_ok hs \<and> umap_find hs = map_of (rev [(''Host'', ''h''), (''Accept'', ''a''), (''Host'', ''g'')])"
  by (rule parse_headers_correct) (simp_all add: plain_field_def plain_value_def clean_def)

lemma parse_headers_Inl:
  "parse_headers request = Inl e \<longleftrightarrow>
     e = Out_Of_Range \<and>
     (\<exists>l \<in> set (takeWhile (\<lambda>l. l \<noteq> []) (tl (text_lines request))).
        find_first (\<lambda>c. c = CHR '':'') l = Some (length l - 1))"
proof (cases "getline request")
  case (Some lr)
  obtain l r where lr: "lr = (l, r)" by (cases lr)
  have "tl (text_lines request) = text_lines r" using Some lr by (simp add: text_lines.simps [of request])
  moreover have "parse_headers request = header_fields (takeWhile (\<lambda>l. l \<noteq> []) (text_lines r)) []"
    using Some lr by (simp add: parse_headers_def parse_headers_loop_eq)
  ultimately show ?thesis by (auto simp: header_fields_fault dest: set_takeWhileD)
qed (simp add: parse_headers_def text_lines.simps [of request])

text \<open>
  When parse_headers throws: exactly when a line before the first empty one (the request line
  aside) has its first colon as its last character, and the exception is std::out_of_range. No
  other request makes it fail.
\<close>

theorem parse_headers_throws:
  "parse_headers request = Inl e \<longleftrightarrow>
     e = Out_Of_Range \<and>
     (\<exists>l \<in> set (takeWhile (\<lambda>l. l \<noteq> []) (tl (text_lines request))).
        find_first (\<lambda>c. c = CHR '':'') l = Some (length l - 1))"
  by (rule parse_headers_Inl)

text \<open>
  The query parameters of a URL are parsed into a map that gives every name its last value,
  for pairs joined with semicolons whose names and values are not empty and hold none of the
  separators.
\<close>

theorem parse_url_params_correct:
  assumes "CHR ''?'' \<notin> set path" and "\<forall>(k, v) \<in> set kvs. plain_word k \<and> plain_word v"
  shows "\<exists>ps. parse_url_params (path @ CHR ''?'' # params_text kvs) = Inr ps
    \<and> umap_ok ps \<and> umap_find ps = map_of (rev kvs)"
proof -
  show ?thesis
    unfolding parse_url_params_plain [OF assms] using umap.invar_assign_all [OF umap.invar_empty] umap_find_assign_all by blast
qed

theorem parse_url_params_correct_witness:
  "\<exists>ps. parse_url_params (''/a'' @ CHR ''?'' # params_text [(''x'', ''1''), (''y'', ''2'')]) = Inr ps
    \<and> umap_ok ps \<and> umap_find ps = map_of (rev [(''x'', ''1''), (''y'', ''2'')])"
  by (rule parse_url_params_correct) (simp_all add: plain_word_def)

text \<open>
  When parse_url_params reads outside a vector: exactly when the URL has a question mark and
  one of the parts after it, between semicolons, has fewer than two words around its equals signs.
  It has no other fault.
\<close>

theorem parse_url_params_fault:
  "parse_url_params url = Inl e \<longleftrightarrow>
     e = Undefined_Behaviour \<and> CHR ''?'' \<in> set url \<and>
     (\<exists>var \<in> set (split_words (drop 1 (dropWhile (\<lambda>c. c \<noteq> CHR ''?'') url)) CHR '';'').
        length (split_words var CHR ''='') < 2)"
proof (cases "CHR ''?'' \<in> set url")
  case True
  then obtain u v where url: "url = u @ CHR ''?'' # v" "CHR ''?'' \<notin> set u"
    by (metis split_list_first)
  then have "str_find ''?'' url = Some (length u)"
    using str_find_skip [of "CHR ''?''" u "[]" "CHR ''?'' # v"] by simp
  moreover have "drop 1 (dropWhile (\<lambda>c. c \<noteq> CHR ''?'') url) = v"
    using url by (subst url(1), subst dropWhile_append2) auto
  ultimately show ?thesis
    using True url by (simp add: parse_url_params_def substr_def parse_params_loop_fault)
next
  case False
  then have "str_find ''?'' url = None"
    using str_find_skip [OF False, of "[]" "[]"] by simp
  with False show ?thesis by (simp add: parse_url_params_def)
qed

section \<open>Requests that are misread\<close>

lemma verb_range: "parse_http_request_verb b \<in> {Get, Post, Put}"
  by (simp add: parse_http_request_verb_def Let_def)

text \<open>A POST to a URL that holds ``get''.\<close>

lemma post_read_as_get:
  "parse_http_request_verb (''POST /widget HTTP/1.1'' @ CRLF @ CRLF) = Get"
  by (simp add: parse_http_request_verb_def to_lower_case_def contains_def to_lower_def)

text \<open>A line of the body that is read as a header field.\<close>

lemma body_read_as_header:
  "parse_headers (''POST / HTTP/1.1'' @ CRLF @ CRLF @ ''Upgrade: x'') = Inr [(''Upgrade'', ''x'')]"
proof -
  have "text_lines (''POST / HTTP/1.1'' @ CRLF @ CRLF @ ''Upgrade: x'')
      = [''POST / HTTP/1.1'' @ [CR], [CR], ''Upgrade: x'']"
    by (simp add: text_lines.simps getline_def)
  moreover have "trim_value ''x'' = ''x''" by (simp add: trim_value_def erase_front_def)
  ultimately show ?thesis
    unfolding parse_headers_def parse_headers_loop_eq by (simp add: getline_def umap_set_def text_lines.simps)
qed

end
