(* ===== verification/Routing.thy ===== *)
theory Routing
  imports Http_Request "HOL-Library.Multiset"
begin

text \<open>
  Routing: \<open>add_route_handler\<close> and \<open>query_endpoint_from_map\<close> of the class \<open>http_server\<close> and the free
  functions of src/http_handler.cpp that match a path against a pattern of typed nodes. The table
  of routes is a \<open>umap\<close>, in the order in which the map is iterated. \<open>std::regex_match\<close> is the
  argument \<open>rx\<close>: \<open>rx p s\<close> says whether all of \<open>s\<close> matches the pattern \<open>p\<close>, \<open>None\<close> when the
  constructor of \<open>std::regex\<close> throws for \<open>p\<close>.
\<close>

section \<open>Typed nodes\<close>

datatype url_data_type = Integer | Str | Boolean | InvalidUrlDatatype

definition get_node_data_type_by_pattern :: "string \<Rightarrow> url_data_type" where
  "get_node_data_type_by_pattern routeNode =
     (if contains routeNode '':int>'' then Integer
      else if contains routeNode '':str>'' then Str
      else if contains routeNode '':boolean>'' then Boolean
      else InvalidUrlDatatype)"

fun url_data_typeAsStr :: "url_data_type \<Rightarrow> string" where
  "url_data_typeAsStr Integer = ''Integer''"
| "url_data_typeAsStr Str = ''Str''"
| "url_data_typeAsStr Boolean = ''Boolean''"
| "url_data_typeAsStr InvalidUrlDatatype = ''Invalid''"

definition is_boolean :: "string \<Rightarrow> bool" where
  "is_boolean sn \<longleftrightarrow> contains sn ''true'' \<or> contains sn ''false''"

definition is_integer :: "string \<Rightarrow> bool" where
  "is_integer sn \<longleftrightarrow> list_all is_digit sn"

definition getDataTypeByValue :: "string \<Rightarrow> url_data_type" where
  "getDataTypeByValue value =
     (if is_integer value then Integer else if is_boolean value then Boolean else Str)"

text \<open>The iterator over \<open>pattern\<close> is not compared with its end.\<close>

fun validate_pattern_by_url :: "string list \<Rightarrow> string list \<Rightarrow> bool result" where
  "validate_pattern_by_url [] pattern = Inr True"
| "validate_pattern_by_url (u # us) [] = Inl Undefined_Behaviour"
| "validate_pattern_by_url (u # us) (p # ps) =
     (if u \<noteq> p
      then (if hd (p @ [NUL]) \<noteq> CHR ''<'' then Inr False
            else if get_node_data_type_by_pattern p \<noteq> getDataTypeByValue u then Inr False
            else validate_pattern_by_url us ps)
      else validate_pattern_by_url us ps)"

section \<open>The table of routes\<close>

type_synonym 'cb routes = "'cb umap"
type_synonym regex_match = "string \<Rightarrow> string \<Rightarrow> bool option"

definition INVALID_HTTP_URI :: string where "INVALID_HTTP_URI = ''INVALID URL''"

text \<open>\<open>m.insert({k, v})\<close> changes nothing when \<open>k\<close> has a node.\<close>

definition umap_insert :: "string \<Rightarrow> 'v \<Rightarrow> 'v umap \<Rightarrow> 'v umap" where
  "umap_insert k v m = (if umap_find m k = None then umap_set k v m else m)"

definition add_route_handler :: "string \<Rightarrow> 'cb \<Rightarrow> 'cb routes \<Rightarrow> 'cb routes" where
  "add_route_handler url cb routes_map_org =
     (let routes_map_org = umap_set url cb routes_map_org
      in umap_insert url cb routes_map_org)"

text \<open>The loop over the table that tries each key as a regular expression.\<close>

fun regex_route :: "regex_match \<Rightarrow> string \<Rightarrow> 'cb routes \<Rightarrow> (string \<times> 'cb) option result" where
  "regex_route rx uri [] = Inr None"
| "regex_route rx uri ((k, cb) # m) =
     (case rx k uri of
        None \<Rightarrow> Inl Regex_Error
      | Some matched \<Rightarrow> if matched then Inr (Some (k, cb)) else regex_route rx uri m)"

text \<open>The loop over the table that compares the nodes of the path with those of each key.\<close>

fun pattern_route :: "string list \<Rightarrow> 'cb routes \<Rightarrow> (string \<times> 'cb) option result" where
  "pattern_route splittedUri [] = Inr None"
| "pattern_route splittedUri ((k, cb) # m) =
     (let eSplitted = split_words k CHR ''/'' in
      if length eSplitted \<noteq> length splittedUri then pattern_route splittedUri m
      else case validate_pattern_by_url splittedUri eSplitted of
             Inl e \<Rightarrow> Inl e
           | Inr status \<Rightarrow> if status then Inr (Some (k, cb)) else pattern_route splittedUri m)"

text \<open>
  \<open>query_endpoint_from_map(uri)\<close>. The second component is \<open>None\<close> for the empty \<open>std::function\<close> of
  a default-constructed pair.
\<close>

definition query_endpoint_from_map :: "regex_match \<Rightarrow> 'cb routes \<Rightarrow> string \<Rightarrow> (string \<times> 'cb option) result" where
  "query_endpoint_from_map rx routes_map_org uri =
     (let res = (INVALID_HTTP_URI, None);
          found = (\<lambda>(k, cb). (k, Some cb)) in
      if length uri = 1 \<and> uri = ''/''
      then (case List.find (\<lambda>(k, cb). k = ''/'') routes_map_org of
              Some it \<Rightarrow> Inr (found it)
            | None \<Rightarrow> Inr res)
      else case umap_find routes_map_org uri of
             Some cb \<Rightarrow> Inr (uri, Some cb)
           | None \<Rightarrow>
               rbind (regex_route rx uri routes_map_org) (\<lambda>r.
                 case r of
                   Some it \<Rightarrow> Inr (found it)
                 | None \<Rightarrow>
                     rbind (pattern_route (split_words uri CHR ''/'') routes_map_org) (\<lambda>r.
                       case r of Some it \<Rightarrow> Inr (found it) | None \<Rightarrow> Inr res)))"

section \<open>When a path matches a pattern of nodes\<close>

text \<open>A node of the pattern: the same text, or a typed placeholder of the type of the value.\<close>

definition node_matches :: "string \<Rightarrow> string \<Rightarrow> bool" where
  "node_matches u p \<longleftrightarrow>
     u = p \<or> (prefix ''<'' p \<and> get_node_data_type_by_pattern p = getDataTypeByValue u)"

definition path_matches :: "string \<Rightarrow> string \<Rightarrow> bool" where
  "path_matches pattern uri \<longleftrightarrow>
     list_all2 node_matches (split_words uri CHR ''/'') (split_words pattern CHR ''/'')"

lemma hd_is_lt: "hd (p @ [NUL]) = CHR ''<'' \<longleftrightarrow> prefix ''<'' p"
  by (cases p) auto

lemma validate_eq: "length us = length ps \<Longrightarrow> validate_pattern_by_url us ps = Inr (list_all2 node_matches us ps)"
  by (induction us ps rule: list_induct2) (auto simp: node_matches_def hd_is_lt)

lemma pattern_route_eq:
  "pattern_route (split_words uri CHR ''/'') m = Inr (List.find (\<lambda>(k, cb). path_matches k uri) m)"
proof (induction m)
  case (Cons kv m)
  obtain k cb where kv: "kv = (k, cb)" by (cases kv)
  show ?case
  proof (cases "length (split_words k CHR ''/'') = length (split_words uri CHR ''/'')")
    case True
    then show ?thesis using Cons kv by (simp add: validate_eq path_matches_def Let_def)
  next
    case False
    then have "\<not> path_matches k uri" by (auto simp: path_matches_def dest: list_all2_lengthD)
    with False show ?thesis using Cons kv by (simp add: Let_def)
  qed
qed simp

lemma regex_route_ok:
  "\<forall>(k, cb) \<in> set m. rx k uri \<noteq> None \<Longrightarrow>
     regex_route rx uri m = Inr (List.find (\<lambda>(k, cb). rx k uri = Some True) m)"
  by (induction m) (auto split: option.splits)

lemma regex_route_Inl: "regex_route rx uri m = Inl e \<Longrightarrow> e = Regex_Error \<and> (\<exists>(k, cb) \<in> set m. rx k uri = None)"
  by (induction m) (auto split: option.splits if_splits)

lemma regex_route_Some:
  "regex_route rx uri m = Inr (Some (k, cb)) \<Longrightarrow> (k, cb) \<in> set m \<and> rx k uri = Some True"
  by (induction m) (auto split: option.splits if_splits)

lemma regex_route_None: "regex_route rx uri m = Inr None \<Longrightarrow> \<forall>(k, cb) \<in> set m. rx k uri = Some False"
  by (induction m) (auto split: option.splits if_splits)

lemma find_in: "List.find P xs = Some x \<Longrightarrow> x \<in> set xs \<and> P x"
  by (induction xs) (auto split: if_splits)

lemma umap_find_in: "umap_find m k = Some v \<Longrightarrow> (k, v) \<in> set m"
  by (simp add: umap_find_def map_of_SomeD)

lemma umap_find_key:
  "umap_ok m \<Longrightarrow> List.find (\<lambda>(k, v). k = key) m = map_option (\<lambda>v. (key, v)) (umap_find m key)"
  by (induction m) (auto simp: umap_find_def umap_ok_def split: prod.splits)

text \<open>The choice of the code in one expression: exact key, then regular expression, then nodes.\<close>

lemma query_eq:
  assumes "umap_ok m"
  shows "query_endpoint_from_map rx m uri =
     (case umap_find m uri of
        Some cb \<Rightarrow> Inr (uri, Some cb)
      | None \<Rightarrow>
          if uri = ''/'' then Inr (INVALID_HTTP_URI, None)
          else rbind (regex_route rx uri m) (\<lambda>r.
            case (case r of Some it \<Rightarrow> Some it | None \<Rightarrow> List.find (\<lambda>(k, cb). path_matches k uri) m) of
              Some (k, cb) \<Rightarrow> Inr (k, Some cb)
            | None \<Rightarrow> Inr (INVALID_HTTP_URI, None)))"
proof (cases "uri = ''/''")
  case True
  then show ?thesis
    using umap_find_key [OF assms, of "''/''"]
    by (auto simp: query_endpoint_from_map_def Let_def split: option.splits)
next
  case False
  then show ?thesis
    by (cases "regex_route rx uri m")
      (auto simp: query_endpoint_from_map_def Let_def pattern_route_eq split: option.splits)
qed

lemma query_found:
  assumes ok: "umap_ok m" and "query_endpoint_from_map rx m uri = Inr (k, Some cb)"
  shows "umap_find m k = Some cb \<and> (k = uri \<or> rx k uri = Some True \<or> path_matches k uri)"
proof (cases "umap_find m uri")
  case None
  with assms obtain r where r: "regex_route rx uri m = Inr r"
    and k: "(case r of Some it \<Rightarrow> Some it | None \<Rightarrow> List.find (\<lambda>(k, cb). path_matches k uri) m) = Some (k, cb)"
    by (auto simp: query_eq [OF ok] rbind_Inr_iff split: if_splits option.splits)
  then have "(k, cb) \<in> set m \<and> (rx k uri = Some True \<or> path_matches k uri)"
    using regex_route_Some [of rx uri m k cb] find_in by (cases r) fastforce+
  then show ?thesis using ok by (auto simp: umap.mem_items_iff)
qed (use assms in \<open>auto simp: query_eq [OF ok]\<close>)

lemma query_not_found:
  assumes ok: "umap_ok m" and "query_endpoint_from_map rx m uri = Inr (k, None)"
  shows "k = INVALID_HTTP_URI \<and> umap_find m uri = None
    \<and> (uri \<noteq> ''/'' \<longrightarrow> (\<forall>(k, cb) \<in> set m. rx k uri = Some False \<and> \<not> path_matches k uri))"
proof (cases "umap_find m uri")
  case None
  show ?thesis
  proof (cases "uri = ''/''")
    case False
    with assms None have "regex_route rx uri m = Inr None"
      and "List.find (\<lambda>(k, cb). path_matches k uri) m = None" and "k = INVALID_HTTP_URI"
      by (auto simp: query_eq [OF ok] rbind_Inr_iff split: if_splits option.splits)
        (metis option.exhaust prod.exhaust)
    with None show ?thesis using regex_route_None [of rx uri m] by (fastforce simp: find_None_iff)
  qed (use assms None in \<open>auto simp: query_eq [OF ok]\<close>)
qed (use assms in \<open>auto simp: query_eq [OF ok]\<close>)

section \<open>Order of the table\<close>

lemma umap_perm_find:
  assumes "umap_ok m" and "mset m' = mset m"
  shows "umap_ok m'" and "umap_find m' = umap_find m"
proof -
  have keys: "mset (map fst m') = mset (map fst m)" using assms(2) by (metis mset_map)
  then show ok: "umap_ok m'" using assms(1) unfolding umap_ok_def by (metis mset_eq_imp_distinct_iff)
  have "set m' = set m" using assms(2) by (metis set_mset_mset)
  then show "umap_find m' = umap_find m"
    using assms(1) ok map_of_inject_set [of m' m] by (simp add: fun_eq_iff umap_find_def umap_ok_def)
qed

lemma find_perm:
  assumes "umap_ok m" and "mset m' = mset m"
    and unique: "\<And>k k'. k \<in> fst ` set m \<Longrightarrow> k' \<in> fst ` set m \<Longrightarrow> P k \<Longrightarrow> P k' \<Longrightarrow> k = k'"
  shows "List.find (\<lambda>(k, v). P k) m' = List.find (\<lambda>(k, v). P k) m"
proof (cases "List.find (\<lambda>(k, v). P k) m")
  case None
  have "set m' = set m" using assms(2) by (metis set_mset_mset)
  with None have "List.find (\<lambda>(k, v). P k) m' = None" by (simp add: find_None_iff)
  with None show ?thesis by simp
next
  case (Some kv)
  obtain k v where kv: "kv = (k, v)" by (cases kv)
  have in_m: "(k, v) \<in> set m" "P k" using find_in [OF Some] kv by auto
  have sets: "set m' = set m" using assms(2) by (metis set_mset_mset)
  have "List.find (\<lambda>(k, v). P k) m' = Some (k, v)"
  proof (rule find_unique_key)
    show "umap_ok m'" by (rule umap_perm_find [OF assms(1,2)])
    show "(k, v) \<in> set m'" using in_m sets by simp
    show "P k" by (rule in_m)
    show "k' = k" if "k' \<in> fst ` set m'" "P k'" for k'
      using unique [of k' k] that in_m sets by force
  qed
  with Some kv show ?thesis by simp
qed

lemma query_none:
  assumes "umap_ok m" and "umap_find m uri = None"
    and "uri \<noteq> ''/'' \<longrightarrow> (\<forall>(k, cb) \<in> set m. rx k uri = Some False \<and> \<not> path_matches k uri)"
  shows "\<exists>k. query_endpoint_from_map rx m uri = Inr (k, None)"
proof (cases "uri = ''/''")
  case True
  with assms(2) show ?thesis by (simp add: query_eq [OF assms(1)])
next
  case False
  with assms(3) have no: "\<forall>(k, cb) \<in> set m. rx k uri = Some False \<and> \<not> path_matches k uri" by simp
  then have "regex_route rx uri m = Inr None" by (induction m) auto
  moreover have "List.find (\<lambda>(k, cb). path_matches k uri) m = None" using no by (auto simp: find_None_iff)
  ultimately show ?thesis using assms(2) False by (simp add: query_eq [OF assms(1)])
qed

section \<open>Properties\<close>

text \<open>
  C12: A route found is a route that was registered, with its own handler, and its key matches the
  path: it is the path, or matches it as a regular expression, or node by node.
\<close>

theorem routing_sound:
  assumes "umap_ok routes" and "query_endpoint_from_map rx routes uri = Inr (k, Some cb)"
  shows "umap_find routes k = Some cb \<and> (k = uri \<or> rx k uri = Some True \<or> path_matches k uri)"
  by (rule query_found [OF assms])

theorem routing_sound_witness:
  "umap_find [(''/user/<id:int>'', 7 :: nat)] ''/user/<id:int>'' = Some 7
   \<and> (''/user/<id:int>'' = ''/user/42'' \<or> (\<lambda>p s. Some (p = s)) ''/user/<id:int>'' ''/user/42'' = Some True
      \<or> path_matches ''/user/<id:int>'' ''/user/42'')"
proof (rule routing_sound)
  show "query_endpoint_from_map (\<lambda>p s. Some (p = s)) [(''/user/<id:int>'', 7 :: nat)] ''/user/42''
      = Inr (''/user/<id:int>'', Some 7)"
    by code_simp
qed (simp add: umap_ok_def)

text \<open>
  C13: Exactly when a path has no route, nothing is found for it: no key equals it and none matches it,
  as a regular expression or node by node. The path ``/'' is looked up as a key only: no pattern is
  tried for it, and nothing is found also where one would match.
\<close>

theorem routing_complete:
  assumes "umap_ok routes"
  shows "(\<exists>k. query_endpoint_from_map rx routes uri = Inr (k, None)) \<longleftrightarrow>
     umap_find routes uri = None
     \<and> (uri \<noteq> ''/'' \<longrightarrow> (\<forall>(k, cb) \<in> set routes. rx k uri = Some False \<and> \<not> path_matches k uri))"
  using query_not_found [OF assms] query_none [OF assms] by blast

text \<open>A path that nothing matches, and the path ``/'' with a pattern that would.\<close>

theorem routing_complete_witness:
  "\<not> path_matches ''/user/<id:int>'' ''/user/bob''
    \<and> (\<exists>k. query_endpoint_from_map (\<lambda>p s. Some True) [(''/.*'', 7 :: nat)] ''/'' = Inr (k, None))"
proof -
  have "\<exists>k. query_endpoint_from_map (\<lambda>p s. Some (p = s)) [(''/user/<id:int>'', 7 :: nat)] ''/user/bob'' = Inr (k, None)"
    by (rule exI [of _ INVALID_HTTP_URI]) code_simp
  then have "\<not> path_matches ''/user/<id:int>'' ''/user/bob''"
    using routing_complete [of "[(''/user/<id:int>'', 7 :: nat)]" "\<lambda>p s. Some (p = s)" "''/user/bob''"]
    by (simp add: umap_ok_def)
  moreover have "umap_find [(''/.*'', 7 :: nat)] ''/'' = None" by (simp add: umap_find_def)
  ultimately show ?thesis
    using routing_complete [of "[(''/.*'', 7 :: nat)]" "\<lambda>p s. Some True" "''/''"] by (simp add: umap_ok_def)
qed

text \<open>
  A handler registered for a path itself is the one that is called for this path, whatever
  the other routes are, and the last registration of a key wins; the others keep their handlers.
\<close>

theorem exact_route_wins:
  assumes "umap_ok routes"
  shows "query_endpoint_from_map rx (add_route_handler uri cb routes) uri = Inr (uri, Some cb)
    \<and> umap_ok (add_route_handler uri cb routes)
    \<and> (\<forall>k. k \<noteq> uri \<longrightarrow> umap_find (add_route_handler uri cb routes) k = umap_find routes k)"
proof -
  have ok: "umap_ok (add_route_handler uri cb routes)"
    using assms by (simp add: add_route_handler_def umap_insert_def)
  moreover have "umap_find (add_route_handler uri cb routes) uri = Some cb"
    by (simp add: add_route_handler_def umap_insert_def)
  ultimately show ?thesis
    by (simp add: query_eq [OF ok]) (simp add: add_route_handler_def umap_insert_def)
qed

theorem exact_route_wins_witness:
  "query_endpoint_from_map (\<lambda>p s. Some True) (add_route_handler ''/a'' (2 :: nat) [(''/.*'', 1)]) ''/a'' = Inr (''/a'', Some 2)"
  using exact_route_wins [of "[(''/.*'', 1 :: nat)]" "\<lambda>p s. Some True" "''/a''" 2] by (simp add: umap_ok_def)

text \<open>
  The order in which the unordered map is iterated does not matter when at most one key
  matches the path as a regular expression and at most one node by node: every order finds the
  same route.
\<close>

theorem routing_order_independent:
  assumes "umap_ok routes" and "mset routes' = mset routes"
    and "\<And>k. k \<in> fst ` set routes \<Longrightarrow> rx k uri \<noteq> None"
    and "\<And>k k'. k \<in> fst ` set routes \<Longrightarrow> k' \<in> fst ` set routes \<Longrightarrow>
           rx k uri = Some True \<Longrightarrow> rx k' uri = Some True \<Longrightarrow> k = k'"
    and "\<And>k k'. k \<in> fst ` set routes \<Longrightarrow> k' \<in> fst ` set routes \<Longrightarrow>
           path_matches k uri \<Longrightarrow> path_matches k' uri \<Longrightarrow> k = k'"
  shows "query_endpoint_from_map rx routes' uri = query_endpoint_from_map rx routes uri"
proof -
  note ok' = umap_perm_find [OF assms(1,2)]
  have sets: "set routes' = set routes" using assms(2) by (metis set_mset_mset)
  have total: "\<forall>(k, cb) \<in> set routes. rx k uri \<noteq> None" using assms(3) by force
  then have total': "\<forall>(k, cb) \<in> set routes'. rx k uri \<noteq> None" using sets by simp
  note regex_route_ok [of routes rx uri, OF total] regex_route_ok [of routes' rx uri, OF total']
  moreover have "List.find (\<lambda>(k, cb). rx k uri = Some True) routes' = List.find (\<lambda>(k, cb). rx k uri = Some True) routes"
    by (rule find_perm [OF assms(1,2)]) (rule assms(4))
  moreover have "List.find (\<lambda>(k, cb). path_matches k uri) routes' = List.find (\<lambda>(k, cb). path_matches k uri) routes"
    by (rule find_perm [OF assms(1,2)]) (rule assms(5))
  ultimately show ?thesis
    by (cases "umap_find routes uri") (simp_all add: query_eq [OF assms(1)] query_eq [OF ok'(1)] ok'(2) split: option.split)
qed

theorem routing_order_independent_witness:
  "query_endpoint_from_map (\<lambda>p s. Some False) [(''/b'', 2 :: nat), (''/<x:int>'', 1)] ''/5''
    = query_endpoint_from_map (\<lambda>p s. Some False) [(''/<x:int>'', 1), (''/b'', 2)] ''/5''"
proof (rule routing_order_independent)
  have "\<not> path_matches ''/b'' ''/5''" by code_simp
  then show "path_matches k ''/5'' \<Longrightarrow> path_matches k' ''/5'' \<Longrightarrow> k = k'"
    if "k \<in> fst ` set [(''/<x:int>'', 1 :: nat), (''/b'', 2)]" "k' \<in> fst ` set [(''/<x:int>'', 1 :: nat), (''/b'', 2)]" for k k'
    using that by auto
qed (simp_all add: umap_ok_def add_mset_commute)

text \<open>
  The search for a route never leaves the bounds of a vector, and it throws only
  std::regex_error, and only when the key of some route is not a valid regular expression.
\<close>

theorem routing_faults:
  assumes "query_endpoint_from_map rx routes uri = Inl e"
  shows "e = Regex_Error \<and> (\<exists>(k, cb) \<in> set routes. rx k uri = None)"
  using assms
  by (auto simp: query_endpoint_from_map_def Let_def rbind_Inl_iff pattern_route_eq
      split: if_splits option.splits dest!: regex_route_Inl)

theorem routing_faults_witness:
  "\<exists>(k, cb) \<in> set [(''/['', 1 :: nat)]. (\<lambda>p s. if p = ''/['' then None else Some False) k ''/x'' = None"
proof -
  have "query_endpoint_from_map (\<lambda>p s. if p = ''/['' then None else Some False) [(''/['', 1 :: nat)] ''/x'' = Inl Regex_Error"
    by code_simp
  from routing_faults [OF this] show ?thesis by blast
qed

lemma placeholder_type:
  "get_node_data_type_by_pattern (''<'' @ name @ '':int>'') = Integer"
  "\<not> contains (name @ '':str>'') '':int>'' \<Longrightarrow> get_node_data_type_by_pattern (''<'' @ name @ '':str>'') = Str"
proof -
  have "contains (''<'' @ name @ '':int>'') '':int>''"
    unfolding contains_iff by (intro exI [of _ "''<'' @ name"] exI [of _ "[]"]) simp
  then show "get_node_data_type_by_pattern (''<'' @ name @ '':int>'') = Integer"
    by (simp add: get_node_data_type_by_pattern_def)
next
  assume "\<not> contains (name @ '':str>'') '':int>''"
  then have "\<not> contains (''<'' @ name @ '':str>'') '':int>''" by (simp add: contains_def)
  moreover have "contains (''<'' @ name @ '':str>'') '':str>''"
    unfolding contains_iff by (intro exI [of _ "''<'' @ name"] exI [of _ "[]"]) simp
  ultimately show "get_node_data_type_by_pattern (''<'' @ name @ '':str>'') = Str"
    by (simp add: get_node_data_type_by_pattern_def)
qed

text \<open>
  A node \<open><name:int>\<close> of a route matches exactly the path nodes that consist of digits (and
  its own text), and \<open><name:str>\<close> those that are neither all digits nor hold ``true'' or ``false''.
\<close>

theorem placeholder_matches:
  "validate_pattern_by_url [u] [''<'' @ name @ '':int>'']
     = Inr (u = ''<'' @ name @ '':int>'' \<or> list_all is_digit u)
   \<and> (\<not> contains (name @ '':str>'') '':int>'' \<longrightarrow>
        validate_pattern_by_url [u] [''<'' @ name @ '':str>'']
          = Inr (u = ''<'' @ name @ '':str>''
                 \<or> \<not> list_all is_digit u \<and> \<not> contains u ''true'' \<and> \<not> contains u ''false''))"
  using placeholder_type [of name]
  by (auto simp: validate_eq node_matches_def getDataTypeByValue_def is_integer_def is_boolean_def)

theorem placeholder_matches_witness:
  "validate_pattern_by_url [''42''] [''<'' @ ''id'' @ '':str>''] = Inr False"
  using placeholder_matches [of "''42''" "''id''"] by (simp add: contains_def is_digit_def)

end
