(* ===== verification/Http_Server.thy ===== *)
theory Http_Server
  imports Routing Ws_Manager
begin

text \<open>
  The class \<open>http_server\<close>: \<open>received_str\<close> of includes/io_utils.h and
  \<open>handle_connection_request\<close> of src/http_handler.cpp. The two singletons, \<open>http_server\<close> and
  \<open>websocket_manager\<close>, are the record \<open>http_state\<close>; the socket is read through \<open>rcv\<close>; what the call
  does to the network is a list of effects. A handler of a route is a function from the request
  to a response or a fault; the empty \<open>std::function\<close> is \<open>None\<close>.
\<close>

section \<open>The definitions\<close>

record http_request =
  request_verb_id :: request_verb
  str_verb :: string
  url :: string
  headers :: "string umap"
  query_params :: "string umap"
  body :: string
  request_fd :: int

type_synonym endpointcb = "http_request \<Rightarrow> http_response result"

record http_state =
  routes_map_org :: "endpointcb routes"
  websocket_descriptor :: "int set"

text \<open>
  What the operations find in the machine: the byte order, the memory that a hash object and the
  member \<open>fd\<close> of a request are made in (the code never writes this member), the regular
  expressions of the standard library.
\<close>

record machine =
  byte_order :: endian
  hash_memory :: sha1_state
  fd_memory :: int
  regex :: regex_match

definition default_max_buffer :: nat where "default_max_buffer = 2048"

text \<open>
  \<open>received_str\<close>: the buffer is zeroed, so that the text ends at the first NUL of what arrived, or
  after it; when all 2048 bytes arrive and none is NUL the text is read past the buffer.
\<close>

definition received_str :: "'s recv_fun \<Rightarrow> 's \<Rightarrow> (string \<times> 's) result" where
  "received_str rcv s =
     (case rcv default_max_buffer s of (l, data, s') \<Rightarrow>
        if l > 0
        then (if length data = default_max_buffer \<and> 0 \<notin> set data then Inl Undefined_Behaviour
              else Inr (c_str (string_of data), s'))
        else Inr ([], s'))"

text \<open>The request as the code takes it apart, in the order of the calls.\<close>

definition read_request :: "machine \<Rightarrow> string \<Rightarrow> http_request result" where
  "read_request mc str_request =
     rbind (extract_http_verb str_request) (\<lambda>http_verb.
     let verb_id = parse_http_request_verb str_request in
     rbind (extract_url_with_query_params str_request) (\<lambda>urlDynamicPath.
     rbind (extract_url str_request) (\<lambda>request_url.
     rbind (parse_headers str_request) (\<lambda>hs.
     rbind (parse_url_params urlDynamicPath) (\<lambda>queryParams.
     Inr \<lparr>request_verb_id = verb_id, str_verb = http_verb, url = request_url, headers = hs,
          query_params = queryParams, body = extract_body str_request, request_fd = fd_memory mc\<rparr>)))))"

text \<open>The reply to a request that is not a handshake: the text and whether to close.\<close>

definition respond :: "machine \<Rightarrow> http_state \<Rightarrow> http_request \<Rightarrow> (string \<times> bool) result" where
  "respond mc st request =
     rbind (query_endpoint_from_map (regex mc) (routes_map_org st) (url request)) (\<lambda>it.
       if fst it = INVALID_HTTP_URI then Inr (default_500_msg, True)
       else case snd it of
              None \<Rightarrow> Inl Bad_Function_Call
            | Some cb \<Rightarrow> rbind (cb request) (\<lambda>res. Inr (response_text res, close_fd res)))"

definition handle_connection_request ::
  "machine \<Rightarrow> 's recv_fun \<Rightarrow> int \<Rightarrow> http_state \<Rightarrow> 's \<Rightarrow> (net_effect list \<times> http_state \<times> 's) result" where
  "handle_connection_request mc rcv connection st s =
     rbind (received_str rcv s) (\<lambda>(str_request, s').
       if str_request = [] then Inr ([], st, s')
       else rbind (read_request mc str_request) (\<lambda>request.
         let reply = rbind (respond mc st request) (\<lambda>(response, closefd).
               Inr (Send connection (bytes_of response) # (if closefd then [Close connection] else []), st, s'))
         in if is_websocket (headers request)
            then rbind (add_new_connection_connection (byte_order mc) (hash_memory mc) connection
                          (headers request) (url request) (websocket_descriptor st)) (\<lambda>(ok, effs, ws).
                   if ok then Inr (effs, st\<lparr>websocket_descriptor := ws\<rparr>, s') else reply)
            else reply))"

section \<open>Lemmas\<close>

lemma received_request:
  assumes "req \<noteq> []" and "length req < default_max_buffer" and "NUL \<notin> set req"
  shows "received_str recv (Rx_Data (bytes_of req) # es) = Inr (req, es)"
  using assms by (simp add: received_str_def)

text \<open>A request as a client writes it, and what the parsers need of it.\<close>

definition request_text :: "string \<Rightarrow> string \<Rightarrow> (string \<times> string) list \<Rightarrow> string \<Rightarrow> string" where
  "request_text verb target kvs content =
     verb @ SP # target @ '' HTTP/1.1'' @ CRLF @ lines_text (map header_line kvs) @ CRLF @ content"

definition plain_request :: "string \<Rightarrow> string \<Rightarrow> (string \<times> string) list \<Rightarrow> string \<Rightarrow> bool" where
  "plain_request verb target kvs content \<longleftrightarrow>
     SP \<notin> set verb \<and> LF \<notin> set verb \<and> SP \<notin> set target \<and> LF \<notin> set target
     \<and> \<not> prefix ''HTTP/1.1'' (target @ '' HTTP/1.1'')
     \<and> (\<forall>kv \<in> set kvs. plain_field kv) \<and> CHR '':'' \<notin> set content
     \<and> NUL \<notin> set (request_text verb target kvs content)
     \<and> length (request_text verb target kvs content) < default_max_buffer"

definition request_headers :: "(string \<times> string) list \<Rightarrow> string umap" where
  "request_headers kvs = fold (\<lambda>(k, v). umap_set k v) kvs []"

definition request_path :: "string \<Rightarrow> string" where
  "request_path target = takeWhile (\<lambda>c. c \<noteq> CHR ''?'') target"

text \<open>The request object that the code builds from such a text.\<close>

definition request_object ::
  "machine \<Rightarrow> string \<Rightarrow> string \<Rightarrow> (string \<times> string) list \<Rightarrow> string umap \<Rightarrow> string \<Rightarrow> http_request" where
  "request_object mc verb target kvs params content =
     \<lparr>request_verb_id = parse_http_request_verb (request_text verb target kvs content),
      str_verb = verb, url = request_path target, headers = request_headers kvs,
      query_params = params, body = '' '', request_fd = fd_memory mc\<rparr>"

lemma umap_find_request_headers: "umap_find (request_headers kvs) = map_of (rev kvs)"
  unfolding request_headers_def by (rule umap_find_assign_all)

lemma umap_ok_request_headers [simp]: "umap_ok (request_headers kvs)"
  unfolding request_headers_def by (rule umap.invar_assign_all) simp

text \<open>What the parsers make of such a text.\<close>

lemma plain_parts:
  assumes "plain_request verb target kvs content"
  shows "extract_http_verb (request_text verb target kvs content) = Inr verb"
    and "extract_url_with_query_params (request_text verb target kvs content) = Inr target"
    and "extract_url (request_text verb target kvs content) = Inr (request_path target)"
    and "parse_headers (request_text verb target kvs content) = Inr (request_headers kvs)"
proof -
  let ?rest = "CRLF @ lines_text (map header_line kvs) @ CRLF @ content"
  have "length verb + length target < 2 ^ 31 - 1"
    using assms by (simp add: plain_request_def request_text_def default_max_buffer_def)
  then show "extract_http_verb (request_text verb target kvs content) = Inr verb"
    and t: "extract_url_with_query_params (request_text verb target kvs content) = Inr target"
    using request_line [of verb target ?rest] assms by (simp_all add: plain_request_def request_text_def)
  from t show "extract_url (request_text verb target kvs content) = Inr (request_path target)"
    by (simp add: extract_url_cut request_path_def)
  have "LF \<notin> set (verb @ SP # target @ '' HTTP/1.1'')" using assms by (simp add: plain_request_def)
  from parse_headers_plain [OF this, of kvs content]
  show "parse_headers (request_text verb target kvs content) = Inr (request_headers kvs)"
    using assms by (simp add: plain_request_def request_headers_def request_text_def)
qed

lemma read_request_plain:
  assumes "plain_request verb target kvs content" and "parse_url_params target = Inr params"
  shows "read_request mc (request_text verb target kvs content) = Inr (request_object mc verb target kvs params content)"
  using plain_parts [OF assms(1)] assms(2)
  by (simp add: read_request_def Let_def request_object_def extract_body_def)

lemma received_plain:
  assumes "plain_request verb target kvs content"
  shows "received_str recv (Rx_Data (bytes_of (request_text verb target kvs content)) # es)
    = Inr (request_text verb target kvs content, es)"
  using assms by (intro received_request) (auto simp: plain_request_def request_text_def)

lemma respond_exact:
  assumes "umap_ok (routes_map_org st)" and "umap_find (routes_map_org st) (url req) = Some cb"
    and "url req \<noteq> INVALID_HTTP_URI"
  shows "respond mc st req = rbind (cb req) (\<lambda>res. Inr (response_text res, close_fd res))"
  using assms by (simp add: respond_def query_eq)

lemma handle_effects:
  assumes "handle_connection_request mc rcv connection st s = Inr (effs, st', s')"
  shows "(effs = [] \<or> (\<exists>b. effs = [Send connection b] \<or> effs = [Send connection b, Close connection]))
    \<and> routes_map_org st' = routes_map_org st
    \<and> websocket_descriptor st \<subseteq> websocket_descriptor st'
    \<and> websocket_descriptor st' \<subseteq> insert connection (websocket_descriptor st)
    \<and> (websocket_descriptor st' \<noteq> websocket_descriptor st \<longrightarrow> Close connection \<notin> set effs)"
  using assms
  by (auto simp: handle_connection_request_def Let_def rbind_Inr_iff add_new_connection_connection_def
      split: if_splits prod.splits)

lemma upgrade_answer:
  assumes "plain_request verb target kvs content" and "parse_url_params target = Inr params"
    and "''Upgrade'' \<in> fst ` set kvs"
    and "map_of (rev kvs) k = Some key" and "to_lower_case k = ''sec-websocket-key''"
    and "\<And>k'. k' \<in> fst ` set kvs \<Longrightarrow> to_lower_case k' = ''sec-websocket-key'' \<Longrightarrow> k' = k"
    and "key \<noteq> []" and "length (Message_Block (hash_memory mc)) = 64"
  shows "handle_connection_request mc recv connection st
           (Rx_Data (bytes_of (request_text verb target kvs content)) # es)
    = Inr ([Send connection (bytes_of (handshake_response (accept_key key)))],
           st\<lparr>websocket_descriptor := insert connection (websocket_descriptor st)\<rparr>, es)"
proof -
  let ?hs = "request_headers kvs"
  have items: "\<And>k v. (k, v) \<in> set ?hs \<longleftrightarrow> map_of (rev kvs) k = Some v"
    using umap.mem_items_iff [of ?hs] by (simp add: umap_find_request_headers)
  then have keys: "k' \<in> fst ` set ?hs \<Longrightarrow> k' \<in> fst ` set kvs" for k'
    using map_of_SomeD [of "rev kvs"] by force
  have "map_of (rev kvs) ''Upgrade'' \<noteq> None" using assms(3) by (simp add: map_of_eq_None_iff)
  then have ws: "is_websocket ?hs" by (simp add: is_websocket_def umap_find_request_headers)
  have "(k, key) \<in> set kvs" using map_of_SomeD [OF assms(4)] by simp
  then have "length key \<le> length (request_text verb target kvs content)"
    by (auto simp: request_text_def lines_text_def header_line_def length_concat o_def
        dest!: split_list)
  then have "length key < 2 ^ 32 - 36" using assms(1) by (simp add: plain_request_def default_max_buffer_def)
  then have "add_new_connection_connection (byte_order mc) (hash_memory mc) connection ?hs (request_path target) (websocket_descriptor st)
      = Inr (True, [Send connection (bytes_of (handshake_response (accept_key key)))], insert connection (websocket_descriptor st))"
    using add_new_connection_handshake [where k = k and key = key and headers = ?hs, OF assms(8)] items keys assms(4-7)
    by simp
  moreover have "request_text verb target kvs content \<noteq> []" by (simp add: request_text_def)
  ultimately show ?thesis
    using received_plain [OF assms(1), of es] read_request_plain [OF assms(1,2), of mc] ws
    by (simp add: handle_connection_request_def Let_def request_object_def)
qed

lemma request_answer:
  assumes "plain_request verb target kvs content" and "parse_url_params target = Inr params"
    and "''Upgrade'' \<notin> fst ` set kvs"
    and "umap_ok (routes_map_org st)"
    and "umap_find (routes_map_org st) (request_path target) = Some cb"
    and "request_path target \<noteq> INVALID_HTTP_URI"
    and "cb (request_object mc verb target kvs params content) = Inr res"
  shows "handle_connection_request mc recv connection st
           (Rx_Data (bytes_of (request_text verb target kvs content)) # es)
    = Inr (Send connection (bytes_of (response_text res)) # (if close_fd res then [Close connection] else []), st, es)"
proof -
  have "\<not> is_websocket (request_headers kvs)"
    using assms(3) by (simp add: is_websocket_def umap_find_request_headers map_of_eq_None_iff)
  moreover have "request_text verb target kvs content \<noteq> []" by (simp add: request_text_def)
  moreover have "respond mc st (request_object mc verb target kvs params content) = Inr (response_text res, close_fd res)"
    using respond_exact [of st "request_object mc verb target kvs params content" cb mc] assms(4-7)
    by (simp add: request_object_def)
  ultimately show ?thesis
    using received_plain [OF assms(1), of es] read_request_plain [OF assms(1,2), of mc]
    by (simp add: handle_connection_request_def Let_def request_object_def)
qed

section \<open>Properties\<close>

text \<open>
  C2: A well-formed request for a registered path is answered by the handler of this path: the
  handler is called with the verb, the path, the header fields and the query parameters that the
  client wrote, the text of its response is sent on the connection, nothing else is, and the
  connection is closed exactly when the response says so; the state of the server is unchanged.
\<close>

theorem request_served:
  assumes "plain_request verb target kvs content" and "parse_url_params target = Inr params"
    and "''Upgrade'' \<notin> fst ` set kvs"
    and "umap_ok (routes_map_org st)"
    and "umap_find (routes_map_org st) (request_path target) = Some cb"
    and "request_path target \<noteq> INVALID_HTTP_URI"
    and "cb (request_object mc verb target kvs params content) = Inr res"
  shows "handle_connection_request mc recv connection st
           (Rx_Data (bytes_of (request_text verb target kvs content)) # es)
    = Inr (Send connection (bytes_of (response_text res)) # (if close_fd res then [Close connection] else []), st, es)"
  using assms by (rule request_answer)

definition hello_machine :: machine where
  "hello_machine = \<lparr>byte_order = Little_Endian, hash_memory = zero_mem, fd_memory = 0,
     regex = (\<lambda>p s. Some (p = s))\<rparr>"

definition hello_state :: http_state where
  "hello_state = \<lparr>routes_map_org = add_route_handler ''/hello''
      (\<lambda>req. Inr (set_body (str_verb req) (http_response_new OK))) [], websocket_descriptor = {}\<rparr>"

lemmas plain_simps = plain_request_def request_text_def plain_field_def plain_value_def clean_def
  lines_text_def header_line_def default_max_buffer_def

theorem request_served_witness:
  "handle_connection_request hello_machine recv 4 hello_state
      [Rx_Data (bytes_of (request_text ''GET'' ''/hello'' [(''Host'', ''h'')] []))]
    = Inr ([Send 4 (bytes_of (response_text (set_body ''GET'' (http_response_new OK)))), Close 4], hello_state, [])"
  using request_served [of "''GET''" "''/hello''" "[(''Host'', ''h'')]" "[]" "[]" hello_state
      "\<lambda>req. Inr (set_body (str_verb req) (http_response_new OK))" hello_machine
      "set_body ''GET'' (http_response_new OK)" 4 "[]"]
  by (simp add: plain_simps parse_url_params_def hello_state_def add_route_handler_def umap_insert_def
      request_path_def INVALID_HTTP_URI_def request_object_def set_body_def http_response_new_def)

text \<open>
  C3: A handshake request makes its connection a WebSocket: a well-formed request with an Upgrade
  field and one non-empty key field is answered with 101 and the accept value for its key, the
  descriptor joins the set, the connection stays open, no handler is called.
\<close>

theorem upgrade_served:
  assumes "plain_request verb target kvs content" and "parse_url_params target = Inr params"
    and "''Upgrade'' \<in> fst ` set kvs"
    and "map_of (rev kvs) k = Some key" and "to_lower_case k = ''sec-websocket-key''"
    and "\<And>k'. k' \<in> fst ` set kvs \<Longrightarrow> to_lower_case k' = ''sec-websocket-key'' \<Longrightarrow> k' = k"
    and "key \<noteq> []" and "length (Message_Block (hash_memory mc)) = 64"
  shows "handle_connection_request mc recv connection st
           (Rx_Data (bytes_of (request_text verb target kvs content)) # es)
    = Inr ([Send connection (bytes_of (handshake_response (accept_key key)))],
           st\<lparr>websocket_descriptor := insert connection (websocket_descriptor st)\<rparr>, es)"
  by (rule upgrade_answer [OF assms])

theorem upgrade_served_witness:
  "handle_connection_request hello_machine recv 4 hello_state
      [Rx_Data (bytes_of (request_text ''GET'' ''/chat'' [(''Upgrade'', ''websocket''), (''Sec-WebSocket-Key'', ''abc'')] []))]
    = Inr ([Send 4 (bytes_of (handshake_response (accept_key ''abc'')))],
           hello_state\<lparr>websocket_descriptor := {4}\<rparr>, [])"
proof -
  have "to_lower_case ''Sec-WebSocket-Key'' = ''sec-websocket-key''"
    and "to_lower_case ''Upgrade'' \<noteq> ''sec-websocket-key''" by code_simp+
  then show ?thesis
    using upgrade_served [of "''GET''" "''/chat''" "[(''Upgrade'', ''websocket''), (''Sec-WebSocket-Key'', ''abc'')]"
        "[]" "[]" "''Sec-WebSocket-Key''" "''abc''" hello_machine 4 hello_state "[]"]
    by (auto simp: plain_simps parse_url_params_def hello_machine_def hello_state_def)
qed

text \<open>
  C15: What a call does to the network, for every input: nothing at all, or one send on its own
  connection, which it may close afterwards; it never touches another connection, never unregisters
  a WebSocket, and a connection that becomes a WebSocket is not closed.
\<close>

theorem connection_effects:
  assumes "handle_connection_request mc rcv connection st s = Inr (effs, st', s')"
  shows "(effs = [] \<or> (\<exists>b. effs = [Send connection b] \<or> effs = [Send connection b, Close connection]))
    \<and> routes_map_org st' = routes_map_org st
    \<and> websocket_descriptor st \<subseteq> websocket_descriptor st'
    \<and> websocket_descriptor st' \<subseteq> insert connection (websocket_descriptor st)
    \<and> (websocket_descriptor st' \<noteq> websocket_descriptor st \<longrightarrow> Close connection \<notin> set effs)"
  by (rule handle_effects [OF assms])

theorem connection_effects_witness:
  "\<exists>effs st' s'. handle_connection_request hello_machine recv 4 hello_state
        [Rx_Data (bytes_of (request_text ''GET'' ''/hello'' [(''Host'', ''h'')] []))] = Inr (effs, st', s')
      \<and> effs \<noteq> [] \<and> (\<exists>b. effs = [Send 4 b] \<or> effs = [Send 4 b, Close 4]) \<and> websocket_descriptor st' \<subseteq> {4}"
proof -
  let ?es = "[Rx_Data (bytes_of (request_text ''GET'' ''/hello'' [(''Host'', ''h'')] []))]"
  let ?b = "bytes_of (response_text (set_body ''GET'' (http_response_new OK)))"
  have h: "handle_connection_request hello_machine recv 4 hello_state ?es = Inr ([Send 4 ?b, Close 4], hello_state, [])"
    using request_answer [of "''GET''" "''/hello''" "[(''Host'', ''h'')]" "[]" "[]" hello_state
        "\<lambda>req. Inr (set_body (str_verb req) (http_response_new OK))" hello_machine
        "set_body ''GET'' (http_response_new OK)" 4 "[]"]
    by (simp add: plain_simps parse_url_params_def hello_state_def add_route_handler_def umap_insert_def
        request_path_def INVALID_HTTP_URI_def request_object_def set_body_def http_response_new_def)
  have "websocket_descriptor hello_state = {}" by (simp add: hello_state_def)
  with h connection_effects [OF h] show ?thesis by auto
qed

text \<open>
  A connection from which nothing arrives (the peer has closed it, the read fails, or the
  first byte is NUL) is left alone: nothing is sent and the descriptor is not closed.
\<close>

theorem silent_connection_leaks:
  assumes "rcv default_max_buffer s = (l, data, s')"
    and "l \<le> 0 \<or> (length data < default_max_buffer \<and> hd (data @ [0]) = 0)"
  shows "handle_connection_request mc rcv connection st s = Inr ([], st, s')"
proof -
  have "received_str rcv s = Inr ([], s')"
  proof (cases "l \<le> 0")
    case False
    with assms(2) have "length data < default_max_buffer" and hd: "hd (data @ [0]) = 0" by auto
    moreover have "char_of (0 :: nat) = NUL" by code_simp
    then have "c_str (string_of data) = []"
      using hd by (cases data) (simp_all add: string_of_def c_str_def char_of_byte_def)
    ultimately show ?thesis using assms(1) False by (simp add: received_str_def)
  qed (use assms(1) in \<open>simp add: received_str_def\<close>)
  then show ?thesis by (simp add: handle_connection_request_def)
qed

theorem silent_connection_leaks_witness:
  "handle_connection_request hello_machine recv 4 hello_state [Rx_Close] = Inr ([], hello_state, [Rx_Close])"
  by (rule silent_connection_leaks [of recv _ 0 "[]"]) simp_all

text \<open>
  C26: One request can end the server: for every request text that fits the buffer and has, before
  its first empty line, a header line whose first colon is its last character, the call leaves by
  an uncaught std::out_of_range, whatever the routes are.
\<close>

theorem bare_colon_crashes:
  assumes "req \<noteq> []" and "length req < default_max_buffer" and "NUL \<notin> set req"
    and "l \<in> set (takeWhile (\<lambda>l. l \<noteq> []) (tl (text_lines req)))"
    and "find_first (\<lambda>c. c = CHR '':'') l = Some (length l - 1)"
  shows "handle_connection_request mc recv connection st (Rx_Data (bytes_of req) # es) = Inl Out_Of_Range"
proof -
  have "parse_headers req = Inl Out_Of_Range" using assms(4,5) parse_headers_Inl by blast
  moreover obtain target where "extract_url_with_query_params req = Inr target"
    using extract_url_total [of req] assms(2) by (auto simp: default_max_buffer_def)
  moreover have "\<exists>verb. extract_http_verb req = Inr verb" by (simp add: extract_http_verb_def substr_def)
  ultimately have "read_request mc req = Inl Out_Of_Range"
    by (auto simp: read_request_def extract_url_cut Let_def)
  then show ?thesis
    using received_request [OF assms(1-3), of es] assms(1) by (simp add: handle_connection_request_def)
qed

theorem bare_colon_crashes_witness:
  "handle_connection_request hello_machine recv 4 hello_state
     [Rx_Data (bytes_of (''GET / HTTP/1.1'' @ CRLF @ ''Host:'' @ [LF]))] = Inl Out_Of_Range"
  by (rule bare_colon_crashes [where l = "''Host:''"])
    (simp_all add: default_max_buffer_def text_lines.simps getline_def)

end
