(* ===== verification/Tcp_Default.thy ===== *)
theory Tcp_Default
  imports Tcp_Setup Http_Server
begin

text \<open>
  \<open>tcp_default_handler\<close> (src/tcp_default_handler.cpp): the accept loop, which starts a detached
  thread per connection, and \<open>handle_incomming_connection\<close>. The threads and the loop interleave,
  so the server is a step relation: accept a connection, or let a thread that is pending do its
  work. A thread's work is one step here; \<open>Tcp_Threads\<close> has the steps inside it.
\<close>

section \<open>The definitions\<close>

text \<open>
  The work of a thread. Without a handler the bytes of one read of at most 1024 are echoed; a
  failed read is then sent with the length \<open>-1\<close>, far past the end of the buffer.
\<close>

definition handle_connection ::
  "(int \<Rightarrow> 'w \<Rightarrow> (net_effect list \<times> 'w) result) option \<Rightarrow> (int \<Rightarrow> 'w recv_fun) \<Rightarrow> int \<Rightarrow> 'w \<Rightarrow>
     (net_effect list \<times> 'w) result" where
  "handle_connection on_new_connection_handler_cb rcv fd w =
     (case on_new_connection_handler_cb of
        None \<Rightarrow> (case rcv fd 1024 w of (c, buffer, w') \<Rightarrow>
                   if c < 0 then Inl Undefined_Behaviour else Inr ([Send fd (take (nat c) buffer)], w'))
      | Some cb \<Rightarrow> cb fd w)"

text \<open>The server: connections accepted so far, threads that have not run, effects, the world.\<close>

record 'w default_state =
  accepted :: "int list"
  pending :: "int list"
  effects :: "net_effect list"
  world :: 'w

inductive default_step ::
  "(int \<Rightarrow> 'w \<Rightarrow> (net_effect list \<times> 'w) result) \<Rightarrow> 'w default_state \<Rightarrow> 'w default_state \<Rightarrow> bool"
  for work where
  accept_step: "default_step work s (s\<lparr>accepted := fd # accepted s, pending := fd # pending s\<rparr>)"
| thread_step:
    "fd \<in> set (pending s) \<Longrightarrow> work fd (world s) = Inr (effs, w') \<Longrightarrow>
       default_step work s (s\<lparr>pending := remove1 fd (pending s), effects := effects s @ effs, world := w'\<rparr>)"

inductive_cases default_stepE [consumes 1, case_names accept thread]: "default_step work s s'"

inductive default_reach ::
  "(int \<Rightarrow> 'w \<Rightarrow> (net_effect list \<times> 'w) result) \<Rightarrow> 'w \<Rightarrow> 'w default_state \<Rightarrow> bool"
  for work w0 where
  start: "default_reach work w0 \<lparr>accepted = [], pending = [], effects = [], world = w0\<rparr>"
| step: "default_reach work w0 s \<Longrightarrow> default_step work s s' \<Longrightarrow> default_reach work w0 s'"

definition effect_fd :: "net_effect \<Rightarrow> int" where
  "effect_fd e = (case e of Send fd _ \<Rightarrow> fd | Close fd \<Rightarrow> fd)"

text \<open>The HTTP server as the work of a thread: the world holds its state and the sockets.\<close>

definition http_work ::
  "machine \<Rightarrow> (int \<Rightarrow> 's recv_fun) \<Rightarrow> int \<Rightarrow> http_state \<times> 's \<Rightarrow> (net_effect list \<times> http_state \<times> 's) result" where
  "http_work mc rcv fd w = handle_connection_request mc (rcv fd) fd (fst w) (snd w)"

section \<open>Lemmas\<close>

text \<open>What every reachable state satisfies when a thread touches only its own connection.\<close>

definition default_inv :: "'w default_state \<Rightarrow> bool" where
  "default_inv s \<longleftrightarrow>
     set (pending s) \<subseteq> set (accepted s) \<and> (\<forall>e \<in> set (effects s). effect_fd e \<in> set (accepted s))"

text \<open>
  The interface between the server and a connection handler: a handler touches only the connection
  it is called for. The client lemma is the invariant of the interleaved server.
\<close>

locale connection_handler =
  fixes work :: "int \<Rightarrow> 'w \<Rightarrow> (net_effect list \<times> 'w) result"
    and kept :: "'w \<Rightarrow> 'k"
  assumes own_connection: "work fd w = Inr (effs, w') \<Longrightarrow> e \<in> set effs \<Longrightarrow> effect_fd e = fd"
    and keeps: "work fd w = Inr (effs, w') \<Longrightarrow> kept w' = kept w"
begin

lemma reach_confined: "default_reach work w0 s \<Longrightarrow> default_inv s \<and> kept (world s) = kept w0"
proof (induction rule: default_reach.induct)
  case start
  then show ?case by (simp add: default_inv_def)
next
  case (step s s')
  from step(2) show ?case
  proof (cases rule: default_stepE)
    case (accept fd)
    with step.IH show ?thesis by (auto simp: default_inv_def)
  next
    case (thread fd effs w')
    then have "\<forall>e \<in> set effs. effect_fd e = fd" and "kept w' = kept (world s)"
      using own_connection keeps by blast+
    with thread step.IH set_remove1_subset [of fd "pending s"] show ?thesis by (auto simp: default_inv_def)
  qed
qed

end

lemma http_work_own:
  assumes "http_work mc rcv fd w = Inr (effs, w')"
  shows "(e \<in> set effs \<longrightarrow> effect_fd e = fd) \<and> routes_map_org (fst w') = routes_map_org (fst w)"
  using handle_effects [of mc "rcv fd" fd "fst w" "snd w" effs "fst w'" "snd w'"] assms
  by (auto simp: http_work_def effect_fd_def)

interpretation http: connection_handler "http_work mc rcv" "\<lambda>w. routes_map_org (fst w)" for mc rcv
  by unfold_locales (use http_work_own in blast)+

section \<open>Properties\<close>

text \<open>
  However the accept loop and the threads of the default server interleave, with the HTTP
  server as their handler every byte sent and every descriptor closed belongs to a connection that
  was accepted, and the routes are those of the start.
\<close>

theorem default_server_confined:
  assumes "default_reach (http_work mc rcv) (st, w) s"
  shows "(\<forall>e \<in> set (effects s). effect_fd e \<in> set (accepted s))
    \<and> set (pending s) \<subseteq> set (accepted s)
    \<and> routes_map_org (fst (world s)) = routes_map_org st"
  using http.reach_confined [OF assms] by (simp add: default_inv_def)

theorem default_server_confined_witness:
  "\<exists>s. default_reach (http_work hello_machine (\<lambda>fd. recv)) (hello_state, [Rx_Close]) s \<and> accepted s = [4]
     \<and> pending s = [] \<and> (\<forall>e \<in> set (effects s). effect_fd e \<in> set [4])"
proof -
  let ?work = "http_work hello_machine (\<lambda>fd. recv)"
  let ?s0 = "\<lparr>accepted = [], pending = [], effects = [], world = (hello_state, [Rx_Close])\<rparr>"
  let ?s1 = "?s0\<lparr>accepted := [4], pending := [4]\<rparr>"
  let ?s2 = "?s1\<lparr>pending := []\<rparr>"
  have "default_step ?work ?s0 ?s1" using accept_step [of ?work ?s0 4] by simp
  moreover have "?work 4 (hello_state, [Rx_Close]) = Inr ([], hello_state, [Rx_Close])"
    by (simp add: http_work_def handle_connection_request_def received_str_def)
  then have "default_step ?work ?s1 ?s2"
    using thread_step [of 4 ?s1 ?work "[]" "(hello_state, [Rx_Close])"] by simp
  ultimately have reach: "default_reach ?work (hello_state, [Rx_Close]) ?s2"
    by (meson default_reach.start default_reach.step)
  from default_server_confined [OF this] reach show ?thesis by (intro exI [of _ ?s2]) simp
qed

end
