(* ===== verification/System.thy ===== *)
theory System
  imports Tcp_Poll Tcp_Default
begin

text \<open>
  The poll server with the HTTP server as its connection handler and the WebSocket manager for its
  messages, as the programs put them together: one world holds the state of the two singletons, the
  connections that \<open>accept\<close> will deliver and the input of every socket.
\<close>

section \<open>The world\<close>

record sys_world =
  web :: http_state
  backlog :: "int list"
  sockets :: "int \<Rightarrow> rx_event list"

definition sock_recv :: "int \<Rightarrow> (int \<Rightarrow> rx_event list) recv_fun" where
  "sock_recv fd n f = (case recv n (f fd) of (r, d, es) \<Rightarrow> (r, d, f(fd := es)))"

definition sys_connection :: "machine \<Rightarrow> int \<Rightarrow> sys_world \<Rightarrow> (net_effect list \<times> sys_world) result" where
  "sys_connection mc fd w =
     rbind (handle_connection_request mc (sock_recv fd) fd (web w) (sockets w)) (\<lambda>(effs, st, f).
       Inr (effs, w\<lparr>web := st, sockets := f\<rparr>))"

definition sys_notify :: "nat \<Rightarrow> int \<Rightarrow> sys_world \<Rightarrow> (net_effect list \<times> sys_world) result" where
  "sys_notify maxmem fd w =
     rbind (notify_message_request maxmem (sock_recv fd) fd (websocket_descriptor (web w)) (sockets w))
       (\<lambda>(effs, f). Inr (effs, w\<lparr>sockets := f\<rparr>))"

definition sys_env :: "machine \<Rightarrow> nat \<Rightarrow> sys_world poll_env" where
  "sys_env mc maxmem =
     \<lparr>env_accept = (\<lambda>w. case backlog w of [] \<Rightarrow> (-1, w) | c # cs \<Rightarrow> (c, w\<lparr>backlog := cs\<rparr>)),
      env_peek = (\<lambda>fd w. fst (recv 2048 (sockets w fd))),
      env_getfl = (\<lambda>fd w. 0),
      env_connection = Some (sys_connection mc),
      env_notify = sys_notify maxmem\<rparr>"

section \<open>One socket inside the world\<close>

text \<open>The handler reads once, then works on the text alone.\<close>

definition handle_text :: "machine \<Rightarrow> int \<Rightarrow> http_state \<Rightarrow> string \<Rightarrow> (net_effect list \<times> http_state) result" where
  "handle_text mc con st str_request =
     (if str_request = [] then Inr ([], st)
      else rbind (read_request mc str_request) (\<lambda>request.
        let reply = rbind (respond mc st request) (\<lambda>(response, closefd).
              Inr (Send con (bytes_of response) # (if closefd then [Close con] else []), st))
        in if is_websocket (headers request)
           then rbind (add_new_connection_connection (byte_order mc) (hash_memory mc) con
                         (headers request) (url request) (websocket_descriptor st)) (\<lambda>(ok, effs, ws).
                  if ok then Inr (effs, st\<lparr>websocket_descriptor := ws\<rparr>) else reply)
           else reply))"

lemma handle_is_text:
  "handle_connection_request mc rcv con st s
     = rbind (received_str rcv s) (\<lambda>(t, s'). rbind (handle_text mc con st t) (\<lambda>(effs, st'). Inr (effs, st', s')))"
proof (cases "received_str rcv s")
  case (Inr r)
  obtain t s' where r: "r = (t, s')" by (cases r)
  show ?thesis
  proof (cases "t = [] \<or> (\<exists>e. read_request mc t = Inl e)")
    case True
    with Inr r show ?thesis by (auto simp: handle_connection_request_def handle_text_def)
  next
    case False
    then obtain req where req: "t \<noteq> []" "read_request mc t = Inr req" by (cases "read_request mc t") auto
    show ?thesis
      using Inr r req
      by (cases "respond mc st req";
          cases "add_new_connection_connection (byte_order mc) (hash_memory mc) con (headers req) (url req) (websocket_descriptor st)")
        (simp_all add: handle_connection_request_def handle_text_def Let_def split: prod.split)
  qed
qed (simp add: handle_connection_request_def)

text \<open>
  A reader that works on a part of its state: what the program reads through it is what it reads
  from the part alone, and the rest does not change.
\<close>

locale recv_embed =
  fixes rcv :: "'s recv_fun"
    and rcv' :: "'t recv_fun"
    and embed :: "'s \<Rightarrow> 't"
  assumes embedded: "rcv n s = (r, d, s') \<Longrightarrow> rcv' n (embed s) = (r, d, embed s')"
begin

lemma recv_step: "rcv' n (embed s) = (case rcv n s of (r, d, s') \<Rightarrow> (r, d, embed s'))"
  using embedded by (cases "rcv n s") simp

lemma recv_all_embed: "recv_all rcv' want got (embed s) = map_prod id embed (recv_all rcv want got s)"
proof (induction want arbitrary: got s rule: less_induct)
  case (less want)
  show ?case
  proof (cases "want = 0")
    case False
    obtain r d s1 where step: "rcv want s = (r, d, s1)" by (cases "rcv want s")
    show ?thesis
    proof (cases "r \<le> 0")
      case True
      with False step show ?thesis by (simp add: recv_all.simps [of _ want] recv_step)
    next
      case r: False
      then have "want - nat r < want" using False by simp
      from less.IH [OF this] show ?thesis using r False step by (simp add: recv_all.simps [of _ want] recv_step)
    qed
  qed simp
qed

lemma read_length_embed: "read_length rcv' h (embed s) = map_prod id embed (read_length rcv h s)"
  by (simp add: read_length_def recv_step Let_def split: prod.split)

lemma read_key_embed: "read_key rcv' h (embed s) = map_prod id embed (read_key rcv h s)"
  by (simp add: read_key_def recv_step split: prod.split)

lemma read_frame_embed:
  "read_frame mem rcv' (embed s) = rbind (read_frame mem rcv s) (\<lambda>(m, s'). Inr (m, embed s'))"
  by (simp add: read_frame_def recv_step read_length_embed read_key_embed recv_all_embed Let_def
      split: prod.split option.split sum.split)

lemma received_str_embed:
  "received_str rcv' (embed s) = rbind (received_str rcv s) (\<lambda>(t, s'). Inr (t, embed s'))"
  by (simp add: received_str_def recv_step split: prod.split)

lemma notify_embed:
  "notify_message_request mem rcv' fd ws (embed s)
     = rbind (notify_message_request mem rcv fd ws s) (\<lambda>(effs, s'). Inr (effs, embed s'))"
  by (cases "read_frame mem rcv s") (auto simp: notify_message_request_def read_frame_embed Let_def)

lemma handle_embed:
  assumes "handle_connection_request mc rcv con st s = Inr (effs, st', s')"
  shows "handle_connection_request mc rcv' con st (embed s) = Inr (effs, st', embed s')"
  using assms unfolding handle_is_text received_str_embed
  by (cases "received_str rcv s") (auto simp: rbind_Inr_iff)

end

interpretation sock: recv_embed recv "sock_recv fd" "\<lambda>es. f(fd := es)" for fd f
  by unfold_locales (simp add: sock_recv_def)

lemma sys_connection_eq:
  assumes "handle_connection_request mc recv fd (web w) (sockets w fd) = Inr (effs, st, es)"
  shows "sys_connection mc fd w = Inr (effs, w\<lparr>web := st, sockets := (sockets w)(fd := es)\<rparr>)"
  using sock.handle_embed [OF assms, where f = "sockets w" and fd = fd] by (simp add: sys_connection_def)

lemma sys_notify_eq:
  assumes "notify_message_request maxmem recv fd (websocket_descriptor (web w)) (sockets w fd) = Inr (effs, es)"
  shows "sys_notify maxmem fd w = Inr (effs, w\<lparr>sockets := (sockets w)(fd := es)\<rparr>)"
  using sock.notify_embed [where mem = maxmem and fd = fd and ws = "websocket_descriptor (web w)" and s = "sockets w fd"
      and f = "sockets w" and fda = fd] assms
  by (simp add: sys_notify_def)

section \<open>Two rounds of the loop\<close>

lemma accept_round:
  assumes "pfd e = server" and "revents e = POLLIN" and "backlog w = c # cs"
    and "sys_connection mc c (w\<lparr>backlog := cs\<rparr>) = Inr (effs, w')"
  shows "poll_scan (sys_env mc maxmem) server 0 [e] w
    = Inr ([e, \<lparr>pfd = c, events = POLLIN, revents = 0\<rparr>],
        [Sys_Accept server, Sys_Set_Nonblocking c] @ map Sys_Net effs, w')"
proof -
  let ?n = "\<lparr>pfd = c, events = POLLIN, revents = 0\<rparr>"
  have "poll_event (sys_env mc maxmem) server 0 [e] w
      = Inr ([e, ?n], [Sys_Accept server, Sys_Set_Nonblocking c] @ map Sys_Net effs, w')"
    using assms by (simp add: poll_event_def sys_env_def handle_incomming_connection_def
        POLLIN_def POLLOUT_def POLLHUP_def)
  moreover have "poll_scan (sys_env mc maxmem) server (length [e]) ([e] @ [?n]) w' = Inr ([e] @ [?n], [], w')"
    by (rule poll_scan_quiet) (simp add: quiet_zero)
  ultimately show ?thesis by (simp add: poll_scan_step)
qed

lemma message_round:
  assumes "quiet e" and "pfd p = c" and "c \<noteq> server" and "revents p = POLLIN"
    and "0 < fst (recv 2048 (sockets w c))" and "sys_notify maxmem c w = Inr (effs, w')"
  shows "poll_scan (sys_env mc maxmem) server 0 [e, p] w = Inr ([e, p], map Sys_Net effs, w')"
proof -
  have "poll_event (sys_env mc maxmem) server 1 [e, p] w = Inr ([e, p], map Sys_Net effs, w')"
    using assms by (simp add: poll_event_def sys_env_def POLLIN_def POLLOUT_def POLLHUP_def Let_def)
  then have "poll_scan (sys_env mc maxmem) server 1 [e, p] w = Inr ([e, p], map Sys_Net effs, w')"
    by (simp add: poll_scan_step poll_scan_end)
  moreover have "poll_event (sys_env mc maxmem) server 0 [e, p] w = Inr ([e, p], [], w)"
    by (rule poll_event_quiet) (use assms(1) in simp)
  ultimately show ?thesis by (simp add: poll_scan_step)
qed

end
