(* ===== verification/Tcp_Epoll.thy ===== *)
theory Tcp_Epoll
  imports Tcp_Setup Http_Response
begin

text \<open>
  The event loop of \<open>tcp_epoll_handler\<close> (src/tcp_epoll_handler.cpp). It answers every client by
  itself, with a page that counts the requests; the connection handler given to the constructor
  is never called. The answers of \<open>accept\<close>, \<open>recv\<close> and \<open>epoll_ctl\<close> are the record \<open>epoll_env\<close>;
  \<open>count\<close> is the static counter of the file.
\<close>

section \<open>The definitions\<close>

record 'w epoll_env =
  epoll_accept :: "'w \<Rightarrow> int \<times> 'w"
  epoll_add :: "int \<Rightarrow> 'w \<Rightarrow> int"
  epoll_recv :: "int \<Rightarrow> 'w \<Rightarrow> int \<times> 'w"
  would_block :: "'w \<Rightarrow> bool"      \<comment> \<open>errno is EWOULDBLOCK or EAGAIN\<close>

definition epoll_page :: "int \<Rightarrow> string" where
  "epoll_page n = ''Hola eres el numero==>'' @ int_to_string n"

definition epoll_response :: "int \<Rightarrow> string" where
  "epoll_response n =
     (let body_of_response = epoll_page n;
          response = ''HTTP/1.1 200 OK'' @ CRLF;
          response = response @ ''Content-Type: text/plain'' @ CRLF;
          response = response @ ''Content-Length: '' @ nat_to_string (length body_of_response) @ CRLF;
          response = response @ ''Connection: close'' @ CRLF @ CRLF
      in response @ body_of_response)"

text \<open>One event, of the descriptor \<open>fd\<close>; incrementing \<open>INT_MAX\<close> is undefined.\<close>

definition epoll_event ::
  "'w epoll_env \<Rightarrow> tcp_epoll_handler \<Rightarrow> int \<Rightarrow> int \<times> 'w \<Rightarrow> (sys_call list \<times> int \<times> 'w) result" where
  "epoll_event env h fd cw =
     (case cw of (count, w) \<Rightarrow>
      if fd = server_fd h then
        (case epoll_accept env w of (client_fd, w) \<Rightarrow>
           if client_fd < 0 then Inr ([Sys_Accept (server_fd h)], count, w)
           else Inr ([Sys_Accept (server_fd h), Sys_Set_Nonblocking client_fd,
                      Sys_Setsockopt client_fd SO_KEEPALIVE, Sys_Epoll_Add (epoll_fd h) client_fd]
                     @ (if epoll_add env client_fd w < 0 then [Sys_Net (Close client_fd)] else []), count, w))
      else
        (case epoll_recv env fd w of (bytes_read, w) \<Rightarrow>
           if bytes_read > 0 then
             (if count = 2 ^ 31 - 1 then Inl Undefined_Behaviour
              else let count = count + 1 in
                   Inr ([Sys_Net (Send fd (bytes_of (epoll_response count))), Sys_Net (Close fd),
                         Sys_Epoll_Del (epoll_fd h) fd], count, w))
           else if bytes_read = 0 then
             Inr ([Sys_Net (Close fd), Sys_Epoll_Del (epoll_fd h) fd], count, w)
           else if \<not> would_block env w then
             Inr ([Sys_Net (Close fd), Sys_Epoll_Del (epoll_fd h) fd], count, w)
           else Inr ([], count, w)))"

text \<open>The events of one \<open>epoll_wait\<close>, and the loop over its answers (\<open>None\<close>: it failed).\<close>

fun epoll_events ::
  "'w epoll_env \<Rightarrow> tcp_epoll_handler \<Rightarrow> int list \<Rightarrow> int \<times> 'w \<Rightarrow> (sys_call list \<times> int \<times> 'w) result" where
  "epoll_events env h [] (count, w) = Inr ([], count, w)"
| "epoll_events env h (fd # fds) cw =
     rbind (epoll_event env h fd cw) (\<lambda>(calls, cw).
     rbind (epoll_events env h fds cw) (\<lambda>(calls', cw). Inr (calls @ calls', cw)))"

fun epoll_loop ::
  "'w epoll_env \<Rightarrow> tcp_epoll_handler \<Rightarrow> int list option list \<Rightarrow> int \<times> 'w \<Rightarrow> (sys_call list \<times> int \<times> 'w) result" where
  "epoll_loop env h [] (count, w) = Inr ([], count, w)"
| "epoll_loop env h (None # answers) (count, w) = Inr ([], count, w)"
| "epoll_loop env h (Some fds # answers) cw =
     rbind (epoll_events env h fds cw) (\<lambda>(calls, cw).
     rbind (epoll_loop env h answers cw) (\<lambda>(calls', cw). Inr (calls @ calls', cw)))"

section \<open>Lemmas\<close>

text \<open>The texts that a list of calls sends.\<close>

definition sent :: "sys_call list \<Rightarrow> byte list list" where
  "sent calls = concat (map (\<lambda>c. case c of Sys_Net (Send fd b) \<Rightarrow> [b] | _ \<Rightarrow> []) calls)"

definition pages :: "int \<Rightarrow> int \<Rightarrow> byte list list" where
  "pages c c' = map (\<lambda>n. bytes_of (epoll_response n)) [c + 1..c']"

lemma sent_append [simp]: "sent (cs @ cs') = sent cs @ sent cs'"
  by (simp add: sent_def)

lemma pages_trans: "c \<le> c1 \<Longrightarrow> c1 \<le> c2 \<Longrightarrow> pages c c1 @ pages c1 c2 = pages c c2"
proof -
  assume "c \<le> c1" "c1 \<le> c2"
  then have "[c + 1..c2] = [c + 1..c1] @ [c1 + 1..c2]"
    using upto_split2 [of "c + 1" c1 c2] by (cases "c = c1") simp_all
  then show ?thesis by (simp add: pages_def)
qed

lemma epoll_event_pages:
  "epoll_event env h fd (c, w) = Inr (calls, c', w') \<Longrightarrow> sent calls = pages c c' \<and> c \<le> c'"
  by (auto simp: epoll_event_def sent_def pages_def Let_def split: if_splits prod.splits)

lemma epoll_events_pages:
  "epoll_events env h fds (c, w) = Inr (calls, c', w') \<Longrightarrow> sent calls = pages c c' \<and> c \<le> c'"
proof (induction fds arbitrary: c w calls)
  case Nil
  then show ?case by (auto simp: sent_def pages_def)
next
  case (Cons fd fds)
  then obtain calls1 c1 w1 calls2 where e: "epoll_event env h fd (c, w) = Inr (calls1, c1, w1)"
    and r: "epoll_events env h fds (c1, w1) = Inr (calls2, c', w')" and calls: "calls = calls1 @ calls2"
    by (auto simp: rbind_Inr_iff)
  from epoll_event_pages [OF e] Cons.IH [OF r] calls show ?case by (auto simp: pages_trans)
qed

lemma epoll_loop_pages:
  "epoll_loop env h answers (c, w) = Inr (calls, c', w') \<Longrightarrow> sent calls = pages c c' \<and> c \<le> c'"
proof (induction answers arbitrary: c w calls)
  case Nil
  then show ?case by (auto simp: sent_def pages_def)
next
  case (Cons a answers)
  show ?case
  proof (cases a)
    case None
    with Cons.prems show ?thesis by (auto simp: sent_def pages_def)
  next
    case (Some fds)
    with Cons.prems obtain calls1 c1 w1 calls2 where e: "epoll_events env h fds (c, w) = Inr (calls1, c1, w1)"
      and r: "epoll_loop env h answers (c1, w1) = Inr (calls2, c', w')" and calls: "calls = calls1 @ calls2"
      by (auto simp: rbind_Inr_iff)
    from epoll_events_pages [OF e] Cons.IH [OF r] calls show ?thesis by (auto simp: pages_trans)
  qed
qed

lemma epoll_response_lines:
  "epoll_response n = lines_text [''HTTP/1.1 200 OK'', ''Content-Type: text/plain'',
      header_line (''Content-Length'', nat_to_string (length (epoll_page n))), ''Connection: close''] @ CRLF @ epoll_page n"
  by (simp add: epoll_response_def Let_def lines_text_def header_line_def)

section \<open>Properties\<close>

text \<open>
  C28: Over any run of the epoll loop the responses sent are the pages with consecutive numbers,
  from the counter before to the counter after, none twice and none missing, and each is framed:
  its first empty line is followed by exactly as many bytes as its Content-Length says.
\<close>

theorem pages_consecutive:
  assumes "epoll_loop env h answers (c, w) = Inr (calls, c', w')"
  shows "sent calls = map (\<lambda>n. bytes_of (epoll_response n)) [c + 1..c'] \<and> c \<le> c'
    \<and> (\<forall>n. str_find (CRLF @ CRLF) (epoll_response n) = Some (length (epoll_response n) - length (epoll_page n) - 4)
          \<and> contains (epoll_response n) (''Content-Length: '' @ nat_to_string (length (epoll_page n)) @ CRLF))"
proof -
  let ?ls = "\<lambda>n. [''HTTP/1.1 200 OK'', ''Content-Type: text/plain'',
      header_line (''Content-Length'', nat_to_string (length (epoll_page n))), ''Connection: close'']"
  have "\<forall>l \<in> set (?ls n). l \<noteq> [] \<and> clean l" for n
    using header_line_clean [of "(''Content-Length'', nat_to_string (length (epoll_page n)))"] digit_string_clean
    by (auto simp: clean_def)
  then have find: "str_find (CRLF @ CRLF) (epoll_response n) = Some (length (lines_text (?ls n)) - 2)" for n
    unfolding epoll_response_lines by (intro str_find_blank_line) simp_all
  have len: "length (epoll_response n) = length (lines_text (?ls n)) + 2 + length (epoll_page n)" for n
    unfolding epoll_response_lines by simp
  have "contains (epoll_response n) (''Content-Length: '' @ nat_to_string (length (epoll_page n)) @ CRLF)" for n
    unfolding contains_iff epoll_response_def Let_def
    by (intro exI [of _ "''HTTP/1.1 200 OK'' @ CRLF @ ''Content-Type: text/plain'' @ CRLF"]
        exI [of _ "''Connection: close'' @ CRLF @ CRLF @ epoll_page n"]) simp
  with epoll_loop_pages [OF assms] find len show ?thesis by (simp add: pages_def)
qed

definition page_env :: "nat epoll_env" where
  "page_env = \<lparr>epoll_accept = (\<lambda>n. (int n, Suc n)), epoll_add = (\<lambda>fd n. 0), epoll_recv = (\<lambda>fd n. (1, n)),
     would_block = (\<lambda>n. False)\<rparr>"

theorem pages_consecutive_witness:
  "sent [Sys_Net (Send 5 (bytes_of (epoll_response 8))), Sys_Net (Close 5), Sys_Epoll_Del 4 5,
         Sys_Net (Send 6 (bytes_of (epoll_response 9))), Sys_Net (Close 6), Sys_Epoll_Del 4 6]
    = map (\<lambda>n. bytes_of (epoll_response n)) [7 + 1..9]"
proof (rule pages_consecutive [THEN conjunct1])
  let ?h = "\<lparr>server_fd = 3, port = 9000, run = False, epoll_fd = 4\<rparr>"
  show "epoll_loop page_env ?h [Some [5], Some [6], None] (7, 0)
      = Inr ([Sys_Net (Send 5 (bytes_of (epoll_response 8))), Sys_Net (Close 5), Sys_Epoll_Del 4 5,
         Sys_Net (Send 6 (bytes_of (epoll_response 9))), Sys_Net (Close 6), Sys_Epoll_Del 4 6], 9, 0)"
    by (simp add: epoll_event_def page_env_def)
qed

text \<open>
  A client of the epoll server gets one response and is disconnected: after the event of a
  client descriptor that has data, the descriptor has been sent one page, then closed, then taken
  out of the interest list; on end of stream and on an error other than ``try again'' it is closed
  too, and it is kept only when the read would block.
\<close>

theorem epoll_client_event:
  assumes "fd \<noteq> server_fd h" and "epoll_recv env fd w = (r, w1)" and "c < 2 ^ 31 - 1"
  shows "epoll_event env h fd (c, w) =
    (if r > 0 then Inr ([Sys_Net (Send fd (bytes_of (epoll_response (c + 1)))), Sys_Net (Close fd),
                         Sys_Epoll_Del (epoll_fd h) fd], c + 1, w1)
     else if r < 0 \<and> would_block env w1 then Inr ([], c, w1)
     else Inr ([Sys_Net (Close fd), Sys_Epoll_Del (epoll_fd h) fd], c, w1))"
  using assms by (auto simp: epoll_event_def Let_def)

theorem epoll_client_event_witness:
  "epoll_event page_env \<lparr>server_fd = 3, port = 9000, run = False, epoll_fd = 4\<rparr> 5 (7, 0)
    = Inr ([Sys_Net (Send 5 (bytes_of (epoll_response 8))), Sys_Net (Close 5), Sys_Epoll_Del 4 5], 8, 0)"
  using epoll_client_event [of 5 "\<lparr>server_fd = 3, port = 9000, run = False, epoll_fd = 4\<rparr>" page_env 0 1 0 7]
  by (simp add: page_env_def)

end
