(* ===== verification/Ns_Base.thy ===== *)
theory Ns_Base
  imports Routing Tcp_Setup
begin

text \<open>
  The older library, in the namespace \<open>simple_server\<close>: its definitions
  (includes/simple_server/base/simple_server_definitions.h) and utilities
  (src/base/simple_server_utils.cpp). Every function is translated from this file, its loops
  included, with the prefix \<open>ns_\<close> where the newer library has a function of the same name; that the
  two compute the same is shown at the end, by induction over the loops. Files, directories,
  interfaces and the output of commands are arguments.
\<close>

section \<open>Status and sockets\<close>

datatype server_status =
    NoStartedYet | Starting | Running | CreatingSocket | BindingSocket | SettingOptions
  | Listening | Accepting | ErrorOrException

record socket_connection =
  connection :: int
  current_status :: server_status
  socket_port :: "16 word"

definition MAX_CONNECTIONS :: int where "MAX_CONNECTIONS = 1000"

text \<open>
  \<open>print\<close> of includes/simple_server/base/simple_server_logger.h, with one and with two arguments, and the
  line that \<open>print_error_of_descriptor\<close> prints.
\<close>

definition print_one :: "string \<Rightarrow> string" where
  "print_one t = t @ CRLF"

definition print_two :: "string \<Rightarrow> string \<Rightarrow> string" where
  "print_two t i = t @ '' '' @ i @ CRLF"

fun print_error_of_descriptor :: "server_status \<Rightarrow> int \<Rightarrow> string" where
  "print_error_of_descriptor CreatingSocket line = print_two ''Error creating the socket'' (int_to_string line)"
| "print_error_of_descriptor BindingSocket line = print_two ''Error binding the socket'' (int_to_string line)"
| "print_error_of_descriptor SettingOptions line =
     print_two ''Error setting options the socket'' (int_to_string line)"
| "print_error_of_descriptor Listening line = print_two ''Error listening call the socket'' (int_to_string line)"
| "print_error_of_descriptor Accepting line = print_two ''Error Accepting the client socket'' (int_to_string line)"
| "print_error_of_descriptor _ line = print_two ''Error in the socket'' (int_to_string line)"

section \<open>Strings, requests and patterns\<close>

text \<open>The loop of \<open>replace_all\<close>; \<open>None\<close>: it does not end.\<close>

partial_function (option) ns_replace_loop :: "string \<Rightarrow> nat \<Rightarrow> string \<Rightarrow> string \<Rightarrow> string option" where
  "ns_replace_loop str start_pos from_str to_str =
     (case str_find_at from_str str start_pos of
        None \<Rightarrow> Some str
      | Some found \<Rightarrow>
          let str = take found str @ to_str @ drop (found + length from_str) str in
          ns_replace_loop str (found + length to_str) from_str to_str)"

definition ns_replace_all :: "string \<Rightarrow> string \<Rightarrow> string \<Rightarrow> string option" where
  "ns_replace_all str from_str to_str = ns_replace_loop str 0 from_str to_str"

text \<open>
  The loop of \<open>split_words\<close> over \<open>iter\<close>, with the current word and the result; \<open>word[word.size()]\<close> is
  NUL. In the branch of a separator the code compares the character with it once more.
\<close>

definition char_at :: "string \<Rightarrow> nat \<Rightarrow> char" where
  "char_at word iter = (if iter < length word then word ! iter else NUL)"

definition ns_split_step :: "string \<Rightarrow> char \<Rightarrow> nat \<Rightarrow> string \<Rightarrow> string list \<Rightarrow> string \<times> string list" where
  "ns_split_step word sp iter str ret =
     (if char_at word iter \<noteq> sp then (str @ [char_at word iter], ret)
      else if str \<noteq> [] then
        (if char_at word iter = sp then ([], ret @ [str])
         else if char_at word (iter + 1) = sp then ([], ret @ [str @ [char_at word iter]])
         else (str, ret))
      else (str, ret))"

function ns_split_loop :: "string \<Rightarrow> char \<Rightarrow> nat \<Rightarrow> string \<Rightarrow> string list \<Rightarrow> string \<times> string list" where
  "ns_split_loop word sp iter str ret =
     (if char_at word iter = NUL then (str, ret)
      else case ns_split_step word sp iter str ret of (str, ret) \<Rightarrow> ns_split_loop word sp (iter + 1) str ret)"
  by pat_completeness auto
termination
  by (relation "measure (\<lambda>(word, sp, iter, str, ret). length word - iter)") (auto simp: char_at_def split: if_splits)

declare ns_split_loop.simps [simp del]

definition ns_split_words :: "string \<Rightarrow> char \<Rightarrow> string list" where
  "ns_split_words word sp =
     (case ns_split_loop word sp 0 [] [] of (str, ret) \<Rightarrow> if str \<noteq> [] then ret @ [str] else ret)"

definition to_lower_case_str :: "string \<Rightarrow> string" where
  "to_lower_case_str str = map to_lower str"

definition ns_extract_url_with_query_params :: "string \<Rightarrow> string result" where
  "ns_extract_url_with_query_params request =
     (let firstSpace = int_of_size (find_first (\<lambda>c. c = SP) request);
          findHttpVersion = int_of_size (str_find '' HTTP/1.1'' request)
      in substr request (size_of_int (firstSpace + 1)) (size_of_int (findHttpVersion - (firstSpace + 1))))"

definition ns_extract_url :: "string \<Rightarrow> string result" where
  "ns_extract_url request =
     rbind (ns_extract_url_with_query_params request) (\<lambda>url.
       if find_first (\<lambda>c. c = CHR ''?'') url \<noteq> None
       then substr url 0 (size_or_npos (find_first (\<lambda>c. c = CHR ''?'') url))
       else Inr url)"

definition ns_extract_body :: "string \<Rightarrow> string" where
  "ns_extract_body str = '' ''"

text \<open>The five calls of \<open>erase\<close> on the value of a header field, and the field that a line holds.\<close>

definition ns_trim :: "string \<Rightarrow> string" where
  "ns_trim headerValue =
     (let headerValue = erase_front headerValue (find_first (\<lambda>c. c \<notin> {SP, TAB}) headerValue);
          headerValue = erase_after headerValue (find_last (\<lambda>c. c \<notin> {SP, TAB}) headerValue);
          headerValue = erase_front headerValue (find_first (\<lambda>c. c \<noteq> CR) headerValue);
          headerValue = erase_front headerValue (find_first (\<lambda>c. c \<noteq> LF) headerValue)
      in erase_after headerValue (find_last (\<lambda>c. c \<notin> {CR, LF}) headerValue))"

definition ns_header_line :: "string \<Rightarrow> string umap \<Rightarrow> string umap result" where
  "ns_header_line line headers =
     (case str_find '':'' line of
        None \<Rightarrow> Inr headers
      | Some colonPos \<Rightarrow>
          rbind (substr line 0 colonPos) (\<lambda>headerName.
          rbind (substr_from line (colonPos + 2)) (\<lambda>headerValue.
            Inr (umap_set headerName (ns_trim headerValue) headers))))"

function ns_headers_loop :: "string \<Rightarrow> string umap \<Rightarrow> string umap result" where
  "ns_headers_loop iss headers =
     (case getline iss of
        None \<Rightarrow> Inr headers
      | Some (line, iss') \<Rightarrow>
          if line = [] then Inr headers
          else (case ns_header_line line headers of
                  Inl e \<Rightarrow> Inl e
                | Inr headers' \<Rightarrow> ns_headers_loop iss' headers'))"
  by pat_completeness auto
termination
  by (relation "measure (\<lambda>(iss, headers). length iss)") (auto dest: getline_shorter)

declare ns_headers_loop.simps [simp del]

text \<open>A first \<open>getline\<close> that fails leaves the stream at its end.\<close>

definition ns_parse_headers :: "string \<Rightarrow> string umap result" where
  "ns_parse_headers request =
     (let iss = (case getline request of None \<Rightarrow> [] | Some (line, iss) \<Rightarrow> iss)
      in ns_headers_loop iss [])"

text \<open>\<open>keyPairs[0]\<close> and \<open>keyPairs[1]\<close> for each variable; an index past the vector is undefined.\<close>

primrec ns_vars_loop :: "string list \<Rightarrow> string umap \<Rightarrow> string umap result" where
  "ns_vars_loop [] ret = Inr ret"
| "ns_vars_loop (var # vars) ret =
     (let keyPairs = ns_split_words var CHR ''='' in
      if length keyPairs < 2 then Inl Undefined_Behaviour
      else ns_vars_loop vars (umap_set (keyPairs ! 0) (keyPairs ! 1) ret))"

definition ns_parse_url_params :: "string \<Rightarrow> string umap result" where
  "ns_parse_url_params url =
     (case str_find ''?'' url of
        None \<Rightarrow> Inr []
      | Some pos \<Rightarrow>
          rbind (substr url (pos + 1) (length url - pos))
            (\<lambda>paramList. ns_vars_loop (ns_split_words paramList CHR '';'') []))"

definition ns_get_node_data_type_by_pattern :: "string \<Rightarrow> url_data_type" where
  "ns_get_node_data_type_by_pattern routeNode =
     (if contains routeNode '':int>'' then Integer
      else if contains routeNode '':str>'' then Str
      else if contains routeNode '':boolean>'' then Boolean
      else InvalidUrlDatatype)"

fun ns_url_data_typeAsStr :: "url_data_type \<Rightarrow> string" where
  "ns_url_data_typeAsStr Integer = ''Integer''"
| "ns_url_data_typeAsStr Str = ''Str''"
| "ns_url_data_typeAsStr Boolean = ''Boolean''"
| "ns_url_data_typeAsStr _ = ''Invalid''"

definition isBoolean :: "string \<Rightarrow> bool" where
  "isBoolean sn \<longleftrightarrow> contains sn ''true'' \<or> contains sn ''false''"

definition isInteger :: "string \<Rightarrow> bool" where
  "isInteger sn \<longleftrightarrow> list_all is_digit sn"

definition ns_getDataTypeByValue :: "string \<Rightarrow> url_data_type" where
  "ns_getDataTypeByValue value =
     (if isInteger value then Integer else if isBoolean value then Boolean else Str)"

fun ns_validate_pattern_by_url :: "string list \<Rightarrow> string list \<Rightarrow> bool result" where
  "ns_validate_pattern_by_url [] pattern = Inr True"
| "ns_validate_pattern_by_url (u # us) [] = Inl Undefined_Behaviour"
| "ns_validate_pattern_by_url (u # us) (p # ps) =
     (if u \<noteq> p
      then (if hd (p @ [NUL]) \<noteq> CHR ''<'' then Inr False
            else if ns_get_node_data_type_by_pattern p \<noteq> ns_getDataTypeByValue u then Inr False
            else ns_validate_pattern_by_url us ps)
      else ns_validate_pattern_by_url us ps)"

section \<open>Files\<close>

text \<open>The loop of \<open>read_whole_file\<close>, which ends every line that it copies.\<close>

function ns_copy_lines :: "string \<Rightarrow> string \<Rightarrow> string" where
  "ns_copy_lines stream content =
     (case getline stream of
        None \<Rightarrow> content
      | Some (line, stream') \<Rightarrow> ns_copy_lines stream' (content @ line @ [LF]))"
  by pat_completeness auto
termination
  by (relation "measure (\<lambda>(stream, content). length stream)") (auto dest: getline_shorter)

declare ns_copy_lines.simps [simp del]

definition ns_read_whole_file :: "file_system \<Rightarrow> string \<Rightarrow> string" where
  "ns_read_whole_file fs src =
     (case fs (c_str src) of
        Some content \<Rightarrow> ns_copy_lines content []
      | None \<Rightarrow> ''THIS FILE COULD NOT BE OPENED .'' @ src)"

definition check_if_path_exist :: "(string \<Rightarrow> bool) \<Rightarrow> string \<Rightarrow> bool" where
  "check_if_path_exist stat_ok path = stat_ok (c_str path)"

definition read_assets_from :: "file_system \<Rightarrow> string \<Rightarrow> string \<Rightarrow> string" where
  "read_assets_from fs path assets_name = ns_read_whole_file fs (path @ ''/'' @ assets_name)"

text \<open>\<open>getcwd\<close> gives the directory when it fits into 255 bytes with its NUL.\<close>

definition get_working_directory :: "string option \<Rightarrow> string" where
  "get_working_directory cwd =
     (case cwd of Some d \<Rightarrow> c_str d | None \<Rightarrow> ''get_working_directory: error'')"

section \<open>Sending and commands\<close>

text \<open>Both overloads of \<open>send_buffer\<close> reach a stub.\<close>

definition send_data_set :: "int \<Rightarrow> byte list \<Rightarrow> int" where
  "send_data_set fd buffer = -999"

definition send_buffer :: "socket_connection \<Rightarrow> byte list \<Rightarrow> int" where
  "send_buffer con buffer = send_data_set (connection con) buffer"

text \<open>
  \<open>fgets(buffer, n, pipe)\<close>: at most \<open>n - 1\<close> characters, up to and with the first newline; the loop
  appends each piece as a C string.
\<close>

definition fgets :: "nat \<Rightarrow> string \<Rightarrow> (string \<times> string) option" where
  "fgets n s =
     (if s = [] then None
      else let line = takeWhile (\<lambda>c. c \<noteq> LF) s;
               k = min (n - 1) (if length line < length s then Suc (length line) else length line)
           in Some (take k s, drop k s))"

lemma fgets_shorter:
  assumes "1 < n" and "fgets n s = Some (p, r)"
  shows "s = p @ r" and "length r < length s"
proof -
  let ?l = "length (takeWhile (\<lambda>c. c \<noteq> LF) s)"
  let ?k = "min (n - 1) (if ?l < length s then Suc ?l else ?l)"
  from assms have "s \<noteq> []" and pr: "p = take ?k s" "r = drop ?k s"
    by (auto simp: fgets_def Let_def split: if_splits)
  then have "0 < length s" by simp
  with assms(1) have "0 < ?k" by auto
  with pr \<open>0 < length s\<close> show "s = p @ r" and "length r < length s" by simp_all
qed

function read_pipe :: "nat \<Rightarrow> string \<Rightarrow> string" where
  "read_pipe n s =
     (if n \<le> 1 then []
      else case fgets n s of None \<Rightarrow> [] | Some (p, r) \<Rightarrow> c_str p @ read_pipe n r)"
  by pat_completeness auto
termination
  by (relation "measure (\<lambda>(n, s). length s)") (auto dest!: fgets_shorter(2) [rotated])

declare read_pipe.simps [simp del]

definition get_port_by_tulnp_cmd :: "string option \<Rightarrow> string" where
  "get_port_by_tulnp_cmd output =
     (case output of
        None \<Rightarrow> ''Failed to run the sequence LS''
      | Some s \<Rightarrow> ''Open Ports and Associated Processes:'' @ LF # read_pipe 512 s)"

text \<open>
  The command of \<open>execute_cat_cmd\<close> is the \<open>c_str\<close> of a temporary string that is destroyed before \<open>popen\<close>
  reads it: \<open>freed\<close> is what its memory holds by then, \<open>None\<close> where the access does not give a value.
  \<open>popen\<close> is the output of a command.
\<close>

definition execute_cat_cmd ::
  "(string \<Rightarrow> string option) \<Rightarrow> (string \<Rightarrow> string option) \<Rightarrow> string \<Rightarrow> string \<Rightarrow> string result" where
  "execute_cat_cmd popen freed path desc =
     (case freed (''cat '' @ path) of
        None \<Rightarrow> Inl Undefined_Behaviour
      | Some command \<Rightarrow>
          (case popen (c_str command) of
             None \<Rightarrow> Inr ''Failed to run the sequence LS''
           | Some output \<Rightarrow>
               let result = read_pipe 1024 output;
                   result = (if length result \<le> 0
                             then result @ ''Information seems to be not available...'' @ CRLF else result)
               in Inr (desc @ result)))"

section \<open>Network interfaces\<close>

datatype if_address = No_Address | Other_Family | Address string

text \<open>
  The loop of \<open>get_local_ip_address_list\<close> over the interfaces: \<open>ret[name]\<close> creates an empty entry
  when there is none; a name that has an address already gets a running number appended.
\<close>

fun local_addresses :: "(string \<times> if_address) list \<Rightarrow> nat \<Rightarrow> string umap \<Rightarrow> string umap" where
  "local_addresses [] cnt ret = ret"
| "local_addresses ((name, Address addr) # ifs) cnt ret =
     (if umap_find ret name = None \<or> umap_find ret name = Some []
      then local_addresses ifs cnt (umap_set name addr ret)
      else local_addresses ifs (cnt + 1) (umap_set (name @ nat_to_string (cnt + 1)) addr ret))"
| "local_addresses ((name, _) # ifs) cnt ret = local_addresses ifs cnt ret"

definition get_local_ip_address_list :: "(string \<times> if_address) list option \<Rightarrow> string umap" where
  "get_local_ip_address_list ifs =
     (case ifs of None \<Rightarrow> [] | Some ifs \<Rightarrow> local_addresses ifs 0 [])"

section \<open>Lemmas\<close>

text \<open>What the two libraries share.\<close>

lemma ns_extract_url_eq:
  "ns_extract_url_with_query_params = extract_url_with_query_params" "ns_extract_url = extract_url"
  by (simp_all add: fun_eq_iff ns_extract_url_with_query_params_def extract_url_with_query_params_def
      ns_extract_url_def extract_url_def Let_def)

text \<open>Each of the two loops returns what the other returns, and so neither ends alone.\<close>

lemma ns_replace_loop_sound:
  assumes "ns_replace_loop s p f t = Some r"
  shows "replace_loop f t s p = Some r"
proof (rule ns_replace_loop.raw_induct [where P = "\<lambda>s p f t r. replace_loop f t s p = Some r", OF _ assms])
  fix rl s p f t r
  assume "\<And>s p f t r. rl s p f t = Some r \<Longrightarrow> replace_loop f t s p = Some r"
    "(case str_find_at f s p of None \<Rightarrow> Some s
      | Some found \<Rightarrow> let str = take found s @ t @ drop (found + length f) s in rl str (found + length t) f t) = Some r"
  then show "replace_loop f t s p = Some r"
    by (subst replace_loop.simps) (auto simp: Let_def split: option.splits)
qed

lemma ns_replace_loop_complete:
  assumes "replace_loop f t s p = Some r"
  shows "ns_replace_loop s p f t = Some r"
proof (rule replace_loop.raw_induct [where P = "\<lambda>f t s p r. ns_replace_loop s p f t = Some r", OF _ assms])
  fix rl f t s p r
  assume "\<And>f t s p r. rl f t s p = Some r \<Longrightarrow> ns_replace_loop s p f t = Some r"
    "(case str_find_at f s p of None \<Rightarrow> Some s
      | Some found \<Rightarrow> rl f t (take found s @ t @ drop (found + length f) s) (found + length t)) = Some r"
  then show "ns_replace_loop s p f t = Some r"
    by (subst ns_replace_loop.simps) (auto simp: Let_def split: option.splits)
qed

lemma ns_replace_loop_eq: "ns_replace_loop s p f t = replace_loop f t s p"
proof (cases "ns_replace_loop s p f t")
  case None
  then show ?thesis using ns_replace_loop_complete [of f t s p] by (cases "replace_loop f t s p") auto
next
  case (Some r)
  then show ?thesis using ns_replace_loop_sound [of s p f t r] by simp
qed

lemma ns_split_loop_eq:
  "(case ns_split_loop word sp iter str ret of (str, ret) \<Rightarrow> if str \<noteq> [] then ret @ [str] else ret)
    = split_loop (drop iter word) sp str ret"
proof (induction word sp iter str ret rule: ns_split_loop.induct)
  case (1 word sp iter str ret)
  show ?case
  proof (cases "iter < length word \<and> word ! iter \<noteq> NUL")
    case True
    obtain str' ret' where step: "ns_split_step word sp iter str ret = (str', ret')" by fastforce
    with 1 True have
      "(case ns_split_loop word sp iter str ret of (str, ret) \<Rightarrow> if str \<noteq> [] then ret @ [str] else ret)
        = split_loop (drop (iter + 1) word) sp str' ret'"
      by (simp add: ns_split_loop.simps [of word sp iter] char_at_def)
    moreover have "drop iter word = word ! iter # drop (iter + 1) word"
      using True by (simp add: Cons_nth_drop_Suc)
    ultimately show ?thesis using step True by (auto simp: ns_split_step_def char_at_def split: if_splits)
  next
    case False
    then have "char_at word iter = NUL" by (auto simp: char_at_def)
    moreover have "drop iter word = [] \<or> (\<exists>cs. drop iter word = NUL # cs)"
      using False by (metis Cons_nth_drop_Suc drop_all not_le)
    ultimately show ?thesis by (auto simp: ns_split_loop.simps [of word sp iter])
  qed
qed

lemma ns_string_eq: "ns_split_words = split_words" "to_lower_case_str = to_lower_case" "ns_replace_all = replace_all"
  by (simp_all add: fun_eq_iff ns_split_words_def split_words_def ns_split_loop_eq to_lower_case_str_def
      to_lower_case_def ns_replace_all_def replace_all_def ns_replace_loop_eq)

lemma ns_trim_eq: "ns_trim = trim_value"
  by (simp add: fun_eq_iff ns_trim_def trim_value_def)

lemma find_char: "str_find [c] s = find_first (\<lambda>d. d = c) s"
  by (induction s) auto

lemma ns_headers_loop_eq: "ns_headers_loop iss hs = parse_headers_loop iss hs"
proof (induction iss hs rule: ns_headers_loop.induct)
  case (1 iss hs)
  show ?case
  proof (cases "getline iss")
    case None
    then show ?thesis by (simp add: ns_headers_loop.simps [of iss] parse_headers_loop.simps [of iss])
  next
    case (Some lr)
    obtain l r where lr: "lr = (l, r)" by (cases lr)
    with 1 Some show ?thesis
      by (auto simp: ns_headers_loop.simps [of iss] parse_headers_loop.simps [of iss] ns_header_line_def
          find_char substr_def ns_trim_eq split: option.splits sum.splits)
  qed
qed

lemma ns_vars_loop_eq: "ns_vars_loop vars ret = parse_params_loop vars ret"
  by (induction vars arbitrary: ret) (auto simp: ns_string_eq Let_def split: list.splits)

lemma ns_parse_eq: "ns_parse_headers = parse_headers" "ns_parse_url_params = parse_url_params"
  by (auto simp: fun_eq_iff ns_parse_headers_def parse_headers_def ns_headers_loop_eq ns_parse_url_params_def
      parse_url_params_def ns_string_eq ns_vars_loop_eq parse_headers_loop.simps [of "[]"] getline_def
      split: option.splits)

lemma ns_copy_lines_eq: "ns_copy_lines s content = content @ copy_lines s"
  by (induction s content rule: ns_copy_lines.induct)
    (simp add: ns_copy_lines.simps copy_lines.simps split: option.splits)

lemma ns_type_eq:
  "ns_get_node_data_type_by_pattern = get_node_data_type_by_pattern"
  "ns_getDataTypeByValue = getDataTypeByValue"
  by (simp_all add: fun_eq_iff ns_get_node_data_type_by_pattern_def get_node_data_type_by_pattern_def
      ns_getDataTypeByValue_def getDataTypeByValue_def isInteger_def is_integer_def isBoolean_def is_boolean_def)

lemma ns_validate_eq: "ns_validate_pattern_by_url us ps = validate_pattern_by_url us ps"
  by (induction us ps rule: validate_pattern_by_url.induct) (simp_all add: ns_type_eq)

lemmas ns_same = ns_extract_url_eq ns_parse_eq ns_type_eq ns_validate_eq ns_string_eq

text \<open>The pieces of \<open>fgets\<close> make up the output of a command when it holds no NUL.\<close>

lemma read_pipe_all: "1 < n \<Longrightarrow> NUL \<notin> set s \<Longrightarrow> read_pipe n s = s"
proof (induction n s rule: read_pipe.induct)
  case (1 n s)
  show ?case
  proof (cases "fgets n s")
    case None
    then have "s = []" by (simp add: fgets_def Let_def split: if_splits)
    with None 1 show ?thesis by (simp add: read_pipe.simps [of n])
  next
    case (Some pr)
    obtain p r where pr: "pr = (p, r)" by (cases pr)
    have s: "s = p @ r" using fgets_shorter(1) [of n s p r] Some pr 1 by simp
    then have "NUL \<notin> set p" and "NUL \<notin> set r" using 1(3) by auto
    with 1(1) [OF _ Some pr [symmetric]] 1(2) Some pr s show ?thesis by (simp add: read_pipe.simps [of n "p @ r"])
  qed
qed

end
