(* ===== verification/Ns_Connection.thy ===== *)
theory Ns_Connection
  imports Ns_Base
begin

text \<open>
  Requests and responses of the namespace \<open>simple_server\<close>: the enumerations and tables of
  includes/simple_server/http/simple_server_http_constant.h and the functions of
  src/http/simple_server_http_connection.cpp. The status codes and verbs have the enumerators of the
  newer library and share its types; the two enumerations of content types and the one of header
  names are new, and an enumerator whose name is taken carries a suffix.
\<close>

section \<open>Content types\<close>

datatype content_type =
    text_html_ct | text_css_ct | text_plain_ct | application_json_ct | application_xml_ct
  | application_octet_stream_ct | image_jpeg_ct | image_png_ct | audio_mpeg | video_mp4 | unknown_ct

definition content_type_map :: "(content_type \<times> string) list" where
  "content_type_map =
     [(text_html_ct, ''text/html''), (text_plain_ct, ''text/plain''),
      (application_json_ct, ''application/json''), (application_xml_ct, ''application/xml''),
      (application_octet_stream_ct, ''application/octet-stream''), (image_jpeg_ct, ''image/jpeg''),
      (image_png_ct, ''image/png''), (audio_mpeg, ''audio/mpeg''), (text_css_ct, ''text/css''),
      (video_mp4, ''video/mp4''), (unknown_ct, ''unknown'')]"

text \<open>
  The map is unordered: \<open>m\<close> is \<open>content_type_map\<close> in the order in which this process iterates it.
\<close>

definition http_content_type_to_string :: "(content_type \<times> string) list \<Rightarrow> content_type \<Rightarrow> string" where
  "http_content_type_to_string m type = (case map_of m type of Some s \<Rightarrow> s | None \<Rightarrow> ''unknown'')"

fun http_content_type_from_string :: "(content_type \<times> string) list \<Rightarrow> string \<Rightarrow> content_type" where
  "http_content_type_from_string [] type = unknown_ct"
| "http_content_type_from_string ((k, s) # m) type =
     (if s = type then k else http_content_type_from_string m type)"

text \<open>The older enumeration and its table.\<close>

datatype ns_http_content_type =
    ns_text_html | ns_text_plain | ns_application_json | ns_application_xml | ns_multipart_form_data
  | ns_application_octet_stream | ns_image_png | ns_image_jpeg | ns_uknown

definition ns_contentTypeMap :: "(ns_http_content_type \<times> string) list" where
  "ns_contentTypeMap =
     [(ns_text_html, ''text/html''), (ns_text_plain, ''text/plain''),
      (ns_application_json, ''application/json''), (ns_application_xml, ''application/xml''),
      (ns_multipart_form_data, ''multipart/form-data''),
      (ns_application_octet_stream, ''application/octet-stream''),
      (ns_image_png, ''image/png''), (ns_image_jpeg, ''image/jpeg''), (ns_uknown, ''unknown'')]"

definition ns_content_type_to_string :: "ns_http_content_type \<Rightarrow> string" where
  "ns_content_type_to_string type =
     (case map_of ns_contentTypeMap type of Some s \<Rightarrow> s | None \<Rightarrow> ''unknown'')"

section \<open>Header names\<close>

datatype http_header =
    Host | Content_Type | Content_Length | User_Agent | Accept | Authorization | Cache_Control
  | Connection | Upgrade | Sec_WebSocket_Key | Sec_WebSocket_Accept | Sec_WebSocket_Version
  | Sec_WebSocket_Protocol | Sec_WebSocket_Extensions | Unknown

text \<open>The value of an enumerator, which \<open>std::map\<close> orders its keys by.\<close>

fun header_value :: "http_header \<Rightarrow> nat" where
  "header_value Host = 0"
| "header_value Content_Type = 1"
| "header_value Content_Length = 2"
| "header_value User_Agent = 3"
| "header_value Accept = 4"
| "header_value Authorization = 5"
| "header_value Cache_Control = 6"
| "header_value Connection = 7"
| "header_value Upgrade = 8"
| "header_value Sec_WebSocket_Key = 9"
| "header_value Sec_WebSocket_Accept = 10"
| "header_value Sec_WebSocket_Version = 11"
| "header_value Sec_WebSocket_Protocol = 12"
| "header_value Sec_WebSocket_Extensions = 13"
| "header_value Unknown = 14"

lemma header_value_inj: "header_value a = header_value b \<Longrightarrow> a = b"
  by (cases a; cases b) simp_all

instantiation http_header :: linorder
begin

definition less_eq_http_header :: "http_header \<Rightarrow> http_header \<Rightarrow> bool" where
  "a \<le> b \<longleftrightarrow> header_value a \<le> header_value b"

definition less_http_header :: "http_header \<Rightarrow> http_header \<Rightarrow> bool" where
  "a < b \<longleftrightarrow> header_value a < header_value b"

instance
  by standard (auto simp: less_eq_http_header_def less_http_header_def dest: header_value_inj)

end

definition HeaderToString :: "(http_header \<times> string) list" where
  "HeaderToString =
     [(Host, ''host''), (Content_Type, ''content-type''), (Content_Length, ''content-length''),
      (User_Agent, ''user-agent''), (Accept, ''accept''), (Authorization, ''authorization''),
      (Cache_Control, ''cache-control''), (Connection, ''connection''), (Upgrade, ''upgrade''),
      (Sec_WebSocket_Key, ''sec-websocket-key''), (Sec_WebSocket_Accept, ''sec-websocket-accept''),
      (Sec_WebSocket_Version, ''sec-websocket-version''),
      (Sec_WebSocket_Protocol, ''sec-websocket-protocol''),
      (Sec_WebSocket_Extensions, ''sec-websocket-extensions''), (Unknown, ''unknown'')]"

text \<open>The list is in the order of the keys, which is the order a \<open>std::map\<close> is iterated in.\<close>

lemma HeaderToString_sorted: "sorted_wrt (<) (map fst HeaderToString)"
  by (simp add: HeaderToString_def less_http_header_def)

definition http_header_to_string :: "http_header \<Rightarrow> string" where
  "http_header_to_string header =
     (case map_of HeaderToString header of Some s \<Rightarrow> s | None \<Rightarrow> ''unknown'')"

fun header_loop :: "(http_header \<times> string) list \<Rightarrow> string \<Rightarrow> http_header" where
  "header_loop [] headerStr = Unknown"
| "header_loop ((h, s) # m) headerStr = (if s = headerStr then h else header_loop m headerStr)"

definition string_to_http_header :: "string \<Rightarrow> http_header" where
  "string_to_http_header headerStr = header_loop HeaderToString headerStr"

section \<open>Requests and responses\<close>

record Request =
  requestVerb :: request_verb
  req_url :: string
  req_headers :: "string umap"
  req_query_params :: "string umap"
  req_body :: string

text \<open>\<open>Response()\<close> leaves \<open>status_code\<close> as it is found in memory.\<close>

record Response =
  rs_headers :: "string umap"
  rs_body :: string
  rs_status_code :: http_response_code
  rs_raw_response :: string

definition Response_new :: "http_response_code \<Rightarrow> Response" where
  "Response_new junk = \<lparr>rs_headers = [], rs_body = [], rs_status_code = junk, rs_raw_response = []\<rparr>"

definition ns_strBuilder :: "int \<Rightarrow> string \<Rightarrow> string" where
  "ns_strBuilder n s = int_to_string n @ '' '' @ s @ CRLF"

fun ns_http_response_code_to_string :: "http_response_code \<Rightarrow> string" where
  "ns_http_response_code_to_string Continue = ns_strBuilder (code_value Continue) ''Continue''"
| "ns_http_response_code_to_string SwitchingProtocols =
     ns_strBuilder (code_value SwitchingProtocols) ''Switching Protocols''"
| "ns_http_response_code_to_string OK = ns_strBuilder (code_value OK) ''OK''"
| "ns_http_response_code_to_string Created = ns_strBuilder (code_value Created) ''Created''"
| "ns_http_response_code_to_string Accepted = ns_strBuilder (code_value Accepted) ''Accepted''"
| "ns_http_response_code_to_string MovedPermanently =
     ns_strBuilder (code_value MovedPermanently) ''Moved Permanently''"
| "ns_http_response_code_to_string Found = ns_strBuilder (code_value Found) ''Found''"
| "ns_http_response_code_to_string SeeOther = ns_strBuilder (code_value SeeOther) ''See Other''"
| "ns_http_response_code_to_string BadRequest = ns_strBuilder (code_value BadRequest) ''Bad Request''"
| "ns_http_response_code_to_string Unauthorized = ns_strBuilder (code_value Unauthorized) ''Unauthorized''"
| "ns_http_response_code_to_string Forbidden = ns_strBuilder (code_value Forbidden) ''OK''"
| "ns_http_response_code_to_string NotFound = ns_strBuilder (code_value NotFound) ''Not Found''"
| "ns_http_response_code_to_string InternalServerError =
     ns_strBuilder (code_value InternalServerError) ''Internal Server Error''"
| "ns_http_response_code_to_string NotImplemented =
     ns_strBuilder (code_value NotImplemented) ''Not Implemented''"
| "ns_http_response_code_to_string (Other_Code _) = ns_strBuilder (code_value OK) ''OK''"

definition ns_http_headers_to_response_string :: "string umap \<Rightarrow> string" where
  "ns_http_headers_to_response_string headers =
     concat (map (\<lambda>(k, v). k @ '': '' @ v @ CRLF) headers)"

definition ns_build_http_response :: "string umap \<Rightarrow> string \<Rightarrow> http_response_code \<Rightarrow> string" where
  "ns_build_http_response headers body statusCode =
     (let response = ''HTTP/1.1 '' @ ns_http_response_code_to_string statusCode;
          response = response @ ns_http_headers_to_response_string headers;
          bodySize = int_of_size (Some (length body))
      in if bodySize > 0
         then (if umap_find headers ''Content-Length'' = None
               then response @ ''Content-Length: '' @ int_to_string bodySize @ CRLF @ CRLF @ body
               else response @ CRLF @ body)
         else response)"

definition buildResponse :: "Response \<Rightarrow> string" where
  "buildResponse r = ns_build_http_response (rs_headers r) (rs_body r) (rs_status_code r)"

definition ns_extract_http_verb :: "string \<Rightarrow> string result" where
  "ns_extract_http_verb request =
     substr request 0 (size_or_npos (find_first (\<lambda>c. c = SP) request))"

definition parseRequestVerb :: "string \<Rightarrow> request_verb" where
  "parseRequestVerb buffer =
     (let testStr = to_lower_case_str buffer in
      if contains testStr ''get'' then Get
      else if contains testStr ''post'' then Post
      else if contains testStr ''put'' then Put
      else Get)"

section \<open>Lemmas\<close>

text \<open>The tables relate every enumerator to one text, and no two to the same.\<close>

locale enum_table =
  fixes table :: "('e \<times> string) list"
    and other :: 'e
  assumes keys: "fst ` set table = UNIV" and distinct_keys: "distinct (map fst table)"
    and distinct_texts: "distinct (map snd table)"
begin

definition to_text :: "'e \<Rightarrow> string" where
  "to_text e = (case map_of table e of Some s \<Rightarrow> s | None \<Rightarrow> ''unknown'')"

definition of_text :: "string \<Rightarrow> 'e" where
  "of_text s = (case List.find (\<lambda>(e, t). t = s) table of Some (e, t) \<Rightarrow> e | None \<Rightarrow> other)"

lemma to_text_in: "(e, to_text e) \<in> set table"
proof -
  have "e \<in> fst ` set table" using keys by simp
  then obtain t where t: "(e, t) \<in> set table" by force
  then have "map_of table e = Some t" using distinct_keys by simp
  with t show ?thesis by (simp add: to_text_def)
qed

lemma table_unique: "(a, t) \<in> set table \<Longrightarrow> (b, t) \<in> set table \<Longrightarrow> a = b"
  using distinct_texts by (metis (no_types, lifting) distinct_map inj_onD prod.inject snd_conv)

lemma of_text_in: "(e, s) \<in> set table \<Longrightarrow> of_text s = e"
proof -
  assume e: "(e, s) \<in> set table"
  then obtain p where p: "List.find (\<lambda>(e, t). t = s) table = Some p"
    by (cases "List.find (\<lambda>(e, t). t = s) table") (auto simp: find_None_iff)
  obtain a t where at: "p = (a, t)" by (cases p)
  with p have "(a, t) \<in> set table" "t = s" using find_in [OF p] by auto
  with e have "a = e" using table_unique by blast
  with p at show ?thesis by (simp add: of_text_def)
qed

lemma of_to_text: "of_text (to_text e) = e"
  by (rule of_text_in) (rule to_text_in)

lemma of_text_other: "s \<notin> range to_text \<Longrightarrow> of_text s = other"
proof -
  assume s: "s \<notin> range to_text"
  have "t \<noteq> s" if "(e, t) \<in> set table" for e t
    using that s of_text_in [OF that] to_text_in [of e] distinct_keys
    by (metis eq_key_imp_eq_value rangeI)
  then have "List.find (\<lambda>(e, t). t = s) table = None" by (auto simp: find_None_iff)
  then show ?thesis by (simp add: of_text_def)
qed

end

lemma content_type_UNIV: "(UNIV :: content_type set) = fst ` set content_type_map"
proof -
  have "t \<in> fst ` set content_type_map" for t :: content_type
    by (cases t) (simp_all add: content_type_map_def)
  then show ?thesis by auto
qed

lemma http_header_UNIV: "(UNIV :: http_header set) = fst ` set HeaderToString"
proof -
  have "h \<in> fst ` set HeaderToString" for h :: http_header
    by (cases h) (simp_all add: HeaderToString_def)
  then show ?thesis by auto
qed

interpretation content_types: enum_table content_type_map unknown_ct
  by unfold_locales (simp add: content_type_UNIV, simp_all add: content_type_map_def)

interpretation header_names: enum_table HeaderToString Unknown
  by unfold_locales (simp add: http_header_UNIV, simp_all add: HeaderToString_def)

lemma header_loop_eq:
  "header_loop m s = (case List.find (\<lambda>(e, t). t = s) m of Some (e, t) \<Rightarrow> e | None \<Rightarrow> Unknown)"
  by (induction m) auto

lemma from_string_eq:
  "http_content_type_from_string m s = (case List.find (\<lambda>(e, t). t = s) m of Some (e, t) \<Rightarrow> e | None \<Rightarrow> unknown_ct)"
  by (induction m) auto

lemma header_names_eq:
  "http_header_to_string = header_names.to_text" "string_to_http_header = header_names.of_text"
  by (simp_all add: fun_eq_iff http_header_to_string_def header_names.to_text_def
      string_to_http_header_def header_names.of_text_def header_loop_eq)

lemma enum_table_perm:
  assumes "enum_table m" and "mset m' = mset m"
  shows "enum_table m'"
proof -
  have "mset (map fst m') = mset (map fst m)" "mset (map snd m') = mset (map snd m)"
    using assms(2) by (metis mset_map)+
  moreover have "set m' = set m" using assms(2) by (metis set_mset_mset)
  ultimately show ?thesis
    using assms(1) unfolding enum_table_def by (metis mset_eq_imp_distinct_iff)
qed

lemma content_types_order:
  assumes "mset m = mset content_type_map"
  shows "http_content_type_to_string m e = content_types.to_text e"
    and "http_content_type_from_string m s = content_types.of_text s"
proof -
  have t: "enum_table m" by (rule enum_table_perm [OF content_types.enum_table_axioms assms])
  have s: "set m = set content_type_map" using assms by (metis set_mset_mset)
  show a: "http_content_type_to_string m e = content_types.to_text e" for e
  proof -
    have "(e, content_types.to_text e) \<in> set m" using content_types.to_text_in s by simp
    then have "map_of m e = Some (content_types.to_text e)"
      using t by (simp add: enum_table_def)
    then show ?thesis by (simp add: http_content_type_to_string_def)
  qed
  show "http_content_type_from_string m s = content_types.of_text s"
  proof (cases "\<exists>e. (e, s) \<in> set content_type_map")
    case True
    then obtain e where e: "(e, s) \<in> set content_type_map" by blast
    with s have "enum_table.of_text m unknown_ct s = e"
      by (intro enum_table.of_text_in [OF t]) simp
    with content_types.of_text_in [OF e] show ?thesis
      by (simp add: from_string_eq enum_table.of_text_def [OF t])
  next
    case False
    with s have "List.find (\<lambda>(e, t). t = s) m = None" "List.find (\<lambda>(e, t). t = s) content_type_map = None"
      by (auto simp: find_None_iff)
    then show ?thesis by (simp add: from_string_eq content_types.of_text_def)
  qed
qed

text \<open>The responses of the two generations have the same text.\<close>

lemma ns_code_string_eq: "ns_http_response_code_to_string c = http_response_code_to_string c"
  by (cases c) (simp_all add: ns_strBuilder_def strBuilder_def)

lemma ns_build_http_response_eq: "ns_build_http_response = build_http_response"
  by ((rule ext)+, simp only: ns_build_http_response_def build_http_response_def ns_code_string_eq
      ns_http_headers_to_response_string_def http_headers_to_response_string_def)

lemma ns_verb_eq: "ns_extract_http_verb = extract_http_verb" "parseRequestVerb = parse_http_request_verb"
  by (simp_all add: fun_eq_iff ns_extract_http_verb_def extract_http_verb_def parseRequestVerb_def
      parse_http_request_verb_def ns_string_eq)

section \<open>Properties\<close>

text \<open>
  The tables of content types and header names are bijections: every enumerator is read back
  from its text, whatever order the unordered map is iterated in, and a text that belongs to no
  enumerator gives the unknown one.
\<close>

theorem enum_texts_roundtrip:
  assumes "mset m = mset content_type_map"
  shows "http_content_type_from_string m (http_content_type_to_string m t) = t
    \<and> string_to_http_header (http_header_to_string h) = h
    \<and> (s \<notin> range (http_content_type_to_string m) \<longrightarrow> http_content_type_from_string m s = unknown_ct)
    \<and> (s \<notin> range http_header_to_string \<longrightarrow> string_to_http_header s = Unknown)"
proof -
  have "http_content_type_to_string m = content_types.to_text"
    using content_types_order(1) [OF assms] by (rule ext)
  then show ?thesis
    using content_types_order(2) [OF assms] content_types.of_to_text content_types.of_text_other
      header_names.of_to_text header_names.of_text_other
    by (simp add: header_names_eq)
qed

theorem enum_texts_roundtrip_witness:
  "http_content_type_from_string (rev content_type_map) (http_content_type_to_string (rev content_type_map) text_css_ct)
     = text_css_ct"
  using enum_texts_roundtrip [of "rev content_type_map" text_css_ct] by simp

end
