(* ===== verification/Ns_Sha1.thy ===== *)
theory Ns_Sha1
  imports Sha1_Refine
begin

text \<open>
  The class \<open>simple_server::SHA1\<close> of src/base/simple_server_sha1.cpp, the older generation's own
  copy: every member function from that file, over objects with the members its header lists (those
  of the record \<open>sha1_state\<close>). At the end, every operation is shown to be the one of the newer
  class, so that the correctness of the digest carries over.
\<close>

type_synonym ns_sha1_state = sha1_state

section \<open>The compression function\<close>

definition ns_CircularShift :: "nat \<Rightarrow> u32 \<Rightarrow> u32" where
  "ns_CircularShift bits word =
     (push_bit bits word AND 0xFFFFFFFF) OR drop_bit (32 - bits) (word AND 0xFFFFFFFF)"

definition ns_SHA1_K :: "u32 list" where
  "ns_SHA1_K = [0x5A827999, 0x6ED9EBA1, 0x8F1BBCDC, 0xCA62C1D6]"

definition ns_block_word :: "byte list \<Rightarrow> nat \<Rightarrow> u32" where
  "ns_block_word blk t =
     push_bit 24 (ucast (blk ! (t * 4))) OR push_bit 16 (ucast (blk ! (t * 4 + 1)))
       OR push_bit 8 (ucast (blk ! (t * 4 + 2))) OR ucast (blk ! (t * 4 + 3))"

text \<open>The array \<open>W\<close>, filled from index 0 to 79: entry \<open>t\<close> is appended in iteration \<open>t\<close>.\<close>

definition ns_init_W :: "byte list \<Rightarrow> u32 list" where
  "ns_init_W blk = map (ns_block_word blk) [0..<16]"

definition ns_extend_W :: "u32 list \<Rightarrow> u32 list" where
  "ns_extend_W W0 =
     fold (\<lambda>t W. W @ [ns_CircularShift 1 (W ! (t - 3) XOR W ! (t - 8) XOR W ! (t - 14) XOR W ! (t - 16))])
       [16..<80] W0"

text \<open>The body shared by the four loops: \<open>f\<close> is the mixing of \<open>B, C, D\<close>, \<open>k\<close> the constant.\<close>

fun ns_round_body :: "(u32 \<Rightarrow> u32 \<Rightarrow> u32 \<Rightarrow> u32) \<Rightarrow> u32 \<Rightarrow> u32 list \<Rightarrow> nat \<Rightarrow> regs \<Rightarrow> regs" where
  "ns_round_body f k W t (A, B, C, D, E) =
     (let temp = (ns_CircularShift 5 A + f B C D + E + W ! t + k) AND 0xFFFFFFFF
      in (temp, A, ns_CircularShift 30 B, C, D))"

definition ns_rounds :: "u32 list \<Rightarrow> regs \<Rightarrow> regs" where
  "ns_rounds W r0 =
     (let r1 = fold (ns_round_body (\<lambda>B C D. (B AND C) OR (NOT B AND D)) (ns_SHA1_K ! 0) W) [0..<20] r0;
          r2 = fold (ns_round_body (\<lambda>B C D. B XOR C XOR D) (ns_SHA1_K ! 1) W) [20..<40] r1;
          r3 = fold (ns_round_body (\<lambda>B C D. (B AND C) OR (B AND D) OR (C AND D)) (ns_SHA1_K ! 2) W) [40..<60] r2
      in fold (ns_round_body (\<lambda>B C D. B XOR C XOR D) (ns_SHA1_K ! 3) W) [60..<80] r3)"

definition ns_ProcessMessageBlock :: "sha1_state \<Rightarrow> sha1_state" where
  "ns_ProcessMessageBlock s =
     (let W = ns_extend_W (ns_init_W (Message_Block s)) in
      case ns_rounds W (H s ! 0, H s ! 1, H s ! 2, H s ! 3, H s ! 4) of (A, B, C, D, E) \<Rightarrow>
        s\<lparr>H := [(H s ! 0 + A) AND 0xFFFFFFFF, (H s ! 1 + B) AND 0xFFFFFFFF,
                (H s ! 2 + C) AND 0xFFFFFFFF, (H s ! 3 + D) AND 0xFFFFFFFF,
                (H s ! 4 + E) AND 0xFFFFFFFF],
          Message_Block_Index := 0\<rparr>)"

section \<open>The interface of the class\<close>

definition ns_Reset :: "sha1_state \<Rightarrow> sha1_state" where
  "ns_Reset s = s\<lparr>Length_Low := 0, Length_High := 0, Message_Block_Index := 0,
     H := [0x67452301, 0xEFCDAB89, 0x98BADCFE, 0x10325476, 0xC3D2E1F0],
     Computed := False, Corrupted := False\<rparr>"

text \<open>The constructor, on memory that holds anything.\<close>

definition ns_SHA1_new :: "sha1_state \<Rightarrow> sha1_state" where
  "ns_SHA1_new mem = ns_Reset mem"

definition ns_put_byte :: "byte \<Rightarrow> sha1_state \<Rightarrow> sha1_state" where
  "ns_put_byte b s = s\<lparr>Message_Block := (Message_Block s)[Message_Block_Index s := b],
     Message_Block_Index := Message_Block_Index s + 1\<rparr>"

text \<open>One iteration of the loop of \<open>Input\<close>.\<close>

definition ns_Input_step :: "byte \<Rightarrow> sha1_state \<Rightarrow> sha1_state" where
  "ns_Input_step b s =
     (let s = ns_put_byte (b AND 0xFF) s;
          s = s\<lparr>Length_Low := (Length_Low s + 8) AND 0xFFFFFFFF\<rparr>;
          s = (if Length_Low s = 0
               then (let s = s\<lparr>Length_High := (Length_High s + 1) AND 0xFFFFFFFF\<rparr>
                     in if Length_High s = 0 then s\<lparr>Corrupted := True\<rparr> else s)
               else s)
      in if Message_Block_Index s = 64 then ns_ProcessMessageBlock s else s)"

fun ns_Input_loop :: "byte list \<Rightarrow> sha1_state \<Rightarrow> sha1_state" where
  "ns_Input_loop [] s = s"
| "ns_Input_loop (b # bs) s = (if Corrupted s then s else ns_Input_loop bs (ns_Input_step b s))"

text \<open>\<open>Input(message_array, length)\<close>: the list is the \<open>length\<close> octets of the array.\<close>

definition ns_Input :: "byte list \<Rightarrow> sha1_state \<Rightarrow> sha1_state" where
  "ns_Input msg s =
     (if msg = [] then s
      else if Computed s \<or> Corrupted s then s\<lparr>Corrupted := True\<rparr>
      else ns_Input_loop msg s)"

text \<open>\<open>Input(element)\<close>, \<open>operator<<(element)\<close> and \<open>operator<<(string)\<close>.\<close>

definition ns_Input_char :: "byte \<Rightarrow> sha1_state \<Rightarrow> sha1_state" where
  "ns_Input_char b s = ns_Input [b] s"

definition ns_stream_char :: "byte \<Rightarrow> sha1_state \<Rightarrow> sha1_state" where
  "ns_stream_char b s = ns_Input_char b s"

fun ns_stream_in :: "byte list \<Rightarrow> sha1_state \<Rightarrow> sha1_state" where
  "ns_stream_in [] s = s"
| "ns_stream_in (b # bs) s = (if b = 0 then s else ns_stream_in bs (ns_Input_char b s))"

function ns_zero_fill :: "nat \<Rightarrow> sha1_state \<Rightarrow> sha1_state" where
  "ns_zero_fill lim s = (if Message_Block_Index s < lim then ns_zero_fill lim (ns_put_byte 0 s) else s)"
  by pat_completeness auto
termination
  by (relation "measure (\<lambda>(lim, s). lim - Message_Block_Index s)") (auto simp: ns_put_byte_def)

declare ns_zero_fill.simps [simp del]

definition ns_length_octets :: "u32 \<Rightarrow> u32 \<Rightarrow> byte list" where
  "ns_length_octets high low =
     [ucast (drop_bit 24 high AND 0xFF), ucast (drop_bit 16 high AND 0xFF),
      ucast (drop_bit 8 high AND 0xFF), ucast (high AND 0xFF),
      ucast (drop_bit 24 low AND 0xFF), ucast (drop_bit 16 low AND 0xFF),
      ucast (drop_bit 8 low AND 0xFF), ucast (low AND 0xFF)]"

definition ns_PadMessage :: "sha1_state \<Rightarrow> sha1_state" where
  "ns_PadMessage s =
     (let s = (if Message_Block_Index s > 55
               then (let s = ns_put_byte 0x80 s; s = ns_zero_fill 64 s; s = ns_ProcessMessageBlock s
                     in ns_zero_fill 56 s)
               else (let s = ns_put_byte 0x80 s in ns_zero_fill 56 s));
          s = s\<lparr>Message_Block := take 56 (Message_Block s) @ ns_length_octets (Length_High s) (Length_Low s)\<rparr>
      in ns_ProcessMessageBlock s)"

text \<open>\<open>Result\<close>: the returned flag, the digest written on success, the object afterwards.\<close>

definition ns_Result :: "sha1_state \<Rightarrow> (u32 list) option \<times> sha1_state" where
  "ns_Result s =
     (if Corrupted s then (None, s)
      else (let s = (if Computed s then s else (ns_PadMessage s)\<lparr>Computed := True\<rparr>)
            in (Some (map (\<lambda>i. H s ! i) [0..<5]), s)))"

section \<open>The two classes agree\<close>

lemma ns_CircularShift_eq: "ns_CircularShift = CircularShift"
  by ((rule ext)+, simp only: ns_CircularShift_def CircularShift_def)

lemma ns_block_word_eq: "ns_block_word = block_word"
  by ((rule ext)+, simp only: ns_block_word_def block_word_def)

lemma ns_init_W_eq: "ns_init_W = init_W"
  by ((rule ext)+, simp only: ns_init_W_def init_W_def ns_block_word_eq)

lemma ns_extend_W_eq: "ns_extend_W = extend_W"
  by ((rule ext)+, simp only: ns_extend_W_def extend_W_def ns_CircularShift_eq)

lemma ns_round_body_eq: "ns_round_body = round_body"
proof (intro ext)
  show "ns_round_body f k W t r = round_body f k W t r" for f k W t r
    by (cases r) (simp add: ns_CircularShift_eq)
qed

lemma ns_rounds_eq: "ns_rounds = rounds"
  by ((rule ext)+, simp only: ns_rounds_def rounds_def ns_round_body_eq ns_SHA1_K_def SHA1_K_def)

lemma ns_ProcessMessageBlock_eq: "ns_ProcessMessageBlock = ProcessMessageBlock"
  by ((rule ext)+, simp only: ns_ProcessMessageBlock_def ProcessMessageBlock_def ns_extend_W_eq
      ns_init_W_eq ns_rounds_eq)

lemma ns_SHA1_new_eq: "ns_SHA1_new = SHA1_new"
  by ((rule ext)+, simp only: ns_SHA1_new_def SHA1_new_def ns_Reset_def Reset_def)

lemma ns_put_byte_eq: "ns_put_byte = put_byte"
  by ((rule ext)+, simp only: ns_put_byte_def put_byte_def)

lemma ns_Input_step_eq: "ns_Input_step = Input_step"
  by ((rule ext)+, simp only: ns_Input_step_def Input_step_def ns_put_byte_eq ns_ProcessMessageBlock_eq)

lemma ns_Input_loop_eq: "ns_Input_loop = Input_loop"
proof (intro ext)
  show "ns_Input_loop bs s = Input_loop bs s" for bs s
    by (induction bs arbitrary: s) (simp_all add: ns_Input_step_eq)
qed

lemma ns_Input_eq: "ns_Input = Input"
  by ((rule ext)+, simp only: ns_Input_def Input_def ns_Input_loop_eq)

lemma ns_Input_char_eq: "ns_Input_char = Input_char" "ns_stream_char = stream_char"
  by ((rule ext)+, simp only: ns_Input_char_def Input_char_def ns_stream_char_def stream_char_def ns_Input_eq)+

lemma ns_stream_in_eq: "ns_stream_in = stream_in"
proof (intro ext)
  show "ns_stream_in bs s = stream_in bs s" for bs s
    by (induction bs arbitrary: s) (simp_all add: ns_Input_char_eq)
qed

lemma ns_zero_fill_eq: "ns_zero_fill = zero_fill"
proof (intro ext)
  show "ns_zero_fill lim s = zero_fill lim s" for lim s
  proof (induction lim s rule: zero_fill.induct)
    case (1 lim s)
    then show ?case
      by (simp add: zero_fill.simps [of lim s] ns_zero_fill.simps [of lim s] ns_put_byte_eq)
  qed
qed

lemma ns_length_octets_eq: "ns_length_octets = length_octets"
  by ((rule ext)+, simp only: ns_length_octets_def length_octets_def)

lemma ns_PadMessage_eq: "ns_PadMessage = PadMessage"
  by ((rule ext)+, simp only: ns_PadMessage_def PadMessage_def ns_put_byte_eq ns_zero_fill_eq
      ns_ProcessMessageBlock_eq ns_length_octets_eq)

lemma ns_Result_eq: "ns_Result = Result"
  by ((rule ext)+, simp only: ns_Result_def Result_def ns_PadMessage_eq)

lemmas ns_sha1_same = ns_SHA1_new_eq ns_Input_eq ns_Input_char_eq ns_stream_in_eq ns_Result_eq

interpretation ns_sha1: stream_hash ns_SHA1_new ns_Input "\<lambda>s. fst (ns_Result s)"
    "\<lambda>mem. length (Message_Block mem) = 64" sha1_inv SHA1_spec "2 ^ 61"
  unfolding ns_sha1_same by (rule sha1.stream_hash_axioms)

section \<open>Properties\<close>

text \<open>
  The older generation's class \<open>SHA1\<close> computes the same digests: octets fed to a new object in
  any number of calls give the SHA-1 digest of their concatenation, and every operation of the
  class is the one of the newer class.
\<close>

theorem ns_sha1_digest_correct:
  assumes "length (Message_Block mem) = 64" and "length (concat css) < 2 ^ 61"
  shows "fst (ns_Result (fold ns_Input css (ns_SHA1_new mem))) = Some (SHA1_spec (concat css))
    \<and> ns_stream_in bs s = stream_in bs s \<and> ns_Result s = Result s"
  using ns_sha1.digest_chunks [OF assms] by (simp add: ns_stream_in_eq ns_Result_eq)

theorem ns_sha1_digest_correct_witness:
  "fst (ns_Result (fold ns_Input [bytes_of ''ab'', bytes_of ''c''] (ns_SHA1_new zero_mem)))
     = Some (SHA1_spec (bytes_of ''abc''))"
  using ns_sha1_digest_correct [of zero_mem "[bytes_of ''ab'', bytes_of ''c'']", THEN conjunct1]
  by (simp add: bytes_of_def)

end
