(* ===== verification/Ns_Frame.thy ===== *)
theory Ns_Frame
  imports Ns_Sha1 Ws_Accept Ws_Frame
begin

text \<open>
  The free functions of src/websocket/simple_server_websocket_connection.cpp, the WebSocket server
  of the namespace \<open>simple_server\<close>: the encoders, the reader and the writer of frames and the answer
  to a challenge, each from that file. The last section shows that each of them is the function of
  the newer library, so that the theorems on the latter hold here as well.
\<close>

section \<open>Encoders\<close>

definition ns_base64_chars :: string where
  "ns_base64_chars = ''ABCDEFGHIJKLMNOPQRSTUVWXYZabcdefghijklmnopqrstuvwxyz0123456789+/''"

definition ns_b64_char :: "byte \<Rightarrow> char" where
  "ns_b64_char b = ns_base64_chars ! unat b"

fun ns_base64_encode :: "byte list \<Rightarrow> string" where
  "ns_base64_encode [] = []"
| "ns_base64_encode (b0 # bs) =
     (let bytesLeft = length (b0 # bs);
          b1 = (if bytesLeft > 1 then bs ! 0 else 0);
          b2 = (if bytesLeft > 2 then bs ! 1 else 0)
      in [ns_b64_char (drop_bit 2 b0),
          ns_b64_char (push_bit 4 (b0 AND 0x03) OR drop_bit 4 (b1 AND 0xF0)),
          (if bytesLeft > 1 then ns_b64_char (push_bit 2 (b1 AND 0x0F) OR drop_bit 6 (b2 AND 0xC0))
           else CHR ''=''),
          (if bytesLeft > 2 then ns_b64_char (b2 AND 0x3F) else CHR ''='')]
         @ ns_base64_encode (drop 2 bs))"

definition ns_b64_quad :: "byte \<Rightarrow> byte \<Rightarrow> byte \<Rightarrow> byte list" where
  "ns_b64_quad a0 a1 a2 =
     [drop_bit 2 (a0 AND 0xFC),
      push_bit 4 (a0 AND 0x03) + drop_bit 4 (a1 AND 0xF0),
      push_bit 2 (a1 AND 0x0F) + drop_bit 6 (a2 AND 0xC0),
      a2 AND 0x3F]"

fun ns_b64_loop :: "byte list \<Rightarrow> byte list \<Rightarrow> string \<Rightarrow> byte list \<times> string" where
  "ns_b64_loop [] arr3 res = (arr3, res)"
| "ns_b64_loop (d # ds) arr3 res =
     (let arr3 = arr3 @ [d] in
      if length arr3 = 3
      then ns_b64_loop ds [] (res @ map ns_b64_char (ns_b64_quad (arr3 ! 0) (arr3 ! 1) (arr3 ! 2)))
      else ns_b64_loop ds arr3 res)"

text \<open>\<open>while (result.size() % 4) result += '=';\<close>\<close>

function ns_pad_quad :: "string \<Rightarrow> string" where
  "ns_pad_quad res = (if length res mod 4 = 0 then res else ns_pad_quad (res @ ''=''))"
  by pat_completeness auto
termination
  by (relation "measure (\<lambda>res. (4 - length res mod 4) mod 4)") (auto simp: mod_Suc)

declare ns_pad_quad.simps [simp del]

definition ns_b64 :: "byte list \<Rightarrow> string" where
  "ns_b64 data =
     (case ns_b64_loop data [] [] of (arr3, res) \<Rightarrow>
        let i = length arr3 in
        if i = 0 then res
        else (let arr3 = arr3 @ replicate (3 - i) 0
              in ns_pad_quad (res @ map ns_b64_char (take (i + 1) (ns_b64_quad (arr3 ! 0) (arr3 ! 1) (arr3 ! 2))))))"

function ns_hex_2_bytes :: "string \<Rightarrow> byte list" where
  "ns_hex_2_bytes hex =
     (if hex = [] then [] else word_of_int (strtol16 (take 2 hex)) # ns_hex_2_bytes (drop 2 hex))"
  by pat_completeness auto
termination
  by (relation "measure length") auto

declare ns_hex_2_bytes.simps [simp del]

section \<open>Frames\<close>

definition ns_be_accumulate :: "byte list \<Rightarrow> u64" where
  "ns_be_accumulate bs = fold (\<lambda>b acc. push_bit 8 acc OR ucast b) bs 0"

definition ns_unmask :: "byte list \<Rightarrow> byte list \<Rightarrow> byte list" where
  "ns_unmask key payload = map (\<lambda>i. payload ! i XOR key ! (i mod 4)) [0..<length payload]"

text \<open>The extended length: \<open>None\<close> when a read falls short.\<close>

definition ns_read_length :: "'s recv_fun \<Rightarrow> byte \<Rightarrow> 's \<Rightarrow> u64 option \<times> 's" where
  "ns_read_length rcv h1 s =
     (let len7 = (ucast (h1 AND 0x7F) :: u64) in
      if len7 = 126
      then (case rcv 2 s of (r, ext, s') \<Rightarrow> if r \<noteq> 2 then (None, s')
              else (Some (push_bit 8 (ucast (ext ! 0)) OR ucast (ext ! 1)), s'))
      else if len7 = 127
      then (case rcv 8 s of (r, ext, s') \<Rightarrow> if r \<noteq> 8 then (None, s')
              else (Some (ns_be_accumulate ext), s'))
      else (Some len7, s))"

definition ns_read_key :: "'s recv_fun \<Rightarrow> byte \<Rightarrow> 's \<Rightarrow> byte list option \<times> 's" where
  "ns_read_key rcv h1 s =
     (if drop_bit 7 h1 AND 1 = 1
      then (case rcv 4 s of (r, key, s') \<Rightarrow> if r \<noteq> 4 then (None, s') else (Some key, s'))
      else (Some (replicate 4 0), s))"

text \<open>The loop that reads the payload, with the counter of the bytes read so far.\<close>

function ns_payload_loop :: "'s recv_fun \<Rightarrow> nat \<Rightarrow> nat \<Rightarrow> byte list \<Rightarrow> 's \<Rightarrow> byte list option \<times> 's" where
  "ns_payload_loop rcv bytes_read payload_length payload s =
     (if bytes_read < payload_length
      then (case rcv (payload_length - bytes_read) s of (result, d, s') \<Rightarrow>
              if result \<le> 0 then (None, s')
              else ns_payload_loop rcv (bytes_read + nat result) payload_length (payload @ d) s')
      else (Some payload, s))"
  by pat_completeness auto
termination
  by (relation "measure (\<lambda>(rcv, bytes_read, payload_length, payload, s). payload_length - bytes_read)") auto

declare ns_payload_loop.simps [simp del]

text \<open>
  \<open>read_frame(int)\<close>. Every failure returns the empty string; the allocation of the payload may
  throw. \<open>fin\<close> is computed and never used.
\<close>

definition ns_read_frame :: "nat \<Rightarrow> 's recv_fun \<Rightarrow> 's \<Rightarrow> (string \<times> 's) result" where
  "ns_read_frame mem rcv s =
     (case rcv 2 s of (r, header, s1) \<Rightarrow>
        if r \<noteq> 2 then Inr ([], s1) else
        let opcode = header ! 0 AND 0x0F;
            masked = (drop_bit 7 (header ! 1) AND 1 = 1) in
        case ns_read_length rcv (header ! 1) s1 of
          (None, s2) \<Rightarrow> Inr ([], s2)
        | (Some len, s2) \<Rightarrow>
            (case ns_read_key rcv (header ! 1) s2 of
               (None, s3) \<Rightarrow> Inr ([], s3)
             | (Some key, s3) \<Rightarrow>
                 (case alloc_check mem (unat len) of
                    Inl e \<Rightarrow> Inl e
                  | Inr _ \<Rightarrow>
                      (case ns_payload_loop rcv 0 (unat len) [] s3 of
                         (None, s4) \<Rightarrow> Inr ([], s4)
                       | (Some payload, s4) \<Rightarrow>
                           let payload = (if masked then ns_unmask key payload else payload) in
                           if opcode = 1 then Inr (string_of payload, s4) else Inr ([], s4)))))"

text \<open>
  \<open>read_frame(uint32_t)\<close>: \<open>ret.reserve(n)\<close> leaves the size of \<open>ret\<close> at 0, and \<open>std::transform\<close>
  then writes the \<open>n\<close> characters at \<open>ret.begin()\<close>, past the end of the vector, which C++ leaves
  undefined; only the empty message writes nothing.
\<close>

definition ns_read_frame_vec :: "nat \<Rightarrow> 's recv_fun \<Rightarrow> 's \<Rightarrow> (byte list \<times> 's) result" where
  "ns_read_frame_vec mem rcv s =
     (case ns_read_frame mem rcv s of
        Inl e \<Rightarrow> Inl e
      | Inr (msg, s') \<Rightarrow> if msg \<noteq> [] then Inl Undefined_Behaviour else Inr ([], s'))"

definition ns_send_frame :: "string \<Rightarrow> byte list" where
  "ns_send_frame message =
     (let payload_length = (word_of_nat (length message) :: u64);
          frame = [0x81];
          frame = frame @
            (if payload_length \<le> 125 then [ucast payload_length]
             else if payload_length \<le> 0xFFFF
             then [126, ucast (drop_bit 8 payload_length AND 0xFF), ucast (payload_length AND 0xFF)]
             else 127 # map (\<lambda>i. ucast (drop_bit (i * 8) payload_length AND 0xFF)) (rev [0..<8]))
      in frame @ bytes_of message)"

section \<open>The answer to a challenge\<close>

definition ns_magic_string :: string where
  "ns_magic_string = ''258EAFA5-E914-47DA-95CA-C5AB0DC85B11''"

definition ns_get_accept_key :: "endian \<Rightarrow> sha1_state \<Rightarrow> string \<Rightarrow> string result" where
  "ns_get_accept_key e mem challenge =
     (let fullString = challenge @ ns_magic_string;
          hasher = ns_SHA1_new mem;
          hasher = ns_Input (take (length fullString mod 2 ^ 32) (bytes_of fullString)) hasher
      in case fst (ns_Result hasher) of
           None \<Rightarrow> Inl Undefined_Behaviour
         | Some hash \<Rightarrow> Inr (ns_base64_encode (concat (map (mem_octets e) (map (htonl e) hash)))))"

section \<open>The two generations agree\<close>

lemma ns_b64_char_eq: "ns_b64_char = b64_char"
  by (rule ext) (simp only: ns_b64_char_def b64_char_def ns_base64_chars_def base64_chars_def)

lemma ns_base64_encode_eq: "ns_base64_encode = base64_encode"
proof (rule ext)
  show "ns_base64_encode bs = base64_encode bs" for bs
    by (induction bs rule: base64_encode.induct) (simp_all add: ns_b64_char_eq)
qed

lemma ns_b64_quad_eq: "ns_b64_quad = b64_quad"
  by ((rule ext)+, simp only: ns_b64_quad_def b64_quad_def)

lemma ns_b64_loop_eq: "ns_b64_loop ds arr3 res = b64_loop ds arr3 res"
  by (induction ds arr3 res rule: b64_loop.induct) (simp_all add: ns_b64_char_eq ns_b64_quad_eq Let_def)

lemma ns_pad_quad_eq: "ns_pad_quad res = pad_quad res"
proof (induction res rule: pad_quad.induct)
  case (1 res)
  then show ?case by (simp add: pad_quad.simps [of res] ns_pad_quad.simps [of res])
qed

lemma ns_b64_eq: "ns_b64 = b64"
  by (rule ext) (simp only: ns_b64_def b64_def ns_b64_loop_eq ns_pad_quad_eq ns_b64_char_eq ns_b64_quad_eq)

lemma ns_hex_2_bytes_eq: "ns_hex_2_bytes = hex_2_bytes"
proof (rule ext)
  show "ns_hex_2_bytes hex = hex_2_bytes hex" for hex
  proof (induction hex rule: hex_2_bytes.induct)
    case (1 hex)
    then show ?case by (simp add: hex_2_bytes.simps [of hex] ns_hex_2_bytes.simps [of hex])
  qed
qed

lemma ns_read_length_eq: "ns_read_length = read_length"
  by ((rule ext)+, simp only: ns_read_length_def read_length_def ns_be_accumulate_def be_accumulate_def)

lemma ns_read_key_eq: "ns_read_key = read_key"
  by ((rule ext)+, simp only: ns_read_key_def read_key_def)

lemma ns_payload_loop_eq: "ns_payload_loop rcv k n got s = recv_all rcv (n - k) got s"
proof (induction rcv k n got s rule: ns_payload_loop.induct)
  case (1 rcv k n got s)
  show ?case
  proof (cases "k < n")
    case True
    obtain r d s' where "rcv (n - k) s = (r, d, s')" by (cases "rcv (n - k) s")
    with 1 True show ?thesis
      by (auto simp: ns_payload_loop.simps [of rcv k n got s] recv_all.simps [of rcv "n - k"])
  qed (simp add: ns_payload_loop.simps [of rcv k n])
qed

lemma ns_payload_loop_start: "ns_payload_loop rcv 0 n [] s = recv_all rcv n [] s"
  by (simp add: ns_payload_loop_eq)

lemma ns_read_frame_eq: "ns_read_frame = read_frame"
  by ((rule ext)+, simp only: ns_read_frame_def read_frame_def ns_read_length_eq ns_read_key_eq
      ns_payload_loop_start ns_unmask_def unmask_def)

lemma ns_read_frame_vec_eq: "ns_read_frame_vec = read_frame_vec"
  by ((rule ext)+, simp only: ns_read_frame_vec_def read_frame_vec_def ns_read_frame_eq)

lemma ns_send_frame_eq: "ns_send_frame = send_frame"
  by (rule ext) (simp only: ns_send_frame_def send_frame_def)

lemma ns_get_accept_key_eq: "ns_get_accept_key = get_accept_key"
  by ((rule ext)+, simp only: ns_get_accept_key_def get_accept_key_def ns_magic_string_def
      magic_string_def ns_sha1_same ns_base64_encode_eq)

lemmas ns_frame_same = ns_base64_encode_eq ns_b64_eq ns_hex_2_bytes_eq ns_read_frame_eq
  ns_read_frame_vec_eq ns_send_frame_eq ns_get_accept_key_eq

interpretation ns_ws: codec ns_send_frame frame_message "\<lambda>m. length m \<le> vector_max"
  unfolding ns_send_frame_eq by (rule ws.codec_axioms)

section \<open>Properties\<close>

text \<open>
  The two generations of the server speak the same wire format: their frame readers, frame
  writers, encoders and handshake answers are equal as functions, on every input, socket and memory.
\<close>

theorem generations_agree:
  "ns_read_frame mem rcv s = read_frame mem rcv s
    \<and> ns_read_frame_vec mem rcv s = read_frame_vec mem rcv s
    \<and> ns_send_frame m = send_frame m
    \<and> ns_get_accept_key e hmem c = get_accept_key e hmem c
    \<and> ns_base64_encode bs = base64_encode bs \<and> ns_b64 bs = b64 bs \<and> ns_hex_2_bytes hex = hex_2_bytes hex"
  by (simp only: ns_frame_same simp_thms)

end
