(* ===== verification/Ns_Websocket.thy ===== *)
theory Ns_Websocket
  imports Ns_Base Ns_Frame Tcp_Poll "HOL-Library.Multiset"
begin

text \<open>
  The WebSocket server of the namespace \<open>simple_server\<close>
  (src/websocket/simple_server_websocket_connection.cpp and its header): the messages, the
  connections, the poll loop of the background thread and the manager. The globals of the file are
  the record \<open>ns_ws_state\<close>. Frames and the handshake answer are in \<open>Ns_Frame\<close>.
\<close>

section \<open>Messages and connections\<close>

record websocket_message =
  payload :: "byte list"
  type_of_message :: int
  msg_connection :: int

definition toString :: "websocket_message \<Rightarrow> string" where
  "toString m = concat (map (\<lambda>it. if unat it < 30 then '' '' else [char_of_byte it]) (payload m))"

record websocket_connection =
  con_fd :: int
  conn_id :: u32
  counter :: u32
  valid :: bool
  on_message_received :: "(websocket_message \<Rightarrow> net_effect list) option"

text \<open>\<open>websocket_connection(fd)\<close> takes the next value of the atomic counter, which wraps around.\<close>

definition websocket_connection_new :: "int \<Rightarrow> u32 \<Rightarrow> websocket_connection \<times> u32" where
  "websocket_connection_new sock general_counter =
     (let general_counter = general_counter + 1
      in (\<lparr>con_fd = sock, conn_id = general_counter, counter = general_counter, valid = True,
           on_message_received = None\<rparr>, general_counter))"

text \<open>\<open>operator=\<close>, by copy and by move: neither copies \<open>id\<close>.\<close>

definition conn_assign :: "websocket_connection \<Rightarrow> websocket_connection \<Rightarrow> websocket_connection" where
  "conn_assign this_con other =
     this_con\<lparr>con_fd := con_fd other, counter := counter other, valid := valid other,
       on_message_received := on_message_received other\<rparr>"

definition conn_move_assign ::
  "websocket_connection \<Rightarrow> websocket_connection \<Rightarrow> websocket_connection \<times> websocket_connection" where
  "conn_move_assign this_con other =
     (conn_assign this_con other,
      other\<lparr>con_fd := 0, valid := False, counter := 0, on_message_received := None\<rparr>)"

definition deliver :: "websocket_connection \<Rightarrow> websocket_message \<Rightarrow> net_effect list" where
  "deliver con message =
     (case on_message_received con of
        Some cb \<Rightarrow> cb message
      | None \<Rightarrow> [Send (con_fd con) (ns_send_frame (toString message))])"

text \<open>\<open>operator()()\<close>; the type of the message is never written.\<close>

definition conn_call ::
  "nat \<Rightarrow> 's recv_fun \<Rightarrow> int \<Rightarrow> websocket_connection \<Rightarrow> 's \<Rightarrow> (net_effect list \<times> 's) result" where
  "conn_call maxmem rcv junk con s =
     rbind (ns_read_frame_vec maxmem rcv s) (\<lambda>(msg, s').
       if length msg > 0
       then Inr (deliver con \<lparr>payload = msg, type_of_message = junk, msg_connection = con_fd con\<rparr>, s')
       else Inr ([], s'))"

text \<open>\<open>operator()(message)\<close>: the loop ends at the first empty message.\<close>

partial_function (option) conn_call_loop ::
  "nat \<Rightarrow> 's recv_fun \<Rightarrow> websocket_connection \<Rightarrow> websocket_message \<Rightarrow> 's \<Rightarrow> (net_effect list \<times> 's) result option" where
  "conn_call_loop maxmem rcv con message s =
     (if \<not> valid con then Some (Inr ([], s))
      else case ns_read_frame_vec maxmem rcv s of
        Inl e \<Rightarrow> Some (Inl e)
      | Inr (msg, s') \<Rightarrow>
          if length msg > 0
          then Option.bind (conn_call_loop maxmem rcv con message s') (\<lambda>r.
                 Some (rbind r (\<lambda>(effs, s''). Inr (deliver con message @ effs, s''))))
          else Some (Inr ([], s')))"

section \<open>The manager\<close>

record ns_ws_state =
  event_fd :: int
  event_count :: nat                 \<comment> \<open>the counter of the eventfd, which is never read\<close>
  ws_poll_fds :: "pollfd list"
  connections :: "websocket_connection list"
  general_counter :: u32

fun ns_find_websocket_key :: "string umap \<Rightarrow> string" where
  "ns_find_websocket_key [] = []"
| "ns_find_websocket_key ((k, v) # headers) =
     (if to_lower_case_str k = ''sec-websocket-key'' then v else ns_find_websocket_key headers)"

definition is_websocket_request :: "string umap \<Rightarrow> bool" where
  "is_websocket_request headers \<longleftrightarrow> ns_find_websocket_key headers \<noteq> []"

text \<open>The constructor: without an eventfd the list stays empty and no thread is started.\<close>

definition websocket_connection_manager_new :: "int \<Rightarrow> ns_ws_state" where
  "websocket_connection_manager_new efd =
     \<lparr>event_fd = efd, event_count = 0,
      ws_poll_fds = (if efd = -1 then [] else [\<lparr>pfd = efd, events = POLLIN, revents = 0\<rparr>]),
      connections = [], general_counter = 0\<rparr>"

definition add_socket_to_the_list :: "int \<Rightarrow> ns_ws_state \<Rightarrow> ns_ws_state" where
  "add_socket_to_the_list sock st =
     (case websocket_connection_new sock (general_counter st) of (con, gc) \<Rightarrow>
        st\<lparr>ws_poll_fds := ws_poll_fds st @ [\<lparr>pfd = sock, events = POLLIN, revents = 0\<rparr>],
           connections := connections st @ [con],
           general_counter := gc,
           event_count := event_count st + 1\<rparr>)"

definition ns_handshake_response :: "string \<Rightarrow> string" where
  "ns_handshake_response key =
     ''HTTP/1.1 101 Switching Protocols'' @ CRLF
     @ ''Upgrade: websocket'' @ CRLF
     @ ''Connection: Upgrade'' @ CRLF
     @ ''Sec-WebSocket-Accept: '' @ key @ CRLF @ CRLF"

definition create_new_ws_connection ::
  "endian \<Rightarrow> sha1_state \<Rightarrow> string umap \<Rightarrow> int \<Rightarrow> ns_ws_state \<Rightarrow> (string \<times> ns_ws_state) result" where
  "create_new_ws_connection e mem headers sock st =
     (let it = ns_find_websocket_key headers in
      if it = [] then Inr ([], st)
      else rbind (ns_get_accept_key e mem it) (\<lambda>accept_key.
             Inr (ns_handshake_response accept_key, add_socket_to_the_list sock st)))"

text \<open>
  The manager is handed out by value: \<open>get\<close> copies the static object, and \<open>on_message\<close> writes into the
  copy it is called on and returns another one.
\<close>

record ws_manager =
  onmessage_cb :: "(websocket_message \<Rightarrow> net_effect list) option"

definition manager_get :: "ws_manager \<Rightarrow> ws_manager \<times> ws_manager" where
  "manager_get object = (object, object)"

definition on_message :: "(websocket_message \<Rightarrow> net_effect list) \<Rightarrow> ws_manager \<Rightarrow> ws_manager \<times> ws_manager" where
  "on_message cb m = (let m = m\<lparr>onmessage_cb := Some cb\<rparr> in (m, m))"

text \<open>\<open>websocket_connection_manager::get().on_message(cb)\<close> leaves the static object as it was.\<close>

lemma callback_lost:
  "case manager_get object of (object', copy) \<Rightarrow> case on_message cb copy of (copy', _) \<Rightarrow>
     object' = object \<and> onmessage_cb copy' = Some cb"
  by (simp add: manager_get_def on_message_def Let_def)

section \<open>The background thread\<close>

text \<open>
  For an entry with input, every connection in the list is compared with it: a read of up to 1024
  bytes into a buffer of this size, then \<open>buffer[bytes_read + 1] = 0\<close>. \<open>rd\<close> is the read from a
  descriptor, \<open>rcv\<close> the \<open>recv\<close>.
\<close>

fun notify_connections ::
  "(int \<Rightarrow> 'w recv_fun) \<Rightarrow> (int \<Rightarrow> 'w recv_fun) \<Rightarrow> nat \<Rightarrow> int \<Rightarrow> int \<Rightarrow> websocket_connection list \<Rightarrow> 'w \<Rightarrow>
     (net_effect list \<times> 'w) result" where
  "notify_connections rd rcv maxmem junk sock [] w = Inr ([], w)"
| "notify_connections rd rcv maxmem junk sock (it # its) w =
     (if con_fd it = sock then
        (case rd sock 1024 w of (bytes_read, _, w) \<Rightarrow>
           if bytes_read + 1 \<ge> 1024 then Inl Undefined_Behaviour
           else rbind (if on_message_received it \<noteq> None then conn_call maxmem (rcv sock) junk it w
                       else Inr ([], w)) (\<lambda>(effs, w).
                rbind (notify_connections rd rcv maxmem junk sock its w) (\<lambda>(effs', w).
                  Inr (effs @ effs', w))))
      else notify_connections rd rcv maxmem junk sock its w)"

text \<open>One pass of \<open>check_and_notify_events\<close> over the entries, from index \<open>i\<close>.\<close>

function check_events ::
  "(int \<Rightarrow> 'w recv_fun) \<Rightarrow> (int \<Rightarrow> 'w recv_fun) \<Rightarrow> nat \<Rightarrow> int \<Rightarrow> websocket_connection list \<Rightarrow> nat \<Rightarrow> pollfd list \<Rightarrow> 'w \<Rightarrow>
     (pollfd list \<times> net_effect list \<times> 'w) result" where
  "check_events rd rcv maxmem junk cons i fds w =
     (if i < length fds then
        (if revents (fds ! i) AND POLLIN \<noteq> 0 then
           (case notify_connections rd rcv maxmem junk (pfd (fds ! i)) cons w of
              Inl e \<Rightarrow> Inl e
            | Inr (effs, w) \<Rightarrow>
                rbind (check_events rd rcv maxmem junk cons (i + 1) fds w) (\<lambda>(fds, effs', w).
                  Inr (fds, effs @ effs', w)))
         else if revents (fds ! i) AND POLLERR \<noteq> 0 then check_events rd rcv maxmem junk cons (i + 1) fds w
         else if revents (fds ! i) AND POLLHUP \<noteq> 0 then
           rbind (check_events rd rcv maxmem junk cons i (take i fds @ drop (i + 1) fds) w) (\<lambda>(fds', effs', w).
             Inr (fds', Close (pfd (fds ! i)) # effs', w))
         else check_events rd rcv maxmem junk cons (i + 1) fds w)
      else Inr (fds, [], w))"
  by pat_completeness auto
termination
  by (relation "measure (\<lambda>(rd, rcv, maxmem, junk, cons, i, fds, w). length fds - i)") auto

declare check_events.simps [simp del]

text \<open>
  \<open>check_and_notify_events\<close> as the sequence of what happens to the thread: \<open>poll\<close> fails, which ends
  it, or returns with the events of the entries; in between, another thread adds a socket. (Nothing
  in the code keeps an addition from falling into a pass; those runs are in \<open>Ns_Ws_Race\<close>.)
\<close>

datatype ws_thread_event = Poll_Failed | Poll_Returned "nat \<Rightarrow> 16 word" | Socket_Added int

fun check_and_notify_events ::
  "(int \<Rightarrow> 'w recv_fun) \<Rightarrow> (int \<Rightarrow> 'w recv_fun) \<Rightarrow> nat \<Rightarrow> int \<Rightarrow> ws_thread_event list \<Rightarrow> ns_ws_state \<Rightarrow> 'w \<Rightarrow>
     (ns_ws_state \<times> net_effect list \<times> 'w) result" where
  "check_and_notify_events rd rcv maxmem junk [] st w = Inr (st, [], w)"
| "check_and_notify_events rd rcv maxmem junk (Poll_Failed # evs) st w = Inr (st, [], w)"
| "check_and_notify_events rd rcv maxmem junk (Socket_Added sock # evs) st w =
     check_and_notify_events rd rcv maxmem junk evs (add_socket_to_the_list sock st) w"
| "check_and_notify_events rd rcv maxmem junk (Poll_Returned rs # evs) st w =
     rbind (check_events rd rcv maxmem junk (connections st) 0 (poll_answer rs (ws_poll_fds st)) w)
       (\<lambda>(fds, effs, w).
          rbind (check_and_notify_events rd rcv maxmem junk evs (st\<lparr>ws_poll_fds := fds\<rparr>) w)
            (\<lambda>(st, effs', w). Inr (st, effs @ effs', w)))"

section \<open>Lemmas\<close>

lemma ns_handshake_response_eq: "ns_handshake_response = handshake_response"
  by (rule ext) (simp only: ns_handshake_response_def handshake_response_def)

definition hung_up :: "pollfd \<Rightarrow> bool" where
  "hung_up p \<longleftrightarrow> revents p AND POLLIN = 0 \<and> revents p AND POLLERR = 0 \<and> revents p AND POLLHUP \<noteq> 0"

definition no_callbacks :: "websocket_connection list \<Rightarrow> bool" where
  "no_callbacks cons \<longleftrightarrow> (\<forall>c \<in> set cons. on_message_received c = None)"

text \<open>A message never gets through: the vector overload is undefined for every non-empty one.\<close>

lemma ns_read_frame_vec_empty: "ns_read_frame_vec maxmem rcv s = Inr (msg, s') \<Longrightarrow> msg = []"
  by (auto simp: ns_read_frame_vec_def split: sum.splits if_splits)

lemma conn_call_silent: "conn_call maxmem rcv junk con s = Inr (effs, s') \<Longrightarrow> effs = []"
  by (auto simp: conn_call_def rbind_Inr_iff dest!: ns_read_frame_vec_empty)

lemma conn_call_loop_returns: "\<exists>r. conn_call_loop maxmem rcv con message s = Some r"
proof (cases "ns_read_frame_vec maxmem rcv s")
  case (Inr r)
  obtain msg s' where r: "r = (msg, s')" by (cases r)
  have "msg = []" by (rule ns_read_frame_vec_empty [OF Inr [unfolded r]])
  with Inr r show ?thesis by (subst conn_call_loop.simps) simp
qed (subst conn_call_loop.simps, simp)

lemma rbind_same: "rbind r (\<lambda>(a, b, c). Inr (a, b, c)) = r"
  by (cases r) auto

text \<open>A descriptor that no connection has is not read; the first connection that has it decides.\<close>

lemma notify_none:
  "sock \<notin> con_fd ` set cons \<Longrightarrow> notify_connections rd rcv maxmem junk sock cons w = Inr ([], w)"
  by (induction cons arbitrary: w) auto

lemma notify_first_read:
  assumes "sock \<in> con_fd ` set cons" and "no_callbacks cons" and "rd sock 1024 w = (n, d, w')"
  shows "1023 \<le> n \<Longrightarrow> notify_connections rd rcv maxmem junk sock cons w = Inl Undefined_Behaviour"
    and "n < 1023 \<Longrightarrow> distinct (map con_fd cons) \<Longrightarrow>
      notify_connections rd rcv maxmem junk sock cons w = Inr ([], w')"
proof -
  show "notify_connections rd rcv maxmem junk sock cons w = Inl Undefined_Behaviour" if "1023 \<le> n"
    using assms that by (induction cons) (auto simp: no_callbacks_def)
  show "notify_connections rd rcv maxmem junk sock cons w = Inr ([], w')"
    if "n < 1023" "distinct (map con_fd cons)"
    using assms that by (induction cons) (auto simp: no_callbacks_def notify_none)
qed

lemma notify_connections_silent:
  "notify_connections rd rcv maxmem junk sock cons w = Inr (effs, w') \<Longrightarrow> effs = []"
proof (induction cons arbitrary: w effs)
  case (Cons it its)
  show ?case
  proof (cases "con_fd it = sock")
    case True
    with Cons.prems obtain n d w1 e1 w2 e2
      where "rd sock 1024 w = (n, d, w1)"
        and c: "(if on_message_received it \<noteq> None then conn_call maxmem (rcv sock) junk it w1 else Inr ([], w1)) = Inr (e1, w2)"
        and r: "notify_connections rd rcv maxmem junk sock its w2 = Inr (e2, w')" and "effs = e1 @ e2"
      by (fastforce simp: rbind_Inr_iff split: prod.splits if_splits)
    moreover have "e1 = []" using c conn_call_silent by (auto split: if_splits)
    ultimately show ?thesis using Cons.IH [OF r] by simp
  qed (use Cons in simp)
qed simp

lemma check_events_eq:
  "check_events rd rcv maxmem junk cons i fds w = Inr (fds', effs, w') \<Longrightarrow> i \<le> length fds \<Longrightarrow>
     fds' = take i fds @ filter (\<lambda>p. \<not> hung_up p) (drop i fds)
     \<and> effs = map (\<lambda>p. Close (pfd p)) (filter hung_up (drop i fds))"
proof (induction rd rcv maxmem junk cons i fds w arbitrary: fds' effs w' rule: check_events.induct)
  case (1 rd rcv maxmem junk cons i fds w)
  show ?case
  proof (cases "i < length fds")
    case True
    let ?p = "fds ! i"
    have d: "drop i fds = ?p # drop (Suc i) fds" using True by (rule Cons_nth_drop_Suc [symmetric])
    have t: "take (Suc i) fds = take i fds @ [?p]" using True by (rule take_Suc_conv_app_nth)
    consider "revents ?p AND POLLIN \<noteq> 0" | "revents ?p AND POLLIN = 0" "revents ?p AND POLLERR \<noteq> 0"
      | "hung_up ?p"
      | "revents ?p AND POLLIN = 0" "revents ?p AND POLLERR = 0" "revents ?p AND POLLHUP = 0"
      by (auto simp: hung_up_def)
    then show ?thesis
    proof cases
      case a: 1
      with "1.prems"(1) True obtain e1 w1 e2
        where n: "notify_connections rd rcv maxmem junk (pfd ?p) cons w = Inr (e1, w1)"
          and c: "check_events rd rcv maxmem junk cons (i + 1) fds w1 = Inr (fds', e2, w')" and "effs = e1 @ e2"
        by (subst (asm) check_events.simps) (auto simp: rbind_Inr_iff split: sum.splits)
      with "1.IH"(1) [OF True a n refl c] notify_connections_silent [OF n] True d t a
      show ?thesis by (simp add: hung_up_def)
    next
      case 2
      with "1.prems"(1) True have c: "check_events rd rcv maxmem junk cons (i + 1) fds w = Inr (fds', effs, w')"
        by (subst (asm) check_events.simps) simp
      with "1.IH"(2) [OF True _ _ c] 2 True d t show ?thesis by (simp add: hung_up_def)
    next
      case 3
      let ?fds = "take i fds @ drop (i + 1) fds"
      from 3 "1.prems"(1) True obtain e2
        where c: "check_events rd rcv maxmem junk cons i ?fds w = Inr (fds', e2, w')" and "effs = Close (pfd ?p) # e2"
        by (subst (asm) check_events.simps) (auto simp: rbind_Inr_iff hung_up_def)
      moreover from 3 have "\<not> revents ?p AND POLLIN \<noteq> 0" "\<not> revents ?p AND POLLERR \<noteq> 0" "revents ?p AND POLLHUP \<noteq> 0"
        by (simp_all add: hung_up_def)
      note IH = "1.IH"(3) [OF True this c]
      moreover have "i \<le> length ?fds" "take i ?fds = take i fds" "drop i ?fds = drop (Suc i) fds"
        using True by simp_all
      ultimately show ?thesis using d 3 by simp
    next
      case 4
      with "1.prems"(1) True have c: "check_events rd rcv maxmem junk cons (i + 1) fds w = Inr (fds', effs, w')"
        by (subst (asm) check_events.simps) simp
      with "1.IH"(4) [OF True _ _ _ c] 4 True d t show ?thesis by (simp add: hung_up_def)
    qed
  next
    case False
    with "1.prems" show ?thesis by (simp add: check_events.simps)
  qed
qed

text \<open>The sockets that were added before the thread ended.\<close>

definition added :: "ws_thread_event list \<Rightarrow> int list" where
  "added evs = concat (map (\<lambda>ev. case ev of Socket_Added sock \<Rightarrow> [sock] | _ \<Rightarrow> [])
     (takeWhile (\<lambda>ev. ev \<noteq> Poll_Failed) evs))"

lemma added_simps [simp]:
  "added [] = []" "added (Poll_Failed # evs) = []"
  "added (Socket_Added sock # evs) = sock # added evs" "added (Poll_Returned rs # evs) = added evs"
  by (simp_all add: added_def)

lemma map_pfd_poll_answer: "map pfd (poll_answer rs fds) = map pfd fds"
  by (rule nth_equalityI) (simp_all add: poll_answer_def)

lemma add_socket_fields:
  "map pfd (ws_poll_fds (add_socket_to_the_list sock st)) = map pfd (ws_poll_fds st) @ [sock]"
  "map con_fd (connections (add_socket_to_the_list sock st)) = map con_fd (connections st) @ [sock]"
  "event_count (add_socket_to_the_list sock st) = event_count st + 1"
  by (simp_all add: add_socket_to_the_list_def websocket_connection_new_def Let_def)

lemma thread_run:
  assumes "check_and_notify_events rd rcv maxmem junk evs st w = Inr (st', effs, w')"
  shows "\<exists>closed. effs = map Close closed
      \<and> mset (map pfd (ws_poll_fds st')) + mset closed = mset (map pfd (ws_poll_fds st)) + mset (added evs)
      \<and> map con_fd (connections st') = map con_fd (connections st) @ added evs
      \<and> event_count st' = event_count st + length (added evs)"
  using assms
proof (induction rd rcv maxmem junk evs st w arbitrary: effs rule: check_and_notify_events.induct)
  case (3 rd rcv maxmem junk sock evs st w)
  then obtain closed where c: "effs = map Close closed"
      "mset (map pfd (ws_poll_fds st')) + mset closed
        = mset (map pfd (ws_poll_fds (add_socket_to_the_list sock st))) + mset (added evs)"
      "map con_fd (connections st') = map con_fd (connections (add_socket_to_the_list sock st)) @ added evs"
      "event_count st' = event_count (add_socket_to_the_list sock st) + length (added evs)"
    by auto
  then show ?case by (intro exI [of _ closed]) (simp add: add_socket_fields)
next
  case (4 rd rcv maxmem junk rs evs st w)
  let ?fds = "poll_answer rs (ws_poll_fds st)"
  from 4(2) obtain fds e1 w1 e2
    where c: "check_events rd rcv maxmem junk (connections st) 0 ?fds w = Inr (fds, e1, w1)"
      and r: "check_and_notify_events rd rcv maxmem junk evs (st\<lparr>ws_poll_fds := fds\<rparr>) w1 = Inr (st', e2, w')"
      and e: "effs = e1 @ e2"
    by (fastforce simp: rbind_Inr_iff)
  have p: "fds = filter (\<lambda>p. \<not> hung_up p) ?fds" "e1 = map Close (map pfd (filter hung_up ?fds))"
    using check_events_eq [OF c] by simp_all
  have "mset (map pfd fds) + mset (map pfd (filter hung_up ?fds)) = mset (map pfd ?fds)"
    unfolding p(1) by (simp add: image_mset_union [symmetric] add.commute)
  then have m: "mset (map pfd fds) + mset (map pfd (filter hung_up ?fds)) = mset (map pfd (ws_poll_fds st))"
    by (simp only: map_pfd_poll_answer)
  from 4(1) [OF r] obtain closed where d: "e2 = map Close closed"
      "mset (map pfd (ws_poll_fds st')) + mset closed = mset (map pfd fds) + mset (added evs)"
      "map con_fd (connections st') = map con_fd (connections st) @ added evs"
      "event_count st' = event_count st + length (added evs)"
    by auto
  show ?case
  proof (intro exI [of _ "map pfd (filter hung_up ?fds) @ closed"] conjI)
    show "effs = map Close (map pfd (filter hung_up ?fds) @ closed)" using e p(2) d(1) by simp
    show "mset (map pfd (ws_poll_fds st')) + mset (map pfd (filter hung_up ?fds) @ closed)
        = mset (map pfd (ws_poll_fds st)) + mset (added (Poll_Returned rs # evs))"
      using m d(2) by (simp add: ac_simps) (metis add.assoc add.commute)
  qed (use d in simp_all)
qed auto

section \<open>Properties\<close>

text \<open>
  One pass of the background thread closes and removes exactly the entries that report a
  hang-up and neither input nor an error, in order, also when they are next to each other, and
  keeps all others; it never sends a byte, so that no message of a client is ever answered.
\<close>

theorem pass_removes_hung_up:
  assumes "check_events rd rcv maxmem junk cons 0 fds w = Inr (fds', effs, w')"
  shows "fds' = filter (\<lambda>p. \<not> hung_up p) fds
    \<and> effs = map (\<lambda>p. Close (pfd p)) (filter hung_up fds)"
  using check_events_eq [OF assms] by simp

theorem pass_removes_hung_up_witness:
  "[\<lparr>pfd = 7, events = 1, revents = 0\<rparr>] = filter (\<lambda>p. \<not> hung_up p)
      [\<lparr>pfd = 5, events = 1, revents = 16\<rparr>, \<lparr>pfd = 6, events = 1, revents = 16\<rparr>, \<lparr>pfd = 7, events = 1, revents = 0\<rparr>]"
proof -
  have "check_events (\<lambda>fd. recv) (\<lambda>fd. recv) 0 0 [] 0
      [\<lparr>pfd = 5, events = 1, revents = 16\<rparr>, \<lparr>pfd = 6, events = 1, revents = 16\<rparr>, \<lparr>pfd = 7, events = 1, revents = 0\<rparr>] []
    = Inr ([\<lparr>pfd = 7, events = 1, revents = 0\<rparr>], [Close 5, Close 6], [])"
    by (simp add: check_events.simps POLLIN_def POLLERR_def POLLHUP_def)
  from pass_removes_hung_up [OF this] show ?thesis by simp
qed

text \<open>
  C37: How much the background thread may read: when a registered descriptor is readable and the read
  delivers 1023 bytes or more, the terminator is stored outside the buffer of 1024 bytes; when it
  delivers fewer, or fails, and the descriptor is registered once, the pass goes on with the next
  entry.
\<close>

theorem long_read_overflows:
  assumes "i < length fds" and "revents (fds ! i) AND POLLIN \<noteq> 0"
    and "pfd (fds ! i) \<in> con_fd ` set cons" and "no_callbacks cons"
    and "rd (pfd (fds ! i)) 1024 w = (n, d, w')"
  shows "(1023 \<le> n \<longrightarrow> check_events rd rcv maxmem junk cons i fds w = Inl Undefined_Behaviour)
    \<and> (n < 1023 \<and> distinct (map con_fd cons) \<longrightarrow>
        check_events rd rcv maxmem junk cons i fds w = check_events rd rcv maxmem junk cons (i + 1) fds w')"
proof -
  have "notify_connections rd rcv maxmem junk (pfd (fds ! i)) cons w
      = (if 1023 \<le> n then Inl Undefined_Behaviour else Inr ([], w'))"
    if "1023 \<le> n \<or> distinct (map con_fd cons)"
    using that notify_first_read(1) [where rd = rd and rcv = rcv and junk = junk and maxmem = maxmem, OF assms(3,4,5)]
      notify_first_read(2) [where rd = rd and rcv = rcv and junk = junk and maxmem = maxmem, OF assms(3,4,5)]
    by (auto simp: not_le)
  then show ?thesis
    using assms(1,2) by (auto simp: check_events.simps [of rd rcv maxmem junk cons i] rbind_same)
qed

theorem long_read_overflows_witness:
  "check_events (\<lambda>fd. recv) (\<lambda>fd. recv) 0 0 [fst (websocket_connection_new 5 0)] 0
      [\<lparr>pfd = 5, events = 1, revents = 1\<rparr>] [Rx_Data (replicate 1500 65)] = Inl Undefined_Behaviour"
proof -
  have "recv 1024 [Rx_Data (replicate 1500 65)] = (1024, replicate 1024 65, [Rx_Data (replicate 476 65)])"
    by simp
  then show ?thesis
    using long_read_overflows [of 0 "[\<lparr>pfd = 5, events = 1, revents = 1\<rparr>]" "[fst (websocket_connection_new 5 0)]"
        "\<lambda>fd. recv" "[Rx_Data (replicate 1500 65)]" 1024]
    by (simp add: POLLIN_def websocket_connection_new_def no_callbacks_def)
qed

text \<open>
  The handshake of the older library: a request with a non-empty key field gets the same 101
  response as in the newer one; its descriptor is appended to the poll table and to the
  connections, with the next number, and without a callback.
\<close>

theorem ns_handshake:
  assumes "length (Message_Block mem) = 64" and "length (ns_find_websocket_key headers) < 2 ^ 32 - 36"
    and "is_websocket_request headers"
  shows "create_new_ws_connection e mem headers sock st
    = Inr (handshake_response (accept_key (ns_find_websocket_key headers)),
        st\<lparr>ws_poll_fds := ws_poll_fds st @ [\<lparr>pfd = sock, events = POLLIN, revents = 0\<rparr>],
           connections := connections st @ [\<lparr>con_fd = sock, conn_id = general_counter st + 1,
             counter = general_counter st + 1, valid = True, on_message_received = None\<rparr>],
           general_counter := general_counter st + 1, event_count := event_count st + 1\<rparr>)"
  using assms get_accept_key_eq [OF assms(1,2)]
  by (simp add: ns_get_accept_key_eq ns_handshake_response_eq create_new_ws_connection_def is_websocket_request_def add_socket_to_the_list_def
      websocket_connection_new_def Let_def)

theorem ns_handshake_witness:
  "fst (projr (create_new_ws_connection Big_Endian zero_mem [(''sec-websocket-key'', ''abc'')] 5
      (websocket_connection_manager_new 3))) = handshake_response (accept_key ''abc'')"
proof -
  have "to_lower_case ''sec-websocket-key'' = ''sec-websocket-key''" by code_simp
  then have "ns_find_websocket_key [(''sec-websocket-key'', ''abc'')] = ''abc''" by (simp add: ns_string_eq)
  then show ?thesis
    using ns_handshake [of zero_mem "[(''sec-websocket-key'', ''abc'')]" Big_Endian 5 "websocket_connection_manager_new 3"]
    by (simp add: is_websocket_request_def)
qed

text \<open>
  Whatever \<open>poll\<close> reports and however many sockets other threads add, the background thread
  never sends a byte: its only effects are closes. No descriptor is lost: those in the table and
  those closed are, with multiplicity, those that were in the table and those added. The list of
  connections only grows, also when their descriptors are closed, and so does the event counter.
\<close>

theorem thread_only_closes:
  assumes "check_and_notify_events rd rcv maxmem junk evs st w = Inr (st', effs, w')"
  shows "\<exists>closed. effs = map Close closed
      \<and> mset (map pfd (ws_poll_fds st')) + mset closed = mset (map pfd (ws_poll_fds st)) + mset (added evs)
      \<and> map con_fd (connections st') = map con_fd (connections st) @ added evs
      \<and> event_count st' = event_count st + length (added evs)"
  using assms by (rule thread_run)

theorem thread_only_closes_witness:
  "map con_fd (connections (fst (projr (check_and_notify_events (\<lambda>fd. recv) (\<lambda>fd. recv) 0 0
      [Socket_Added 5, Poll_Returned (\<lambda>k. if k = 1 then POLLHUP else 0)]
      (websocket_connection_manager_new 3) [])))) = [5]"
proof -
  let ?st = "add_socket_to_the_list 5 (websocket_connection_manager_new 3)"
  have "check_and_notify_events (\<lambda>fd. recv) (\<lambda>fd. recv) 0 0
      [Socket_Added 5, Poll_Returned (\<lambda>k. if k = 1 then POLLHUP else 0)] (websocket_connection_manager_new 3) []
    = Inr (?st\<lparr>ws_poll_fds := [\<lparr>pfd = 3, events = POLLIN, revents = 0\<rparr>]\<rparr>, [Close 5], [])"
    by (simp add: add_socket_to_the_list_def websocket_connection_new_def websocket_connection_manager_new_def
        poll_answer_def check_events.simps POLLIN_def POLLERR_def POLLHUP_def Let_def upt_rec)
  from thread_only_closes [OF this] this show ?thesis
    by (auto simp: websocket_connection_manager_new_def)
qed

end
