(* ===== verification/Http_Client.thy ===== *)
theory Http_Client
  imports Http_Response
begin

text \<open>
  The other end of a connection, as specification: what a client that follows RFC 9112 reads out of
  the text of a response. It looks for the first empty line, takes the status line and the header
  fields in front of it, and as many bytes after it as Content-Length says, or all that is left when
  there is no such field.
\<close>

section \<open>The client\<close>

function crlf_lines :: "string \<Rightarrow> string list" where
  "crlf_lines s = (case str_find CRLF s of None \<Rightarrow> [s] | Some i \<Rightarrow> take i s # crlf_lines (drop (i + 2) s))"
  by pat_completeness auto
termination
  by (relation "measure length") (auto simp del: str_find.simps dest!: str_find_SomeD prefix_length_le)

declare crlf_lines.simps [simp del]

definition field_of :: "string \<Rightarrow> string \<times> string" where
  "field_of l = (case str_find '': '' l of None \<Rightarrow> (l, []) | Some i \<Rightarrow> (take i l, drop (i + 2) l))"

definition client_read :: "string \<Rightarrow> (string \<times> (string \<times> string) list \<times> string) option" where
  "client_read s =
     (case str_find (CRLF @ CRLF) s of
        None \<Rightarrow> None
      | Some i \<Rightarrow>
          let ls = crlf_lines (take i s);
              flds = map field_of (tl ls);
              content = drop (i + 4) s
          in Some (hd ls, flds,
               case map_of flds ''Content-Length'' of
                 None \<Rightarrow> content
               | Some n \<Rightarrow> take (string_to_nat n) content))"

section \<open>What it reads of lines that were put together\<close>

lemma str_find_crlf_line: "clean l \<Longrightarrow> str_find CRLF (l @ CRLF @ s) = Some (length l)"
  using str_find_skip [of CR l "[LF]" "CRLF @ s"] by (simp add: clean_def)

lemma str_find_crlf_none: "clean l \<Longrightarrow> str_find CRLF l = None"
  using str_find_skip [of CR l "[LF]" "[]"] by (simp add: clean_def)

lemma crlf_lines_join:
  assumes "ls \<noteq> []" and "\<forall>l \<in> set ls. clean l"
  shows "crlf_lines (take (length (lines_text ls) - 2) (lines_text ls)) = ls"
  using assms
proof (induction ls)
  case (Cons l ls)
  show ?case
  proof (cases "ls = []")
    case True
    with Cons.prems show ?thesis
      by (simp add: lines_text_def crlf_lines.simps [of l] str_find_crlf_none)
  next
    case False
    let ?t = "take (length (lines_text ls) - 2) (lines_text ls)"
    have two: "2 \<le> length (lines_text ls)" using False by (cases ls) (simp_all add: lines_text_def)
    have "lines_text (l # ls) = (l @ CRLF) @ lines_text ls" by (simp add: lines_text_def)
    moreover have "length (lines_text (l # ls)) - 2 = length (l @ CRLF) + (length (lines_text ls) - 2)"
      using two by (simp add: lines_text_def)
    ultimately have "take (length (lines_text (l # ls)) - 2) (lines_text (l # ls)) = l @ CRLF @ ?t"
      by (simp only: take_add) simp
    moreover have "crlf_lines (l @ CRLF @ ?t) = l # crlf_lines ?t"
      using str_find_crlf_line [of l ?t] Cons.prems(2) by (subst crlf_lines.simps) simp
    moreover have "crlf_lines ?t = ls" using Cons.IH [OF False] Cons.prems(2) by simp
    ultimately show ?thesis by simp
  qed
qed simp

definition plain_name :: "string \<Rightarrow> bool" where
  "plain_name k \<longleftrightarrow> CHR '':'' \<notin> set k"

lemma field_of_header_line: "plain_name (fst kv) \<Longrightarrow> field_of (header_line kv) = kv"
  using str_find_skip [of "CHR '':''" "fst kv" "'' ''" "'': '' @ snd kv"]
  by (cases kv) (simp add: field_of_def header_line_def plain_name_def)

lemma client_read_lines:
  assumes "clean status" and "status \<noteq> []" and "\<forall>(k, v) \<in> set flds. clean k \<and> clean v \<and> plain_name k"
  shows "client_read (lines_text (status # map header_line flds) @ CRLF @ content)
    = Some (status, flds,
        case map_of flds ''Content-Length'' of None \<Rightarrow> content | Some n \<Rightarrow> take (string_to_nat n) content)"
proof -
  let ?ls = "status # map header_line flds"
  let ?t = "lines_text ?ls"
  have ok: "\<forall>l \<in> set ?ls. l \<noteq> [] \<and> clean l" using assms header_line_clean by fastforce
  have f: "str_find (CRLF @ CRLF) (?t @ CRLF @ content) = Some (length ?t - 2)"
    by (rule str_find_blank_line [OF ok]) simp
  have two: "2 \<le> length ?t" by (simp add: lines_text_def)
  have "take (length ?t - 2) (?t @ CRLF @ content) = take (length ?t - 2) ?t" by simp
  then have lines: "crlf_lines (take (length ?t - 2) (?t @ CRLF @ content)) = ?ls"
    using crlf_lines_join [of ?ls] ok by simp
  have rest: "drop (length ?t - 2 + 4) (?t @ CRLF @ content) = content" using two by simp
  have flds: "map field_of (map header_line flds) = flds"
    using assms(3) by (intro map_idI [THEN trans [OF map_map]]) (auto simp: field_of_header_line)
  show ?thesis unfolding client_read_def f option.case Let_def lines rest list.sel flds by simp
qed

section \<open>Properties\<close>

text \<open>
  C18: A client reads back what the server put into a response: the status line, the header fields of
  the response in order and, where the response had none, a Content-Length, and the body, cut when
  the response declares a Content-Length of its own that is too small.
\<close>

theorem response_read:
  assumes "clean_headers hs" and "\<forall>k \<in> fst ` set hs. plain_name k"
    and "0 < length body" and "length body < 2 ^ 31"
  shows "client_read (build_http_response hs body c)
    = Some (''HTTP/1.1 '' @ reason c, sent_headers hs (length body),
        case umap_find hs ''Content-Length'' of None \<Rightarrow> body | Some n \<Rightarrow> take (string_to_nat n) body)"
proof -
  let ?fs = "sent_headers hs (length body)"
  have "plain_name ''Content-Length''" by (simp add: plain_name_def)
  then have "\<forall>(k, v) \<in> set ?fs. clean k \<and> clean v \<and> plain_name k"
    using sent_headers_clean [OF assms(1), of "length body"] assms(2) by (fastforce simp: sent_headers_def)
  moreover have "clean (''HTTP/1.1 '' @ reason c)" using reason_clean [of c] by (simp add: clean_def)
  moreover have "(case map_of ?fs ''Content-Length'' of None \<Rightarrow> body | Some n \<Rightarrow> take (string_to_nat n) body)
      = (case umap_find hs ''Content-Length'' of None \<Rightarrow> body | Some n \<Rightarrow> take (string_to_nat n) body)"
    by (cases "umap_find hs ''Content-Length''") (simp_all add: sent_headers_def umap_find_def map_add_def)
  ultimately show ?thesis
    unfolding build_http_response_lines [OF assms(3,4)] head_lines_def
    using client_read_lines [of "''HTTP/1.1 '' @ reason c" ?fs body] by simp
qed

theorem response_read_witness:
  "client_read (build_http_response [(''X-Id'', ''7'')] ''hello'' NotFound)
     = Some (''HTTP/1.1 404 Not Found'', [(''X-Id'', ''7''), (''Content-Length'', ''5'')], ''hello'')"
proof -
  have "reason NotFound = ''404 Not Found''" by code_simp
  moreover have "nat_to_string (Suc (Suc (Suc (Suc (Suc 0))))) = ''5''" by code_simp
  ultimately show ?thesis
    using response_read [of "[(''X-Id'', ''7'')]" "''hello''" NotFound]
    by (simp add: clean_headers_def clean_def plain_name_def sent_headers_def umap_find_def)
qed

end
