(* ===== verification/Ns_Server.thy ===== *)
theory Ns_Server
  imports Ns_Connection Ns_Websocket Tcp_Default Http_Client
begin

text \<open>
  The HTTP server of the namespace \<open>simple_server\<close> (src/http/simple_server_http.cpp, its header and
  includes/simple_server/base/simple_server_interface.h): the state machine of \<open>create_socket\<close> and
  \<open>start\<close>, the table of routes, and the handler that each accepted connection gets in a thread of
  its own. The state of the WebSocket manager is the record \<open>ns_ws_state\<close>; the machine, the socket
  and the regular expressions are arguments as in \<open>Http_Server\<close>. A handler that returns a null
  pointer is a handler with the result \<open>Undefined_Behaviour\<close>.
\<close>

section \<open>The server object\<close>

type_synonym ns_endpointcb = "Request \<Rightarrow> Response result"

record ns_http_server =
  server_id :: string
  server_socket :: socket_connection
  root_assets_path :: string
  ns_routes_map :: "ns_endpointcb routes"

text \<open>The constructors set the port and the name; the other members of the socket are not written.\<close>

definition http_server_new :: "socket_connection \<Rightarrow> 16 word \<Rightarrow> string \<Rightarrow> ns_http_server" where
  "http_server_new junk port_no id_str =
     \<lparr>server_id = id_str, server_socket = junk\<lparr>socket_port := port_no\<rparr>, root_assets_path = [],
      ns_routes_map = []\<rparr>"

definition ns_add_route_handler :: "string \<Rightarrow> ns_endpointcb \<Rightarrow> ns_http_server \<Rightarrow> ns_http_server" where
  "ns_add_route_handler url_str cb srv = srv\<lparr>ns_routes_map := umap_set url_str cb (ns_routes_map srv)\<rparr>"

text \<open>\<open>cwd\<close> is the result of \<open>get_current_dir_name\<close>; a null pointer cannot be added to a string.\<close>

definition set_assets_folder ::
  "(string \<Rightarrow> bool) \<Rightarrow> string option \<Rightarrow> string \<Rightarrow> ns_http_server \<Rightarrow> ns_http_server result" where
  "set_assets_folder stat_ok cwd path srv =
     (if check_if_path_exist stat_ok path then Inr (srv\<lparr>root_assets_path := path\<rparr>)
      else case cwd of
             None \<Rightarrow> Inl Undefined_Behaviour
           | Some d \<Rightarrow> Inr (srv\<lparr>root_assets_path := c_str d @ ''/'' @ ''/www''\<rparr>))"

section \<open>create_socket and start\<close>

definition INVALID_SOCKET :: int where "INVALID_SOCKET = -1"
definition SOCKET_ERROR :: int where "SOCKET_ERROR = -1"

definition create_socket_fd :: "setup_os \<Rightarrow> socket_connection \<Rightarrow> socket_connection \<times> sys_call list" where
  "create_socket_fd os fd =
     (let fd = fd\<lparr>connection := socket_result os\<rparr>;
          fd = fd\<lparr>current_status := Starting\<rparr>;
          fd = (if connection fd < 0 then fd\<lparr>current_status := CreatingSocket\<rparr> else fd)
      in (fd, [Sys_Socket]))"

definition create_socket :: "setup_os \<Rightarrow> socket_connection \<Rightarrow> socket_connection \<times> sys_call list" where
  "create_socket os fd =
     (case create_socket_fd os fd of (fd, calls) \<Rightarrow>
        if current_status fd \<noteq> Starting then (fd\<lparr>current_status := ErrorOrException\<rparr>, calls)
        else
          let calls = calls @ [Sys_Setsockopt (connection fd) SO_REUSEADDR,
                               Sys_Bind (connection fd) (socket_port fd)] in
          if bind_result os = SOCKET_ERROR then (fd\<lparr>current_status := BindingSocket\<rparr>, calls)
          else
            let calls = calls @ [Sys_Listen (connection fd) (Backlog MAX_CONNECTIONS)] in
            if listen_result os = SOCKET_ERROR then (fd\<lparr>current_status := Listening\<rparr>, calls)
            else (fd\<lparr>current_status := Running\<rparr>, calls))"

text \<open>
  \<open>start\<close> over the answers of \<open>accept\<close> so far: the calls it makes and the connections it starts a
  thread for. The loop never changes the status, so that it ends at once or not at all.
\<close>

fun start_loop :: "int list \<Rightarrow> socket_connection \<Rightarrow> sys_call list \<times> int list" where
  "start_loop [] fd = ([], [])"
| "start_loop (con # answers) fd =
     (if current_status fd = Running then
        (case start_loop answers fd of (calls, threads) \<Rightarrow>
           (Sys_Accept (connection fd) # calls, if con = INVALID_SOCKET then threads else con # threads))
      else ([], []))"

definition start_server :: "int list \<Rightarrow> socket_connection \<Rightarrow> sys_call list \<times> int list" where
  "start_server answers fd =
     (case start_loop answers fd of (calls, threads) \<Rightarrow>
        (if current_status fd = Running then calls else calls @ [Sys_Net (Close (connection fd))], threads))"

section \<open>Routing\<close>

fun ns_regex_route :: "regex_match \<Rightarrow> string \<Rightarrow> 'cb routes \<Rightarrow> (string \<times> 'cb) option result" where
  "ns_regex_route rx uri [] = Inr None"
| "ns_regex_route rx uri ((k, cb) # m) =
     (case rx k uri of
        None \<Rightarrow> Inl Regex_Error
      | Some matched \<Rightarrow> if matched then Inr (Some (k, cb)) else ns_regex_route rx uri m)"

fun ns_pattern_route :: "string list \<Rightarrow> 'cb routes \<Rightarrow> (string \<times> 'cb) option result" where
  "ns_pattern_route splittedUri [] = Inr None"
| "ns_pattern_route splittedUri ((k, cb) # m) =
     (let eSplitted = ns_split_words k CHR ''/'' in
      if length eSplitted \<noteq> length splittedUri then ns_pattern_route splittedUri m
      else case ns_validate_pattern_by_url splittedUri eSplitted of
             Inl e \<Rightarrow> Inl e
           | Inr status \<Rightarrow> if status then Inr (Some (k, cb)) else ns_pattern_route splittedUri m)"

definition ns_query_endpoint_from_map ::
  "regex_match \<Rightarrow> string \<Rightarrow> 'cb routes \<Rightarrow> (string \<times> 'cb option) result" where
  "ns_query_endpoint_from_map rx uri routes_map =
     (let res = (INVALID_HTTP_URI, None);
          found = (\<lambda>(k, cb). (k, Some cb)) in
      if length uri = 1 \<and> uri = ''/''
      then (case List.find (\<lambda>(k, cb). k = ''/'') routes_map of
              Some it \<Rightarrow> Inr (found it)
            | None \<Rightarrow> Inr res)
      else case umap_find routes_map uri of
             Some cb \<Rightarrow> Inr (uri, Some cb)
           | None \<Rightarrow>
               rbind (ns_regex_route rx uri routes_map) (\<lambda>r.
                 case r of
                   Some it \<Rightarrow> Inr (found it)
                 | None \<Rightarrow>
                     rbind (ns_pattern_route (ns_split_words uri CHR ''/'') routes_map) (\<lambda>r.
                       case r of Some it \<Rightarrow> Inr (found it) | None \<Rightarrow> Inr res)))"

section \<open>handle_connection_request\<close>

text \<open>The page for a path without a route, and its response; \<open>headers\<close> in iteration order.\<close>

definition echo_page :: "string \<Rightarrow> string \<Rightarrow> string \<Rightarrow> string umap \<Rightarrow> string umap \<Rightarrow> string" where
  "echo_page http_verb url_str urlDynamicPath hs queryParams =
     ''HTTP VERB: '' @ http_verb @ [LF]
     @ ''URL: '' @ url_str @ [LF]
     @ ''Dynamic Url: '' @ urlDynamicPath @ [LF]
     @ ''HTTP Headers: ''
     @ concat (map (\<lambda>(k, v). k @ '': '' @ v @ [LF]) hs)
     @ (if queryParams \<noteq> []
        then ''Query Parameters: '' @ [LF] @ concat (map (\<lambda>(k, v). k @ '' : '' @ v @ [LF]) queryParams)
        else [])"

definition echo_response :: "string \<Rightarrow> string" where
  "echo_response page =
     ''HTTP/1.1 200 OK'' @ CRLF
     @ ''Content-Length: '' @ nat_to_string (length page) @ CRLF
     @ ''Content-Type: text/plain'' @ CRLF
     @ CRLF @ CRLF
     @ page"

definition handle_websocket_handshake ::
  "machine \<Rightarrow> Request \<Rightarrow> int \<Rightarrow> ns_ws_state \<Rightarrow> (net_effect list \<times> ns_ws_state) result" where
  "handle_websocket_handshake mc request con ws =
     rbind (create_new_ws_connection (byte_order mc) (hash_memory mc) (req_headers request) con ws)
       (\<lambda>(response_transformed, ws). Inr ([Send con (bytes_of response_transformed)], ws))"

definition ns_default_max_buffer :: nat where "ns_default_max_buffer = 2048"

text \<open>
  The body of the call for a text that was received: the parsers in the order of the code, then the
  handshake, the echo page or the handler of the route.
\<close>

definition ns_process ::
  "machine \<Rightarrow> ns_http_server \<Rightarrow> int \<Rightarrow> string \<Rightarrow> ns_ws_state \<Rightarrow> (net_effect list \<times> ns_ws_state) result" where
  "ns_process mc srv con str_request ws =
     rbind (ns_extract_http_verb str_request) (\<lambda>http_verb.
     let verb_id = parseRequestVerb str_request in
     rbind (ns_extract_url_with_query_params str_request) (\<lambda>urlDynamicPath.
     rbind (ns_extract_url str_request) (\<lambda>url_str.
     rbind (ns_parse_headers str_request) (\<lambda>hs.
     rbind (ns_parse_url_params urlDynamicPath) (\<lambda>queryParams.
     let request = \<lparr>requestVerb = verb_id, req_url = url_str, req_headers = hs,
                    req_query_params = queryParams, req_body = ns_extract_body str_request\<rparr> in
     if is_websocket_request hs then handle_websocket_handshake mc request con ws
     else
       rbind (ns_query_endpoint_from_map (regex mc) url_str (ns_routes_map srv)) (\<lambda>it.
       rbind (if fst it = INVALID_HTTP_URI
              then Inr (echo_response (echo_page http_verb url_str urlDynamicPath hs queryParams))
              else case snd it of
                     None \<Rightarrow> Inl Bad_Function_Call
                   | Some cb \<Rightarrow> rbind (cb request) (\<lambda>res. Inr (buildResponse res)))
         (\<lambda>response. Inr ([Send con (bytes_of response), Close con], ws))))))))"

definition ns_handle_connection_request ::
  "machine \<Rightarrow> 's recv_fun \<Rightarrow> ns_http_server \<Rightarrow> int \<Rightarrow> ns_ws_state \<Rightarrow> 's \<Rightarrow>
     (net_effect list \<times> ns_ws_state \<times> 's) result" where
  "ns_handle_connection_request mc rcv srv con ws s =
     (case rcv ns_default_max_buffer s of (bytes_read, buffer, s') \<Rightarrow>
        if bytes_read > 0 then
          (if length buffer = ns_default_max_buffer \<and> 0 \<notin> set buffer then Inl Undefined_Behaviour
           else rbind (ns_process mc srv con (c_str (string_of buffer)) ws) (\<lambda>(effs, ws). Inr (effs, ws, s')))
        else Inr ([Close con], ws, s'))"

definition ns_work ::
  "machine \<Rightarrow> (int \<Rightarrow> 's recv_fun) \<Rightarrow> ns_http_server \<Rightarrow> int \<Rightarrow> ns_ws_state \<times> 's \<Rightarrow>
     (net_effect list \<times> ns_ws_state \<times> 's) result" where
  "ns_work mc rcv srv fd w = ns_handle_connection_request mc (rcv fd) srv fd (fst w) (snd w)"

section \<open>Lemmas\<close>

lemma ns_regex_route_eq: "ns_regex_route rx uri m = regex_route rx uri m"
  by (induction rx uri m rule: regex_route.induct) (simp_all split: option.split)

lemma ns_pattern_route_eq: "ns_pattern_route us m = pattern_route us m"
  by (induction us m rule: pattern_route.induct) (simp_all add: ns_same Let_def split: sum.split)

lemma ns_query_eq: "ns_query_endpoint_from_map rx uri m = query_endpoint_from_map rx m uri"
  by (simp only: ns_query_endpoint_from_map_def query_endpoint_from_map_def ns_regex_route_eq
      ns_pattern_route_eq ns_string_eq)

lemma ns_find_key_eq: "ns_find_websocket_key hs = find_websocket_key hs"
  by (induction hs rule: find_websocket_key.induct) (simp_all add: ns_string_eq)

lemma create_new_fields:
  assumes "create_new_ws_connection e mem hs con ws = Inr (r, ws')" and "is_websocket_request hs"
  shows "map pfd (ws_poll_fds ws') = map pfd (ws_poll_fds ws) @ [con] \<and> event_fd ws' = event_fd ws"
  using assms
  by (auto simp: create_new_ws_connection_def is_websocket_request_def Let_def rbind_Inr_iff
      add_socket_to_the_list_def websocket_connection_new_def)

text \<open>The two outcomes of a call: the connection is closed, or it becomes a WebSocket.\<close>

definition ns_closed :: "int \<Rightarrow> net_effect list \<Rightarrow> ns_ws_state \<Rightarrow> ns_ws_state \<Rightarrow> bool" where
  "ns_closed con effs ws ws' \<longleftrightarrow> ws' = ws \<and> (effs = [Close con] \<or> (\<exists>b. effs = [Send con b, Close con]))"

definition ns_upgraded :: "int \<Rightarrow> net_effect list \<Rightarrow> ns_ws_state \<Rightarrow> ns_ws_state \<Rightarrow> bool" where
  "ns_upgraded con effs ws ws' \<longleftrightarrow>
     (\<exists>b. effs = [Send con b]) \<and> map pfd (ws_poll_fds ws') = map pfd (ws_poll_fds ws) @ [con]
     \<and> event_fd ws' = event_fd ws"

lemma ns_process_cases:
  assumes "ns_process mc srv con str_request ws = Inr (effs, ws')"
  shows "ns_closed con effs ws ws' \<or> ns_upgraded con effs ws ws'"
proof -
  from assms obtain hs
    where d: "(\<exists>request. req_headers request = hs \<and> is_websocket_request hs
           \<and> handle_websocket_handshake mc request con ws = Inr (effs, ws'))
      \<or> (\<exists>response. effs = [Send con (bytes_of response), Close con] \<and> ws' = ws)"
    unfolding ns_process_def Let_def rbind_Inr_iff
    by (force split: if_splits simp: rbind_Inr_iff)
  from d show ?thesis
  proof (elim disjE exE conjE)
    fix request
    assume "req_headers request = hs" and ws: "is_websocket_request hs"
      and "handle_websocket_handshake mc request con ws = Inr (effs, ws')"
    then obtain r where "create_new_ws_connection (byte_order mc) (hash_memory mc) hs con ws = Inr (r, ws')"
        and "effs = [Send con (bytes_of r)]"
      by (auto simp: handle_websocket_handshake_def rbind_Inr_iff)
    with create_new_fields [OF this(1) ws] show ?thesis by (simp add: ns_upgraded_def)
  qed (simp add: ns_closed_def)
qed

lemma ns_handle_cases:
  assumes "ns_handle_connection_request mc rcv srv con ws s = Inr (effs, ws', s')"
  shows "ns_closed con effs ws ws' \<or> ns_upgraded con effs ws ws'"
proof -
  from assms consider "effs = [Close con]" "ws' = ws"
    | (processed) str_request where "ns_process mc srv con str_request ws = Inr (effs, ws')"
    by (auto simp: ns_handle_connection_request_def rbind_Inr_iff split: if_splits prod.splits)
  then show ?thesis
  proof cases
    case processed
    then show ?thesis by (rule ns_process_cases)
  qed (simp add: ns_closed_def)
qed

lemma ns_work_cases:
  assumes "ns_work mc rcv srv fd w = Inr (effs, w')"
  shows "(Close fd \<in> set effs \<or> fd \<in> pfd ` set (ws_poll_fds (fst w')))
    \<and> pfd ` set (ws_poll_fds (fst w)) \<subseteq> pfd ` set (ws_poll_fds (fst w'))
    \<and> (\<forall>e \<in> set effs. effect_fd e = fd) \<and> event_fd (fst w') = event_fd (fst w)"
proof -
  have "ns_handle_connection_request mc (rcv fd) srv fd (fst w) (snd w) = Inr (effs, fst w', snd w')"
    using assms by (simp add: ns_work_def)
  from ns_handle_cases [OF this] show ?thesis
  proof
    assume "ns_closed fd effs (fst w) (fst w')"
    then show ?thesis by (auto simp: ns_closed_def effect_fd_def)
  next
    assume u: "ns_upgraded fd effs (fst w) (fst w')"
    then have "set (map pfd (ws_poll_fds (fst w'))) = set (map pfd (ws_poll_fds (fst w)) @ [fd])"
      by (simp only: ns_upgraded_def)
    then show ?thesis using u by (auto simp: ns_upgraded_def effect_fd_def)
  qed
qed

interpretation ns_http: connection_handler "ns_work mc rcv srv" "\<lambda>w. event_fd (fst w)" for mc rcv srv
  by unfold_locales (use ns_work_cases in blast)+

lemma ns_reach_settled:
  assumes "default_reach (ns_work mc rcv srv) w0 s"
  shows "\<forall>fd \<in> set (accepted s). fd \<in> set (pending s) \<or> Close fd \<in> set (effects s)
    \<or> fd \<in> pfd ` set (ws_poll_fds (fst (world s)))"
  using assms
proof (induction rule: default_reach.induct)
  case (step s s')
  from step(2) show ?case
  proof (cases rule: default_stepE)
    case (accept fd)
    with step.IH show ?thesis by auto
  next
    case (thread fd effs w')
    from ns_work_cases [OF thread(3)]
    have own: "Close fd \<in> set effs \<or> fd \<in> pfd ` set (ws_poll_fds (fst w'))"
      and mono: "pfd ` set (ws_poll_fds (fst (world s))) \<subseteq> pfd ` set (ws_poll_fds (fst w'))" by simp_all
    have "\<And>g. g \<in> set (pending s) \<Longrightarrow> g \<in> set (remove1 fd (pending s)) \<or> g = fd" by auto
    moreover have "pending s' = remove1 fd (pending s)" "accepted s' = accepted s"
      "effects s' = effects s @ effs" "world s' = w'" using thread(1) by simp_all
    ultimately have e: "set (effects s') = set (effects s) \<union> set effs" "set (accepted s') = set (accepted s)"
        "pending s' = remove1 fd (pending s)" "fst (world s') = fst w'"
      and split: "\<And>g. g \<in> set (pending s) \<Longrightarrow> g \<in> set (pending s') \<or> g = fd" by auto
    show ?thesis
    proof
      fix g
      assume "g \<in> set (accepted s')"
      then consider "g \<in> set (pending s') \<or> g = fd" | "Close g \<in> set (effects s)" | "g \<in> pfd ` set (ws_poll_fds (fst (world s)))"
        using step.IH e(2) split by blast
      then show "g \<in> set (pending s') \<or> Close g \<in> set (effects s') \<or> g \<in> pfd ` set (ws_poll_fds (fst (world s')))"
      proof cases
        case 1
        then show ?thesis using own unfolding e by blast
      next
        case 2
        then show ?thesis unfolding e by blast
      next
        case 3
        then show ?thesis using mono unfolding e by blast
      qed
    qed
  qed
qed simp

text \<open>A request text that arrives in one piece, taken apart.\<close>

definition ns_request_object ::
  "string \<Rightarrow> string \<Rightarrow> (string \<times> string) list \<Rightarrow> string umap \<Rightarrow> string \<Rightarrow> Request" where
  "ns_request_object verb target kvs params content =
     \<lparr>requestVerb = parseRequestVerb (request_text verb target kvs content), req_url = request_path target,
      req_headers = request_headers kvs, req_query_params = params, req_body = '' ''\<rparr>"

definition no_websocket_key :: "(string \<times> string) list \<Rightarrow> bool" where
  "no_websocket_key kvs \<longleftrightarrow> (\<forall>k \<in> fst ` set kvs. to_lower_case k \<noteq> ''sec-websocket-key'')"

lemma no_key_request:
  assumes "no_websocket_key kvs"
  shows "\<not> is_websocket_request (request_headers kvs)"
proof -
  have "\<forall>k \<in> fst ` set (request_headers kvs). to_lower_case k \<noteq> ''sec-websocket-key''"
  proof
    fix k
    assume "k \<in> fst ` set (request_headers kvs)"
    then obtain v where "(k, v) \<in> set (request_headers kvs)" by force
    then have "map_of (rev kvs) k = Some v"
      using umap.mem_items_iff [of "request_headers kvs"] by (simp add: umap_find_request_headers)
    then have "k \<in> fst ` set kvs" using map_of_SomeD [of "rev kvs"] by force
    then show "to_lower_case k \<noteq> ''sec-websocket-key''" using assms unfolding no_websocket_key_def by blast
  qed
  then have "find_websocket_key (request_headers kvs) = []" by (rule find_websocket_key_none)
  then show ?thesis by (simp add: is_websocket_request_def ns_find_key_eq)
qed

lemma ns_received:
  assumes "plain_request verb target kvs content"
  shows "ns_handle_connection_request mc recv srv con ws (Rx_Data (bytes_of (request_text verb target kvs content)) # es)
    = rbind (ns_process mc srv con (request_text verb target kvs content) ws) (\<lambda>(effs, ws). Inr (effs, ws, es))"
proof -
  let ?t = "request_text verb target kvs content"
  have "?t \<noteq> []" "length ?t < 2048" "NUL \<notin> set ?t"
    using assms by (simp_all add: plain_request_def default_max_buffer_def) (simp add: request_text_def)
  then show ?thesis by (simp add: ns_handle_connection_request_def ns_default_max_buffer_def)
qed

lemma ns_process_plain:
  assumes "plain_request verb target kvs content" and "parse_url_params target = Inr params"
    and "no_websocket_key kvs"
    and "ns_query_endpoint_from_map (regex mc) (request_path target) (ns_routes_map srv) = Inr it"
  shows "ns_process mc srv con (request_text verb target kvs content) ws
    = rbind (if fst it = INVALID_HTTP_URI
             then Inr (echo_response (echo_page verb (request_path target) target (request_headers kvs) params))
             else case snd it of
                    None \<Rightarrow> Inl Bad_Function_Call
                  | Some cb \<Rightarrow> rbind (cb (ns_request_object verb target kvs params content)) (\<lambda>res. Inr (buildResponse res)))
        (\<lambda>response. Inr ([Send con (bytes_of response), Close con], ws))"
  using plain_parts [OF assms(1)] no_key_request [OF assms(3)] assms(2,4)
  unfolding ns_request_object_def ns_verb_eq
  by (simp add: ns_process_def ns_verb_eq ns_extract_url_eq ns_parse_eq Let_def ns_extract_body_def)

lemma ns_served:
  assumes "plain_request verb target kvs content" and "parse_url_params target = Inr params"
    and "no_websocket_key kvs"
    and "umap_ok (ns_routes_map srv)" and "umap_find (ns_routes_map srv) (request_path target) = Some cb"
    and "request_path target \<noteq> INVALID_HTTP_URI"
    and "cb (ns_request_object verb target kvs params content) = Inr res"
  shows "ns_handle_connection_request mc recv srv con ws
           (Rx_Data (bytes_of (request_text verb target kvs content)) # es)
    = Inr ([Send con (bytes_of (buildResponse res)), Close con], ws, es)"
proof -
  have "ns_query_endpoint_from_map (regex mc) (request_path target) (ns_routes_map srv) = Inr (request_path target, Some cb)"
    using assms(4,5) by (simp add: ns_query_eq query_eq)
  from ns_process_plain [OF assms(1-3) this] assms(6,7) show ?thesis by (simp add: ns_received [OF assms(1)])
qed

section \<open>Properties\<close>

text \<open>
  C23: The life of the older server's socket: \<open>create_socket\<close> ends in one of four states, in Running
  exactly when socket, bind and listen succeed. A server that runs accepts for ever, starts a thread
  for every connection that \<open>accept\<close> delivers and closes nothing; after a failed setup, \<open>start\<close>
  accepts nothing and closes the socket once, so that setup and start together close what they opened.
\<close>

theorem create_then_start:
  "case create_socket os fd of (fd', calls) \<Rightarrow> case start_server answers fd' of (calls', threads) \<Rightarrow>
     current_status fd' \<in> {Running, ErrorOrException, BindingSocket, Listening}
   \<and> (current_status fd' = Running \<longleftrightarrow> socket_result os \<ge> 0 \<and> bind_result os \<noteq> -1 \<and> listen_result os \<noteq> -1)
   \<and> (if current_status fd' = Running
      then calls = [Sys_Socket, Sys_Setsockopt (connection fd') SO_REUSEADDR,
                    Sys_Bind (connection fd') (socket_port fd), Sys_Listen (connection fd') (Backlog 1000)]
         \<and> threads = filter (\<lambda>c. c \<noteq> -1) answers \<and> closed (calls @ calls') = []
      else threads = [] \<and> closed (calls @ calls') = [connection fd'])
   \<and> opened os calls = (if socket_result os \<ge> 0 then [connection fd'] else [])"
proof -
  have loop: "start_loop answers g = (if current_status g = Running
      then (map (\<lambda>_. Sys_Accept (connection g)) answers, filter (\<lambda>c. c \<noteq> -1) answers) else ([], []))" for g
    by (induction answers) (simp_all add: INVALID_SOCKET_def)
  have none: "closed (cs @ map (\<lambda>_. Sys_Accept n) answers) = closed cs" for cs n
    by (induction cs; induction answers) (simp_all split: sys_call.split net_effect.split)
  show ?thesis
    by (simp add: create_socket_def create_socket_fd_def start_server_def loop SOCKET_ERROR_def
        MAX_CONNECTIONS_def none Let_def)
qed

text \<open>
  C19: A well-formed request for a registered path is answered by the handler of that path: it gets
  the request that the client wrote, the text of its response is sent, and the connection is closed.
\<close>

theorem ns_request_served:
  assumes "plain_request verb target kvs content" and "parse_url_params target = Inr params"
    and "no_websocket_key kvs"
    and "umap_ok (ns_routes_map srv)" and "umap_find (ns_routes_map srv) (request_path target) = Some cb"
    and "request_path target \<noteq> INVALID_HTTP_URI"
    and "cb (ns_request_object verb target kvs params content) = Inr res"
  shows "ns_handle_connection_request mc recv srv con ws
           (Rx_Data (bytes_of (request_text verb target kvs content)) # es)
    = Inr ([Send con (bytes_of (buildResponse res)), Close con], ws, es)"
  by (rule ns_served [OF assms])

definition idle_socket :: socket_connection where
  "idle_socket = \<lparr>connection = 0, current_status = NoStartedYet, socket_port = 0\<rparr>"

definition hello_server :: ns_http_server where
  "hello_server = ns_add_route_handler ''/hello'' (\<lambda>req. Inr ((Response_new OK)\<lparr>rs_body := req_url req\<rparr>))
     (http_server_new idle_socket 9000 ''hello'')"

theorem ns_request_served_witness:
  "ns_handle_connection_request hello_machine recv hello_server 4 (websocket_connection_manager_new 3)
      [Rx_Data (bytes_of (request_text ''GET'' ''/hello'' [(''Host'', ''h'')] []))]
    = Inr ([Send 4 (bytes_of (buildResponse ((Response_new OK)\<lparr>rs_body := ''/hello''\<rparr>))), Close 4],
        websocket_connection_manager_new 3, [])"
proof -
  have "to_lower_case ''Host'' \<noteq> ''sec-websocket-key''" by code_simp
  then show ?thesis
    using ns_request_served [of "''GET''" "''/hello''" "[(''Host'', ''h'')]" "[]" "[]" hello_server
        "\<lambda>req. Inr ((Response_new OK)\<lparr>rs_body := req_url req\<rparr>)"
        "(Response_new OK)\<lparr>rs_body := ''/hello''\<rparr>" hello_machine 4 "websocket_connection_manager_new 3" "[]"]
    by (simp add: plain_simps parse_url_params_def hello_server_def ns_add_route_handler_def http_server_new_def
        request_path_def INVALID_HTTP_URI_def ns_request_object_def no_websocket_key_def)
qed

lemma echo_page_long: "2 \<le> length (echo_page v u d hs ps)"
  by (simp add: echo_page_def)

lemma echo_response_read:
  assumes "2 \<le> length page"
  shows "client_read (echo_response page)
    = Some (''HTTP/1.1 200 OK'',
        [(''Content-Length'', nat_to_string (length page)), (''Content-Type'', ''text/plain'')],
        CRLF @ take (length page - 2) page)"
proof -
  let ?fs = "[(''Content-Length'', nat_to_string (length page)), (''Content-Type'', ''text/plain'')]"
  have "echo_response page = lines_text (''HTTP/1.1 200 OK'' # map header_line ?fs) @ CRLF @ (CRLF @ page)"
    by (simp add: echo_response_def lines_text_def header_line_def)
  moreover have "\<forall>(k, v) \<in> set ?fs. clean k \<and> clean v \<and> plain_name k"
    using digit_string_clean [of "length page"] by (simp add: clean_def plain_name_def)
  moreover have "take (length page) (CRLF @ page) = CRLF @ take (length page - 2) page"
    using assms by (auto simp: take_Cons' numeral_2_eq_2)
  ultimately show ?thesis
    using client_read_lines [of "''HTTP/1.1 200 OK''" ?fs "CRLF @ page"] by (simp add: clean_def)
qed

text \<open>
  A well-formed request for a path without a route is answered with a page that names the parts
  of the request, and the connection is closed; the client sees the page cut: two bytes more than
  announced follow the head, so that what it reads is a line break and the page without its last
  two bytes.
\<close>

theorem echo_page_cut:
  assumes "plain_request verb target kvs content" and "parse_url_params target = Inr params"
    and "no_websocket_key kvs"
    and "ns_query_endpoint_from_map (regex mc) (request_path target) (ns_routes_map srv) = Inr (INVALID_HTTP_URI, None)"
    and "page = echo_page verb (request_path target) target (request_headers kvs) params"
  shows "ns_handle_connection_request mc recv srv con ws
           (Rx_Data (bytes_of (request_text verb target kvs content)) # es)
         = Inr ([Send con (bytes_of (echo_response page)), Close con], ws, es)
    \<and> client_read (echo_response page)
         = Some (''HTTP/1.1 200 OK'',
             [(''Content-Length'', nat_to_string (length page)), (''Content-Type'', ''text/plain'')],
             CRLF @ take (length page - 2) page)"
  using ns_process_plain [OF assms(1-4)] echo_response_read [of page] echo_page_long
  by (simp add: ns_received [OF assms(1)] assms(5))

theorem echo_page_cut_witness:
  "client_read (echo_response (echo_page ''GET'' ''/x'' ''/x'' [] []))
     = Some (''HTTP/1.1 200 OK'', [(''Content-Length'', nat_to_string 53), (''Content-Type'', ''text/plain'')],
         CRLF @ ''HTTP VERB: GET'' @ LF # ''URL: /x'' @ LF # ''Dynamic Url: /x'' @ LF # ''HTTP Headers'')"
proof -
  let ?srv = "http_server_new idle_socket 9000 ''hello''"
  have "ns_query_endpoint_from_map (regex hello_machine) (request_path ''/x'') (ns_routes_map ?srv) = Inr (INVALID_HTTP_URI, None)"
    by (simp add: request_path_def http_server_new_def ns_query_eq query_endpoint_from_map_def umap_find_def)
  moreover have "plain_request ''GET'' ''/x'' [] []" and "parse_url_params ''/x'' = Inr []"
    by (simp_all add: plain_simps parse_url_params_def)
  moreover have "request_path ''/x'' = ''/x''" "request_headers [] = []"
    by (simp add: request_path_def, code_simp)
  ultimately show ?thesis
    using echo_page_cut [of "''GET''" "''/x''" "[]" "[]" "[]" hello_machine ?srv, OF _ _ _ _ refl]
    by (simp add: no_websocket_key_def echo_page_def)
qed

text \<open>
  C20: No connection of the older server is forgotten: in every state that the accept loop and the
  threads can reach, in any interleaving, a connection that was accepted waits for its thread, has
  been closed, or is in the table of the WebSocket server; and nothing was sent to or closed on a
  descriptor that was not accepted.
\<close>

theorem ns_connections_settled:
  assumes "default_reach (ns_work mc rcv srv) w0 s"
  shows "(\<forall>fd \<in> set (accepted s). fd \<in> set (pending s) \<or> Close fd \<in> set (effects s)
      \<or> fd \<in> pfd ` set (ws_poll_fds (fst (world s))))
    \<and> (\<forall>e \<in> set (effects s). effect_fd e \<in> set (accepted s))"
  using ns_reach_settled [OF assms] ns_http.reach_confined [OF assms] by (simp add: default_inv_def)

lemma silent_work:
  "ns_work mc (\<lambda>fd n u. (0, [], u)) srv fd w = Inr ([Close fd], w)"
  by (simp add: ns_work_def ns_handle_connection_request_def)

theorem ns_connections_settled_witness:
  "\<exists>s. default_reach (ns_work hello_machine (\<lambda>fd n u. (0, [], u)) hello_server) (websocket_connection_manager_new 3, ()) s
     \<and> accepted s = [4] \<and> Close 4 \<in> set (effects s) \<union> (if 4 \<in> set (pending s) then UNIV else {})"
proof -
  let ?work = "ns_work hello_machine (\<lambda>fd n u. (0, [], u)) hello_server"
  let ?w = "(websocket_connection_manager_new 3, ())"
  let ?s0 = "\<lparr>accepted = [], pending = [], effects = [], world = ?w\<rparr>"
  let ?s1 = "?s0\<lparr>accepted := [4], pending := [4]\<rparr>"
  let ?s2 = "?s1\<lparr>pending := [], effects := [Close 4]\<rparr>"
  have "default_step ?work ?s0 ?s1" using accept_step [of ?work ?s0 4] by simp
  moreover have "default_step ?work ?s1 ?s2"
    using thread_step [of 4 ?s1 ?work "[Close 4]" ?w] silent_work [of hello_machine hello_server 4 ?w] by simp
  ultimately have reach: "default_reach ?work ?w ?s2" by (meson default_reach.start default_reach.step)
  from ns_connections_settled [OF this] reach show ?thesis
    by (intro exI [of _ ?s2]) (auto simp: websocket_connection_manager_new_def)
qed

text \<open>
  C33: The HTTP layers of the two generations agree as functions: parsing of requests, splitting and
  matching of paths, the search for a route and the text of a response.
\<close>

theorem http_generations_agree:
  "ns_extract_http_verb r = extract_http_verb r \<and> parseRequestVerb r = parse_http_request_verb r
    \<and> ns_extract_url_with_query_params r = extract_url_with_query_params r \<and> ns_extract_url r = extract_url r
    \<and> ns_parse_headers r = parse_headers r \<and> ns_parse_url_params r = parse_url_params r
    \<and> ns_replace_all r a b = replace_all r a b \<and> ns_split_words r c = split_words r c
    \<and> ns_query_endpoint_from_map rx r m = query_endpoint_from_map rx m r
    \<and> ns_build_http_response hs r code = build_http_response hs r code"
  by (simp only: ns_verb_eq ns_same ns_query_eq ns_build_http_response_eq simp_thms)

end
