(* ===== verification/Ecma_Regex.thy ===== *)
theory Ecma_Regex
  imports Routing
begin

text \<open>
  The part of the ECMAScript syntax of \<open>std::regex\<close> that the program's own route patterns use:
  ordinary characters, the dot, a star after one of these, and the two anchors. A pattern outside of
  it has no parse here. \<open>ecma_subset rx\<close> says that the matcher \<open>rx\<close> of the standard library treats
  these patterns as documented; nothing is assumed about others.
\<close>

section \<open>Syntax\<close>

datatype re_atom = Re_Char char | Re_Dot
datatype re_item = Once re_atom | Many re_atom | At_Start | At_End

definition re_special :: string where
  "re_special = [CHR 0x5C] @ ''*+?()[]{}|''"

fun re_parse :: "string \<Rightarrow> re_item list option" where
  "re_parse [] = Some []"
| "re_parse (c # cs) =
     (if c = CHR ''^'' then map_option (Cons At_Start) (re_parse cs)
      else if c = CHR ''$'' then map_option (Cons At_End) (re_parse cs)
      else if c \<in> set re_special then None
      else let a = (if c = CHR ''.'' then Re_Dot else Re_Char c) in
        case cs of
          [] \<Rightarrow> Some [Once a]
        | d # ds \<Rightarrow> if d = CHR ''*'' then map_option (Cons (Many a)) (re_parse ds)
                    else map_option (Cons (Once a)) (re_parse cs))"

section \<open>Matching\<close>

text \<open>The dot stands for any character but the line terminators.\<close>

fun atom_ok :: "re_atom \<Rightarrow> char \<Rightarrow> bool" where
  "atom_ok (Re_Char d) c \<longleftrightarrow> c = d"
| "atom_ok Re_Dot c \<longleftrightarrow> c \<noteq> LF \<and> c \<noteq> CR"

text \<open>Whether the items match all of the text; the flag says that the text starts here.\<close>

fun re_match :: "bool \<Rightarrow> re_item list \<Rightarrow> string \<Rightarrow> bool" where
  "re_match st [] s \<longleftrightarrow> s = []"
| "re_match st (At_Start # items) s \<longleftrightarrow> st \<and> re_match st items s"
| "re_match st (At_End # items) s \<longleftrightarrow> s = [] \<and> re_match st items s"
| "re_match st (Once a # items) [] \<longleftrightarrow> False"
| "re_match st (Once a # items) (c # cs) \<longleftrightarrow> atom_ok a c \<and> re_match False items cs"
| "re_match st (Many a # items) [] \<longleftrightarrow> re_match st items []"
| "re_match st (Many a # items) (c # cs) \<longleftrightarrow>
     re_match st items (c # cs) \<or> (atom_ok a c \<and> re_match False (Many a # items) cs)"

definition ecma_subset :: "regex_match \<Rightarrow> bool" where
  "ecma_subset rx \<longleftrightarrow> (\<forall>p items s. re_parse p = Some items \<longrightarrow> rx p s = Some (re_match True items s))"

text \<open>A matcher that knows no other patterns.\<close>

definition subset_match :: regex_match where
  "subset_match p s = map_option (\<lambda>items. re_match True items s) (re_parse p)"

lemma ecma_subset_match: "ecma_subset subset_match"
  by (simp add: ecma_subset_def subset_match_def)

lemma ecma_subsetD: "ecma_subset rx \<Longrightarrow> re_parse p = Some items \<Longrightarrow> rx p s = Some (re_match True items s)"
  by (simp add: ecma_subset_def)

section \<open>Lemmas\<close>

lemma re_match_chars:
  "re_match st (map (Once \<circ> Re_Char) w) s \<longleftrightarrow> s = w"
proof (induction w arbitrary: st s)
  case (Cons c w)
  then show ?case by (cases s) auto
qed simp

lemma re_match_chars_end:
  "re_match st (map (Once \<circ> Re_Char) w @ [At_End]) s \<longleftrightarrow> s = w"
proof (induction w arbitrary: st s)
  case (Cons c w)
  then show ?case by (cases s) auto
qed simp

lemma re_match_many:
  "re_match st (Many a # items) s \<longleftrightarrow>
     (\<exists>u v. s = u @ v \<and> list_all (atom_ok a) u \<and> re_match (st \<and> u = []) items v)"
proof (induction s arbitrary: st)
  case (Cons c cs)
  show ?case
  proof
    assume "re_match st (Many a # items) (c # cs)"
    then consider "re_match st items (c # cs)" | "atom_ok a c" "re_match False (Many a # items) cs" by auto
    then show "\<exists>u v. c # cs = u @ v \<and> list_all (atom_ok a) u \<and> re_match (st \<and> u = []) items v"
    proof cases
      case 1
      then show ?thesis by (intro exI [of _ "[]"] exI [of _ "c # cs"]) simp
    next
      case 2
      then obtain u v where "cs = u @ v" "list_all (atom_ok a) u" "re_match (False \<and> u = []) items v"
        using Cons.IH by blast
      with 2(1) show ?thesis by (intro exI [of _ "c # u"] exI [of _ v]) simp
    qed
  next
    assume "\<exists>u v. c # cs = u @ v \<and> list_all (atom_ok a) u \<and> re_match (st \<and> u = []) items v"
    then obtain u v where uv: "c # cs = u @ v" "list_all (atom_ok a) u" "re_match (st \<and> u = []) items v" by blast
    show "re_match st (Many a # items) (c # cs)"
    proof (cases u)
      case Nil
      with uv have "re_match st items (c # cs)" by simp
      then show ?thesis by simp
    next
      case u: (Cons c' u')
      with uv have "cs = u' @ v" "list_all (atom_ok a) u'" "re_match (False \<and> u' = []) items v" "atom_ok a c"
        by simp_all
      then have "re_match False (Many a # items) cs" using Cons.IH by blast
      with \<open>atom_ok a c\<close> show ?thesis by simp
    qed
  qed
qed simp

lemma parse_plain:
  "\<forall>c \<in> set w. c \<notin> set re_special \<and> c \<notin> {CHR ''^'', CHR ''$'', CHR ''.''} \<Longrightarrow>
     re_parse w = Some (map (Once \<circ> Re_Char) w)"
proof (induction w)
  case (Cons c w)
  then have "re_parse w = Some (map (Once \<circ> Re_Char) w)" by simp
  moreover have "c \<noteq> CHR ''*''" if "c \<notin> set re_special" for c using that by (auto simp: re_special_def)
  ultimately show ?case using Cons.prems by (cases w) auto
qed simp

end
