(* ===== verification/Programs.thy ===== *)
theory Programs
  imports Ns_Server Ecma_Regex
begin

text \<open>
  The two programs of the repository: src/main.cpp, which starts the server of the namespace
  \<open>simple_server\<close> with its routes, and sample/main.cpp, which serves files with the newer library.
  \<open>fs\<close> is the file system, \<open>cwd\<close> the result of \<open>get_current_dir_name\<close>, \<open>cts\<close> the table of content
  types in the iteration order of the process, \<open>arr\<close> that of the header tables, \<open>junk\<close> what an uninitialised status code holds. In the
  route patterns of src/main.cpp the escapes of a slash and of a dot are no C++ escape sequences and
  stand for the characters, so that their dots match any character.
\<close>

section \<open>src/main.cpp\<close>

text \<open>
  \<open>arr\<close> is the order in which the process iterates the header table of a response, which
  \<open>std::unordered_map\<close> leaves open: some arrangement of the fields.
\<close>

type_synonym header_order = "string umap \<Rightarrow> string umap"

definition home_first :: "http_response_code \<Rightarrow> ns_endpointcb" where
  "home_first junk request = Inr ((Response_new junk)\<lparr>rs_status_code := SwitchingProtocols\<rparr>)"

definition home_handler :: "header_order \<Rightarrow> http_response_code \<Rightarrow> ns_endpointcb" where
  "home_handler arr junk request =
     (let response = (Response_new junk)\<lparr>rs_body := ''HOLA 1''\<rparr>;
          response = response\<lparr>rs_headers := umap_set ''Content-type'' ''text/plain'' (rs_headers response)\<rparr>;
          response = response\<lparr>rs_headers := umap_set ''Content-Length'' ''4'' (rs_headers response)\<rparr>
      in Inr (response\<lparr>rs_status_code := OK, rs_headers := arr (rs_headers response)\<rparr>))"

definition file_handler ::
  "header_order \<Rightarrow> file_system \<Rightarrow> string option \<Rightarrow> (content_type \<times> string) list \<Rightarrow> content_type \<Rightarrow> string \<Rightarrow>
     http_response_code \<Rightarrow> ns_endpointcb" where
  "file_handler arr fs cwd cts type file_name junk req =
     (case cwd of
        None \<Rightarrow> Inl Undefined_Behaviour
      | Some d \<Rightarrow>
          let response = (Response_new junk)\<lparr>rs_body := ns_read_whole_file fs (c_str d @ ''/'' @ file_name)\<rparr>;
              response = response\<lparr>rs_headers :=
                umap_set ''Content-type'' (http_content_type_to_string cts type) (rs_headers response)\<rparr>;
              response = response\<lparr>rs_headers :=
                umap_set ''Content-Length'' (nat_to_string (length (rs_body response))) (rs_headers response)\<rparr>
          in Inr (response\<lparr>rs_status_code := OK, rs_headers := arr (rs_headers response)\<rparr>))"

definition html_handler :: "header_order \<Rightarrow> file_system \<Rightarrow> string option \<Rightarrow> (content_type \<times> string) list \<Rightarrow> http_response_code \<Rightarrow> ns_endpointcb" where
  "html_handler arr fs cwd cts junk = file_handler arr fs cwd cts text_html_ct ''index.html'' junk"

definition css_handler :: "header_order \<Rightarrow> file_system \<Rightarrow> string option \<Rightarrow> (content_type \<times> string) list \<Rightarrow> http_response_code \<Rightarrow> ns_endpointcb" where
  "css_handler arr fs cwd cts junk = file_handler arr fs cwd cts text_css_ct ''style.css'' junk"

definition echo_url_handler :: "header_order \<Rightarrow> http_response_code \<Rightarrow> ns_endpointcb" where
  "echo_url_handler arr junk req =
     (let response = (Response_new junk)\<lparr>rs_body := ''HOLA XPP'' @ req_url req\<rparr>;
          response = response\<lparr>rs_headers := umap_set ''Content-type'' ''text/plain'' (rs_headers response)\<rparr>;
          response = response\<lparr>rs_headers :=
            umap_set ''Content-Length'' (nat_to_string (length (rs_body response))) (rs_headers response)\<rparr>
      in Inr (response\<lparr>rs_status_code := OK, rs_headers := arr (rs_headers response)\<rparr>))"

definition main_server ::
  "header_order \<Rightarrow> file_system \<Rightarrow> string option \<Rightarrow> (content_type \<times> string) list \<Rightarrow> http_response_code \<Rightarrow> setup_os \<Rightarrow>
     socket_connection \<Rightarrow> ns_http_server \<times> sys_call list" where
  "main_server arr fs cwd cts junk os memory =
     (let httpserver = http_server_new memory 9000 ''HOLA'' in
      case create_socket os (server_socket httpserver) of (fd, calls) \<Rightarrow>
        let httpserver = httpserver\<lparr>server_socket := fd\<rparr>;
            httpserver = ns_add_route_handler ''/'' (home_first junk) httpserver;
            httpserver = ns_add_route_handler ''/'' (home_handler arr junk) httpserver;
            httpserver = ns_add_route_handler ''^/.*.html$'' (html_handler arr fs cwd cts junk) httpserver;
            httpserver = ns_add_route_handler ''^/.*.css$'' (css_handler arr fs cwd cts junk) httpserver;
            httpserver = ns_add_route_handler ''^/.*.xpp$'' (echo_url_handler arr junk) httpserver;
            httpserver = ns_add_route_handler ''/<int>/hola'' (echo_url_handler arr junk) httpserver
        in (httpserver, calls))"

section \<open>sample/main.cpp\<close>

definition assets_root :: string where
  "assets_root = ''/home/neon/Documents/projects/simple_server/sample/assets''"

definition asset_handler :: "file_system \<Rightarrow> directories \<Rightarrow> http_response_code \<Rightarrow> endpointcb" where
  "asset_handler fs dirs junk req =
     (let response = set_home_path (assets_root @ ''/'') (http_response_new junk) in
      if contains (url req) ''.html''
      then render_text_file fs dirs (assets_root @ url req) (set_content_type text_html response)
      else if contains (url req) ''.css''
      then render_text_file fs dirs (assets_root @ url req) (set_content_type text_css response)
      else if contains (url req) ''.js''
      then render_text_file fs dirs (assets_root @ url req) (set_content_type application_javascript response)
      else Inr (set_body default_500_msg response))"

definition index_handler :: "file_system \<Rightarrow> directories \<Rightarrow> http_response_code \<Rightarrow> endpointcb" where
  "index_handler fs dirs junk req =
     render_text_file fs dirs (assets_root @ ''/index.html'') (http_response_new junk)"

definition assest_sample_routes :: "file_system \<Rightarrow> directories \<Rightarrow> http_response_code \<Rightarrow> endpointcb routes" where
  "assest_sample_routes fs dirs junk =
     add_route_handler ''/'' (index_handler fs dirs junk)
       (add_route_handler ''/.*'' (asset_handler fs dirs junk) [])"

section \<open>Lemmas\<close>

definition main_keys :: "string list" where
  "main_keys = [''/'', ''^/.*.html$'', ''^/.*.css$'', ''^/.*.xpp$'', ''/<int>/hola'']"

lemma main_routes:
  "ns_routes_map (fst (main_server arr fs cwd cts junk os memory))
    = [(''/'', home_handler arr junk), (''^/.*.html$'', html_handler arr fs cwd cts junk),
       (''^/.*.css$'', css_handler arr fs cwd cts junk), (''^/.*.xpp$'', echo_url_handler arr junk),
       (''/<int>/hola'', echo_url_handler arr junk)]"
  by (simp add: main_server_def http_server_new_def ns_add_route_handler_def umap_set_def Let_def
      split: prod.split)

definition page_items :: "string \<Rightarrow> re_item list" where
  "page_items ext = At_Start # Once (Re_Char CHR ''/'') # Many Re_Dot # Once Re_Dot # map (Once \<circ> Re_Char) ext @ [At_End]"

lemma page_parse:
  "re_parse ''^/.*.html$'' = Some (page_items ''html'')"
  "re_parse ''^/.*.css$'' = Some (page_items ''css'')"
  "re_parse ''^/.*.xpp$'' = Some (page_items ''xpp'')"
  by (simp_all add: page_items_def re_special_def)

text \<open>A path of at least one character after the slash, all on one line, and the extension.\<close>

definition page_path :: "string \<Rightarrow> string \<Rightarrow> bool" where
  "page_path ext s \<longleftrightarrow> (\<exists>a c. s = CHR ''/'' # a @ c # ext \<and> list_all (atom_ok Re_Dot) (a @ [c]))"

lemma page_match: "re_match True (page_items ext) s \<longleftrightarrow> page_path ext s"
proof -
  have tail: "re_match b (Once Re_Dot # map (Once \<circ> Re_Char) ext @ [At_End]) v
      \<longleftrightarrow> (\<exists>c. v = c # ext \<and> atom_ok Re_Dot c)" for b v
    by (cases v) (auto simp: re_match_chars_end)
  show ?thesis
  proof (cases s)
    case (Cons d cs)
    have "re_match True (page_items ext) s \<longleftrightarrow>
        d = CHR ''/'' \<and> re_match False (Many Re_Dot # Once Re_Dot # map (Once \<circ> Re_Char) ext @ [At_End]) cs"
      by (simp add: page_items_def Cons)
    also have "\<dots> \<longleftrightarrow> page_path ext s"
      unfolding re_match_many tail page_path_def Cons by auto
    finally show ?thesis .
  qed (simp add: page_items_def page_path_def)
qed

lemma plain_keys:
  "re_parse ''/'' = Some (map (Once \<circ> Re_Char) ''/'')"
  "re_parse ''/<int>/hola'' = Some (map (Once \<circ> Re_Char) ''/<int>/hola'')"
  by (simp_all add: re_special_def)

text \<open>Which keys of the program match a path as regular expressions.\<close>

lemma main_regex:
  assumes "ecma_subset rx"
  shows "rx ''^/.*.html$'' s = Some (page_path ''html'' s)" "rx ''^/.*.css$'' s = Some (page_path ''css'' s)"
    "rx ''^/.*.xpp$'' s = Some (page_path ''xpp'' s)" "rx ''/'' s = Some (s = ''/'')"
    "rx ''/<int>/hola'' s = Some (s = ''/<int>/hola'')"
  using page_parse [THEN ecma_subsetD [OF assms], of s] plain_keys [THEN ecma_subsetD [OF assms], of s]
    page_match [of _ s] re_match_chars [of True "''/''" s] re_match_chars [of True "''/<int>/hola''" s]
  by simp_all

lemma page_path_last: "page_path ext s \<Longrightarrow> suffix ext s"
  by (auto simp: page_path_def suffix_def)

lemma suffix_same: "suffix a s \<Longrightarrow> suffix b s \<Longrightarrow> length a = length b \<Longrightarrow> a = b"
  by (auto simp: suffix_def append_eq_append_conv)

lemma one_extension:
  "page_path ''html'' s \<Longrightarrow> \<not> page_path ''css'' s" "page_path ''html'' s \<Longrightarrow> \<not> page_path ''xpp'' s"
  "page_path ''css'' s \<Longrightarrow> \<not> page_path ''xpp'' s" "page_path ext s \<Longrightarrow> last ext \<noteq> CHR ''a'' \<Longrightarrow> ext \<noteq> [] \<Longrightarrow> s \<noteq> ''/<int>/hola''"
  "page_path ext s \<Longrightarrow> s \<noteq> ''/''"
proof -
  show "page_path ''html'' s \<Longrightarrow> \<not> page_path ''css'' s" "page_path ''html'' s \<Longrightarrow> \<not> page_path ''xpp'' s"
    using suffix_same [of "''l''" s "''s''"] suffix_same [of "''l''" s "''p''"]
    by (auto dest!: page_path_last simp: suffix_def)
  show "page_path ''css'' s \<Longrightarrow> \<not> page_path ''xpp'' s"
    by (auto simp: page_path_def)
  show "page_path ext s \<Longrightarrow> last ext \<noteq> CHR ''a'' \<Longrightarrow> ext \<noteq> [] \<Longrightarrow> s \<noteq> ''/<int>/hola''"
  proof -
    assume e: "page_path ext s" "last ext \<noteq> CHR ''a''" "ext \<noteq> []"
    then obtain u where "s = u @ ext" using page_path_last by (auto simp: suffix_def)
    with e have "last s \<noteq> CHR ''a''" by simp
    then show "s \<noteq> ''/<int>/hola''" by auto
  qed
  show "page_path ext s \<Longrightarrow> s \<noteq> ''/''" by (auto simp: page_path_def)
qed

text \<open>The table of the program, in any order: one key at most matches, and this one is found.\<close>

definition main_table ::
  "header_order \<Rightarrow> file_system \<Rightarrow> string option \<Rightarrow> (content_type \<times> string) list \<Rightarrow> http_response_code \<Rightarrow> ns_endpointcb routes \<Rightarrow> bool" where
  "main_table arr fs cwd cts junk m \<longleftrightarrow>
     mset m = mset [(''/'', home_handler arr junk), (''^/.*.html$'', html_handler arr fs cwd cts junk),
       (''^/.*.css$'', css_handler arr fs cwd cts junk), (''^/.*.xpp$'', echo_url_handler arr junk),
       (''/<int>/hola'', echo_url_handler arr junk)]"

lemma main_table_facts:
  assumes "main_table arr fs cwd cts junk m"
  shows "umap_ok m" and "set m = {(''/'', home_handler arr junk), (''^/.*.html$'', html_handler arr fs cwd cts junk),
       (''^/.*.css$'', css_handler arr fs cwd cts junk), (''^/.*.xpp$'', echo_url_handler arr junk),
       (''/<int>/hola'', echo_url_handler arr junk)}"
proof -
  let ?l = "[(''/'', home_handler arr junk), (''^/.*.html$'', html_handler arr fs cwd cts junk),
       (''^/.*.css$'', css_handler arr fs cwd cts junk), (''^/.*.xpp$'', echo_url_handler arr junk),
       (''/<int>/hola'', echo_url_handler arr junk)]"
  have m: "mset m = mset ?l" using assms by (simp only: main_table_def)
  have "umap_ok ?l" by (simp add: umap_ok_def)
  then show "umap_ok m" using m by (rule umap_perm_find(1))
  have "set m = set ?l" using m by (metis set_mset_mset)
  then show "set m = {(''/'', home_handler arr junk), (''^/.*.html$'', html_handler arr fs cwd cts junk),
       (''^/.*.css$'', css_handler arr fs cwd cts junk), (''^/.*.xpp$'', echo_url_handler arr junk),
       (''/<int>/hola'', echo_url_handler arr junk)}" by simp
qed

lemma main_regex_known:
  "ecma_subset rx \<Longrightarrow> main_table arr fs cwd cts junk m \<Longrightarrow> \<forall>(k, cb) \<in> set m. rx k s \<noteq> None"
  by (simp add: main_table_facts(2) main_regex)

lemma main_not_key:
  "main_table arr fs cwd cts junk m \<Longrightarrow> s \<notin> set main_keys \<Longrightarrow> umap_find m s = None"
  by (auto simp: umap_find_def map_of_eq_None_iff main_table_facts(2) main_keys_def)

lemma main_regex_found:
  assumes rx: "ecma_subset rx" and m: "main_table arr fs cwd cts junk m" and "s \<notin> set main_keys"
    and k: "(k, cb) \<in> set m" "rx k s = Some True"
    and one: "\<And>k'. k' \<in> fst ` set m \<Longrightarrow> rx k' s = Some True \<Longrightarrow> k' = k"
  shows "ns_query_endpoint_from_map rx s m = Inr (k, Some cb)"
proof -
  note ok = main_table_facts(1) [OF m]
  have "List.find (\<lambda>(k, cb). rx k s = Some True) m = Some (k, cb)"
    by (rule find_unique_key [where P = "\<lambda>k. rx k s = Some True", OF ok k one])
  moreover have "s \<noteq> ''/''" using assms(3) by (simp add: main_keys_def)
  ultimately show ?thesis
    using main_not_key [OF m assms(3)] regex_route_ok [of m rx s] main_regex_known [OF rx m]
    by (simp add: ns_query_eq query_eq [OF ok])
qed

lemma page_not_key:
  assumes "page_path ext s" and "last ext \<notin> {CHR ''a'', CHR ''$''}" and "ext \<noteq> []"
  shows "s \<notin> set main_keys"
proof -
  obtain u where "s = u @ ext" using page_path_last [OF assms(1)] by (auto simp: suffix_def)
  then have "last s \<notin> {CHR ''a'', CHR ''$''}" using assms(2,3) by simp
  moreover have "s \<noteq> ''/''" using one_extension(5) [OF assms(1)] .
  ultimately show ?thesis by (auto simp: main_keys_def)
qed

section \<open>Properties\<close>

text \<open>
  The routes of the program are reached: whatever the order in which the table is iterated, a
  one-line path with at least one character before the extension gets the handler of this extension,
  for html, css and xpp files.
\<close>

theorem main_pages_routed:
  assumes "ecma_subset rx" and "main_table arr fs cwd cts junk m"
  shows "(page_path ''html'' s \<longrightarrow>
            ns_query_endpoint_from_map rx s m = Inr (''^/.*.html$'', Some (html_handler arr fs cwd cts junk)))
    \<and> (page_path ''css'' s \<longrightarrow>
            ns_query_endpoint_from_map rx s m = Inr (''^/.*.css$'', Some (css_handler arr fs cwd cts junk)))
    \<and> (page_path ''xpp'' s \<longrightarrow>
            ns_query_endpoint_from_map rx s m = Inr (''^/.*.xpp$'', Some (echo_url_handler arr junk)))"
proof -
  note facts = main_regex [OF assms(1)] main_table_facts(2) [OF assms(2)]
  note found = main_regex_found [OF assms]
  have h: "s \<notin> set main_keys" "s \<noteq> ''/''" "s \<noteq> ''/<int>/hola''" if "page_path ext s" "ext \<in> {''html'', ''css'', ''xpp''}" for ext
    using page_not_key [OF that(1)] that(2) by (auto simp: main_keys_def)
  show ?thesis
  proof (intro conjI impI)
    assume p: "page_path ''html'' s"
    show "ns_query_endpoint_from_map rx s m = Inr (''^/.*.html$'', Some (html_handler arr fs cwd cts junk))"
      by (rule found) (use h [OF p] one_extension(1,2) [OF p] p in \<open>auto simp: facts\<close>)
  next
    assume p: "page_path ''css'' s"
    show "ns_query_endpoint_from_map rx s m = Inr (''^/.*.css$'', Some (css_handler arr fs cwd cts junk))"
      by (rule found) (use h [OF p] one_extension(1,3) p in \<open>auto simp: facts\<close>)
  next
    assume p: "page_path ''xpp'' s"
    show "ns_query_endpoint_from_map rx s m = Inr (''^/.*.xpp$'', Some (echo_url_handler arr junk))"
      by (rule found) (use h [OF p] one_extension(2,3) p in \<open>auto simp: facts\<close>)
  qed
qed

lemma main_table_self: "main_table arr fs cwd cts junk (ns_routes_map (fst (main_server arr fs cwd cts junk os memory)))"
  unfolding main_table_def main_routes by (rule refl)

theorem main_pages_routed_witness:
  "ns_query_endpoint_from_map subset_match ''/a/b.html''
      (ns_routes_map (fst (main_server rev (\<lambda>f. None) None [] OK
         \<lparr>socket_result = 3, bind_result = 0, listen_result = 0, epoll_create_result = 0, epoll_add_result = 0\<rparr> idle_socket)))
    = Inr (''^/.*.html$'', Some (html_handler rev (\<lambda>f. None) None [] OK))"
proof -
  have "page_path ''html'' ''/a/b.html''"
    unfolding page_path_def by (intro exI [of _ "''a/b''"] exI [of _ "CHR ''.''"]) simp
  then show ?thesis using main_pages_routed [OF ecma_subset_match main_table_self] by blast
qed

lemma split_two:
  assumes "CHR ''/'' \<notin> set u" and "NUL \<notin> set u" and "u \<noteq> []"
  shows "split_words (CHR ''/'' # u @ ''/hola'') CHR ''/'' = [u, ''hola'']"
proof -
  have "c_str (CHR ''/'' # u @ ''/hola'') = CHR ''/'' # u @ ''/hola''"
    using assms(2) by (intro c_str_no_nul) simp
  then show ?thesis using assms by (simp add: split_words_fields fields_append_sep)
qed

text \<open>
  The route with a placeholder is dead: ``int'' is not a type that the matcher knows without its
  colon, so that no path but the pattern itself reaches its handler, and a path like /5/hola gets
  the page for unknown paths.
\<close>

theorem main_int_route_dead:
  assumes "ecma_subset rx" and "main_table arr fs cwd cts junk m"
    and "CHR ''/'' \<notin> set u" and "NUL \<notin> set u" and "u \<noteq> []" and "u \<noteq> ''<int>''"
  shows "ns_query_endpoint_from_map rx (CHR ''/'' # u @ ''/hola'') m = Inr (INVALID_HTTP_URI, None)"
proof -
  let ?s = "CHR ''/'' # u @ ''/hola''"
  note facts = main_regex [OF assms(1)] main_table_facts(2) [OF assms(2)]
  have last_s: "last ?s = CHR ''a''" by simp
  have no_page: "\<not> page_path ext ?s" if "ext \<noteq> []" "last ext \<noteq> CHR ''a''" for ext
  proof
    assume "page_path ext ?s"
    then obtain v where "?s = v @ ext" using page_path_last by (auto simp: suffix_def)
    then have "last ?s = last ext" using that(1) by (metis last_append)
    with last_s that(2) show False by simp
  qed
  have ne: "?s \<noteq> ''/<int>/hola''" using assms(6) by (auto simp: append_eq_append_conv2)
  have key: "?s \<notin> set main_keys" using ne assms(5) by (cases u) (auto simp: main_keys_def)
  have "\<forall>(k, cb) \<in> set m. rx k ?s \<noteq> Some True"
    using no_page [of "''html''"] no_page [of "''css''"] no_page [of "''xpp''"] ne by (simp add: facts)
  then have "List.find (\<lambda>(k, cb). rx k ?s = Some True) m = None" by (auto simp: find_None_iff)
  then have regex: "regex_route rx ?s m = Inr None"
    using regex_route_ok [of m rx ?s] main_regex_known [OF assms(1,2)] by simp
  have keys: "split_words ''/'' CHR ''/'' = []" "split_words ''^/.*.html$'' CHR ''/'' = [''^'', ''.*.html$'']"
    "split_words ''^/.*.css$'' CHR ''/'' = [''^'', ''.*.css$'']" "split_words ''^/.*.xpp$'' CHR ''/'' = [''^'', ''.*.xpp$'']"
    "split_words ''/<int>/hola'' CHR ''/'' = [''<int>'', ''hola'']" by code_simp+
  have "get_node_data_type_by_pattern ''<int>'' = InvalidUrlDatatype" by code_simp
  moreover have "getDataTypeByValue u \<noteq> InvalidUrlDatatype" by (simp add: getDataTypeByValue_def)
  ultimately have "\<forall>(k, cb) \<in> set m. \<not> path_matches k ?s"
    using assms(6) by (simp add: facts path_matches_def keys split_two [OF assms(3-5)] node_matches_def)
  then have "List.find (\<lambda>(k, cb). path_matches k ?s) m = None" by (auto simp: find_None_iff)
  with regex key show ?thesis
    by (simp add: ns_query_eq query_eq [OF main_table_facts(1) [OF assms(2)]] main_not_key [OF assms(2)] assms(5))
qed

theorem main_int_route_dead_witness:
  "ns_query_endpoint_from_map subset_match ''/5/hola''
      (ns_routes_map (fst (main_server rev (\<lambda>f. None) None [] OK
         \<lparr>socket_result = 3, bind_result = 0, listen_result = 0, epoll_create_result = 0, epoll_add_result = 0\<rparr> idle_socket)))
    = Inr (INVALID_HTTP_URI, None)"
  using main_int_route_dead [OF ecma_subset_match main_table_self, of "''5''"] by simp

text \<open>The bytes of the home page, for the header fields in the order in which they are sent.\<close>

definition home_text :: "(string \<times> string) list \<Rightarrow> string" where
  "home_text flds = lines_text (''HTTP/1.1 200 OK'' # map header_line flds) @ CRLF @ ''HOLA 1''"

definition home_fields :: "(string \<times> string) list" where
  "home_fields = [(''Content-type'', ''text/plain''), (''Content-Length'', ''4'')]"

lemma home_response:
  assumes "home_handler arr junk request = Inr res" and "mset (arr home_fields) = mset home_fields"
  shows "buildResponse res = home_text (arr home_fields)"
proof -
  have f: "umap_set ''Content-Length'' ''4'' (umap_set ''Content-type'' ''text/plain'' []) = home_fields"
    by (simp add: umap_set_def home_fields_def)
  have "umap_ok home_fields" by (simp add: umap_ok_def home_fields_def)
  from umap_perm_find(2) [OF this assms(2)] have "umap_find (arr home_fields) ''Content-Length'' = Some ''4''"
    by (simp add: umap_find_def home_fields_def)
  moreover have "reason OK = ''200 OK''" by code_simp
  ultimately show ?thesis
    using assms(1) f
    by (auto simp: home_handler_def Response_new_def buildResponse_def ns_build_http_response_eq
        build_http_response_lines head_lines_def sent_headers_def home_text_def)
qed

lemma two_orders: "mset xs = mset [a, b] \<Longrightarrow> xs = [a, b] \<or> xs = [b, a]"
proof -
  assume m: "mset xs = mset [a, b]"
  then have "length xs = 2" using mset_eq_length by fastforce
  then obtain x y where "xs = [x, y]" by (auto simp: numeral_2_eq_2 length_Suc_conv)
  with m show "xs = [a, b] \<or> xs = [b, a]" by (auto simp: add_eq_conv_ex)
qed

lemma home_read:
  assumes "mset flds = mset home_fields"
  shows "client_read (home_text flds) = Some (''HTTP/1.1 200 OK'', flds, ''HOLA'')"
proof -
  have "client_read (home_text home_fields) = Some (''HTTP/1.1 200 OK'', home_fields, ''HOLA'')"
    and "client_read (home_text (rev home_fields)) = Some (''HTTP/1.1 200 OK'', rev home_fields, ''HOLA'')"
    by code_simp+
  then show ?thesis using two_orders [OF assms [unfolded home_fields_def]] by (auto simp: home_fields_def)
qed

text \<open>
  C40: The home page of the program, for every order of its table of routes and of the header table:
  the later of the two handlers registered for it answers with the two fields, in some order, and
  the Content-Length among them is too small, so that the client reads ``HOLA'' of ``HOLA 1''.
\<close>

theorem home_served:
  assumes "main_table arr fs cwd cts junk (ns_routes_map srv)" and "\<And>m. mset (arr m) = mset m"
    and "plain_request verb ''/'' kvs content" and "no_websocket_key kvs"
  shows "\<exists>flds. mset flds = {#(''Content-type'', ''text/plain''), (''Content-Length'', ''4'')#}
    \<and> ns_handle_connection_request mc recv srv con ws
           (Rx_Data (bytes_of (request_text verb ''/'' kvs content)) # es)
         = Inr ([Send con (bytes_of (home_text flds)), Close con], ws, es)
    \<and> client_read (home_text flds) = Some (''HTTP/1.1 200 OK'', flds, ''HOLA'')"
proof (intro exI conjI)
  have home: "umap_find (ns_routes_map srv) ''/'' = Some (home_handler arr junk)"
    using umap.mem_items_iff [OF main_table_facts(1) [OF assms(1)], of "''/''" "home_handler arr junk"]
    by (simp add: main_table_facts(2) [OF assms(1)])
  obtain res where res: "home_handler arr junk (ns_request_object verb ''/'' kvs [] content) = Inr res"
    by (simp add: home_handler_def Let_def)
  have path: "request_path ''/'' = ''/''" "parse_url_params ''/'' = Inr []" "''/'' \<noteq> INVALID_HTTP_URI"
    by (simp_all add: request_path_def parse_url_params_def INVALID_HTTP_URI_def)
  show "mset (arr home_fields) = {#(''Content-type'', ''text/plain''), (''Content-Length'', ''4'')#}"
    by (simp add: assms(2) home_fields_def)
  show "client_read (home_text (arr home_fields)) = Some (''HTTP/1.1 200 OK'', arr home_fields, ''HOLA'')"
    by (rule home_read) (rule assms(2))
  show "ns_handle_connection_request mc recv srv con ws
           (Rx_Data (bytes_of (request_text verb ''/'' kvs content)) # es)
         = Inr ([Send con (bytes_of (home_text (arr home_fields))), Close con], ws, es)"
    using ns_served [OF assms(3) path(2) assms(4) main_table_facts(1) [OF assms(1)], of "home_handler arr junk" res]
      home res home_response [OF res assms(2)] path by simp
qed

text \<open>A process that iterates the table from the last field added to the first.\<close>

theorem home_served_witness:
  "\<exists>flds. mset flds = {#(''Content-type'', ''text/plain''), (''Content-Length'', ''4'')#}
    \<and> ns_handle_connection_request hello_machine recv
        (fst (main_server rev (\<lambda>f. None) None [] OK
           \<lparr>socket_result = 3, bind_result = 0, listen_result = 0, epoll_create_result = 0, epoll_add_result = 0\<rparr> idle_socket))
        4 (websocket_connection_manager_new 3) [Rx_Data (bytes_of (request_text ''GET'' ''/'' [] []))]
      = Inr ([Send 4 (bytes_of (home_text flds)), Close 4], websocket_connection_manager_new 3, [])"
proof -
  have "plain_request ''GET'' ''/'' [] []" by (simp add: plain_simps)
  then show ?thesis
    using home_served [where arr = rev, OF main_table_self mset_rev] by (fastforce simp: no_websocket_key_def)
qed

text \<open>
  The sample server reads outside its directory: for every path that holds ``.html'', also
  with components that lead upwards, the file at the root directory followed by the path is
  opened and its content becomes the body.
\<close>

theorem sample_path_traversal:
  assumes "contains (url req) ''.html''" and "fs (c_str (assets_root @ url req)) = Some content"
    and "content \<noteq> []"
  shows "\<exists>res. asset_handler fs dirs junk req = Inr res \<and> res_body res = copy_lines content
    \<and> umap_find (res_headers res) ''Content-Type'' = Some ''text/html''"
proof -
  have "copy_lines content \<noteq> []"
    using assms(3) by (subst copy_lines.simps) (simp add: getline_def)
  moreover have "content_type_to_string text_html = ''text/html''" by code_simp
  ultimately show ?thesis
    using assms by (simp add: asset_handler_def render_text_file_def read_text_file_def set_content_type_def
        set_home_path_def Let_def)
qed

theorem sample_path_traversal_witness:
  "\<exists>res. asset_handler (\<lambda>f. if f = assets_root @ ''/../../a.html'' then Some ''x'' else None) (\<lambda>d. None) OK
        \<lparr>request_verb_id = Get, str_verb = ''GET'', url = ''/../../a.html'', headers = [], query_params = [],
         body = [], request_fd = 0\<rparr> = Inr res"
proof -
  let ?req = "\<lparr>request_verb_id = Get, str_verb = ''GET'', url = ''/../../a.html'', headers = [], query_params = [],
         body = [], request_fd = 0\<rparr>"
  have "contains (url ?req) ''.html''" by (simp add: contains_def)
  moreover have "c_str (assets_root @ url ?req) = assets_root @ ''/../../a.html''" by code_simp
  ultimately show ?thesis
    using sample_path_traversal [of ?req "\<lambda>f. if f = assets_root @ ''/../../a.html'' then Some ''x'' else None" "''x''"
        "\<lambda>d. None" OK] by auto
qed

end
