(* ===== verification/Variant.thy ===== *)
theory Variant
  imports Cpp_Base
begin

text \<open>
  The class template \<open>Variant<T1, T2, T3>\<close> of includes/variant.h. The union is the object that is
  alive in it, if any; the member functions say which objects they construct and destroy. The copy
  constructors of the three types are the arguments \<open>cp1\<close>, \<open>cp2\<close> and \<open>cp3\<close>, with \<open>None\<close> for an
  exception. Access to a member of the union that is not alive is \<open>Undefined_Access\<close>.
\<close>

section \<open>The class\<close>

datatype Type = TYPE_NONE | TYPE_T1 | TYPE_T2 | TYPE_T3

datatype ('a, 'b, 'c) union_member = Raw | Value1 'a | Value2 'b | Value3 'c

record ('a, 'b, 'c) Variant =
  alive :: "('a, 'b, 'c) union_member"
  currentType :: Type

datatype variant_event = Constructed Type | Destroyed Type

datatype variant_error = Bad_Variant_Access string | Copy_Failed | Undefined_Access

definition Variant_new :: "('a, 'b, 'c) Variant" where
  "Variant_new = \<lparr>alive = Raw, currentType = TYPE_NONE\<rparr>"

text \<open>
  The switch of \<open>destroy\<close>, of the copy constructor and of the assignment. A construction that throws
  leaves the object as it was before.
\<close>

definition destroy :: "('a, 'b, 'c) Variant \<Rightarrow> variant_error + ('a, 'b, 'c) Variant \<times> variant_event list" where
  "destroy v =
     (let none = \<lparr>alive = Raw, currentType = TYPE_NONE\<rparr> in
      case currentType v of
        TYPE_T1 \<Rightarrow> (case alive v of Value1 _ \<Rightarrow> Inr (none, [Destroyed TYPE_T1]) | _ \<Rightarrow> Inl Undefined_Access)
      | TYPE_T2 \<Rightarrow> (case alive v of Value2 _ \<Rightarrow> Inr (none, [Destroyed TYPE_T2]) | _ \<Rightarrow> Inl Undefined_Access)
      | TYPE_T3 \<Rightarrow> (case alive v of Value3 _ \<Rightarrow> Inr (none, [Destroyed TYPE_T3]) | _ \<Rightarrow> Inl Undefined_Access)
      | TYPE_NONE \<Rightarrow> Inr (v\<lparr>currentType := TYPE_NONE\<rparr>, []))"

type_synonym ('a, 'b, 'c) outcome = "('a, 'b, 'c) Variant \<times> variant_event list \<times> variant_error option"

definition construct_from ::
  "('a \<Rightarrow> 'a option) \<Rightarrow> ('b \<Rightarrow> 'b option) \<Rightarrow> ('c \<Rightarrow> 'c option) \<Rightarrow>
     ('a, 'b, 'c) Variant \<Rightarrow> ('a, 'b, 'c) Variant \<Rightarrow> ('a, 'b, 'c) outcome" where
  "construct_from cp1 cp2 cp3 other v =
     (case currentType other of
        TYPE_T1 \<Rightarrow> (case alive other of
            Value1 x \<Rightarrow> (case cp1 x of
                None \<Rightarrow> (v, [], Some Copy_Failed)
              | Some y \<Rightarrow> (v\<lparr>alive := Value1 y, currentType := TYPE_T1\<rparr>, [Constructed TYPE_T1], None))
          | _ \<Rightarrow> (v, [], Some Undefined_Access))
      | TYPE_T2 \<Rightarrow> (case alive other of
            Value2 x \<Rightarrow> (case cp2 x of
                None \<Rightarrow> (v, [], Some Copy_Failed)
              | Some y \<Rightarrow> (v\<lparr>alive := Value2 y, currentType := TYPE_T2\<rparr>, [Constructed TYPE_T2], None))
          | _ \<Rightarrow> (v, [], Some Undefined_Access))
      | TYPE_T3 \<Rightarrow> (case alive other of
            Value3 x \<Rightarrow> (case cp3 x of
                None \<Rightarrow> (v, [], Some Copy_Failed)
              | Some y \<Rightarrow> (v\<lparr>alive := Value3 y, currentType := TYPE_T3\<rparr>, [Constructed TYPE_T3], None))
          | _ \<Rightarrow> (v, [], Some Undefined_Access))
      | TYPE_NONE \<Rightarrow> (v, [], None))"

text \<open>The three converting constructors: the tag is set before the object is made.\<close>

definition Variant_T1 :: "('a \<Rightarrow> 'a option) \<Rightarrow> 'a \<Rightarrow> ('a, 'b, 'c) Variant option" where
  "Variant_T1 cp1 val = map_option (\<lambda>y. \<lparr>alive = Value1 y, currentType = TYPE_T1\<rparr>) (cp1 val)"

definition Variant_T2 :: "('b \<Rightarrow> 'b option) \<Rightarrow> 'b \<Rightarrow> ('a, 'b, 'c) Variant option" where
  "Variant_T2 cp2 val = map_option (\<lambda>y. \<lparr>alive = Value2 y, currentType = TYPE_T2\<rparr>) (cp2 val)"

definition Variant_T3 :: "('c \<Rightarrow> 'c option) \<Rightarrow> 'c \<Rightarrow> ('a, 'b, 'c) Variant option" where
  "Variant_T3 cp3 val = map_option (\<lambda>y. \<lparr>alive = Value3 y, currentType = TYPE_T3\<rparr>) (cp3 val)"

definition Variant_copy ::
  "('a \<Rightarrow> 'a option) \<Rightarrow> ('b \<Rightarrow> 'b option) \<Rightarrow> ('c \<Rightarrow> 'c option) \<Rightarrow> ('a, 'b, 'c) Variant \<Rightarrow> ('a, 'b, 'c) outcome" where
  "Variant_copy cp1 cp2 cp3 other = construct_from cp1 cp2 cp3 other Variant_new"

text \<open>\<open>operator=\<close>; the flag says whether the two are the same object.\<close>

definition variant_assign ::
  "('a \<Rightarrow> 'a option) \<Rightarrow> ('b \<Rightarrow> 'b option) \<Rightarrow> ('c \<Rightarrow> 'c option) \<Rightarrow> bool \<Rightarrow>
     ('a, 'b, 'c) Variant \<Rightarrow> ('a, 'b, 'c) Variant \<Rightarrow> ('a, 'b, 'c) outcome" where
  "variant_assign cp1 cp2 cp3 same this_v other =
     (if same then (this_v, [], None)
      else case destroy this_v of
             Inl e \<Rightarrow> (this_v, [], Some e)
           | Inr (v, evs) \<Rightarrow>
               (case construct_from cp1 cp2 cp3 other v of (v, evs', e) \<Rightarrow> (v, evs @ evs', e)))"

section \<open>Access\<close>

definition get_as_t1 :: "('a, 'b, 'c) Variant \<Rightarrow> variant_error + 'a" where
  "get_as_t1 v =
     (if currentType v \<noteq> TYPE_T1 then Inl (Bad_Variant_Access ''Bad Variant Access: Not T1'')
      else case alive v of Value1 x \<Rightarrow> Inr x | _ \<Rightarrow> Inl Undefined_Access)"

definition get_as_t2 :: "('a, 'b, 'c) Variant \<Rightarrow> variant_error + 'b" where
  "get_as_t2 v =
     (if currentType v \<noteq> TYPE_T2 then Inl (Bad_Variant_Access ''Bad Variant Access: Not T2'')
      else case alive v of Value2 x \<Rightarrow> Inr x | _ \<Rightarrow> Inl Undefined_Access)"

definition get_as_t3 :: "('a, 'b, 'c) Variant \<Rightarrow> variant_error + 'c" where
  "get_as_t3 v =
     (if currentType v \<noteq> TYPE_T3 then Inl (Bad_Variant_Access ''Bad Variant Access: Not T3'')
      else case alive v of Value3 x \<Rightarrow> Inr x | _ \<Rightarrow> Inl Undefined_Access)"

text \<open>
  \<open>is<T>()\<close>: the flags are \<open>is_same<T, T1>\<close>, \<open>is_same<T, T2>\<close> and \<open>is_same<T, T3>\<close>. \<open>get<T>()\<close> has no
  model: its body returns all three members as a \<open>T&\<close>, which does not compile for three unrelated types,
  and with three equal types the class would declare the same constructor three times.
\<close>

definition is_type :: "bool \<Rightarrow> bool \<Rightarrow> bool \<Rightarrow> ('a, 'b, 'c) Variant \<Rightarrow> bool" where
  "is_type same1 same2 same3 v \<longleftrightarrow>
     (if same1 then currentType v = TYPE_T1
      else if same2 then currentType v = TYPE_T2
      else if same3 then currentType v = TYPE_T3
      else False)"

definition is_t1 :: "('a, 'b, 'c) Variant \<Rightarrow> bool" where "is_t1 v \<longleftrightarrow> currentType v = TYPE_T1"
definition is_t2 :: "('a, 'b, 'c) Variant \<Rightarrow> bool" where "is_t2 v \<longleftrightarrow> currentType v = TYPE_T2"
definition is_t3 :: "('a, 'b, 'c) Variant \<Rightarrow> bool" where "is_t3 v \<longleftrightarrow> currentType v = TYPE_T3"

section \<open>The invariant: the tag names the object that is alive\<close>

fun member_type :: "('a, 'b, 'c) union_member \<Rightarrow> Type" where
  "member_type Raw = TYPE_NONE"
| "member_type (Value1 _) = TYPE_T1"
| "member_type (Value2 _) = TYPE_T2"
| "member_type (Value3 _) = TYPE_T3"

definition variant_ok :: "('a, 'b, 'c) Variant \<Rightarrow> bool" where
  "variant_ok v \<longleftrightarrow> currentType v = member_type (alive v)"

text \<open>How many objects are alive, and by how many the events change this number.\<close>

definition live :: "('a, 'b, 'c) Variant \<Rightarrow> int" where
  "live v = (if alive v = Raw then 0 else 1)"

fun balance :: "variant_event list \<Rightarrow> int" where
  "balance [] = 0"
| "balance (Constructed _ # evs) = 1 + balance evs"
| "balance (Destroyed _ # evs) = balance evs - 1"

lemma balance_append [simp]: "balance (a @ b) = balance a + balance b"
  by (induction a rule: balance.induct) simp_all

lemma variant_new_ok [simp]: "variant_ok Variant_new" "live Variant_new = 0" "alive Variant_new = Raw"
  by (simp_all add: variant_ok_def Variant_new_def live_def)

lemma destroy_ok:
  assumes "variant_ok v"
  shows "\<exists>evs. destroy v = Inr (Variant_new, evs) \<and> balance evs = - live v"
  using assms
  by (cases v; cases "alive v") (simp_all add: variant_ok_def destroy_def live_def Variant_new_def)

text \<open>The value that a copy of an object has, if the copy constructor of its type does not throw.\<close>

fun copy_member ::
  "('a \<Rightarrow> 'a option) \<Rightarrow> ('b \<Rightarrow> 'b option) \<Rightarrow> ('c \<Rightarrow> 'c option) \<Rightarrow>
     ('a, 'b, 'c) union_member \<Rightarrow> ('a, 'b, 'c) union_member option" where
  "copy_member cp1 cp2 cp3 Raw = Some Raw"
| "copy_member cp1 cp2 cp3 (Value1 x) = map_option Value1 (cp1 x)"
| "copy_member cp1 cp2 cp3 (Value2 x) = map_option Value2 (cp2 x)"
| "copy_member cp1 cp2 cp3 (Value3 x) = map_option Value3 (cp3 x)"

definition holding :: "('a, 'b, 'c) union_member \<Rightarrow> ('a, 'b, 'c) Variant" where
  "holding m = \<lparr>alive = m, currentType = member_type m\<rparr>"

lemma holding_ok [simp]: "variant_ok (holding m)" "alive (holding m) = m"
  by (simp_all add: variant_ok_def holding_def)

lemma variant_ok_holding: "variant_ok v \<longleftrightarrow> v = holding (alive v)"
  by (cases v) (auto simp: variant_ok_def holding_def)

lemma construct_from_ok:
  assumes "variant_ok other"
  shows "case copy_member cp1 cp2 cp3 (alive other) of
      None \<Rightarrow> construct_from cp1 cp2 cp3 other Variant_new = (Variant_new, [], Some Copy_Failed)
    | Some m \<Rightarrow> \<exists>evs. construct_from cp1 cp2 cp3 other Variant_new = (holding m, evs, None)
                  \<and> balance evs = live (holding m)"
  using assms
  by (cases "alive other")
    (auto simp: variant_ok_def construct_from_def live_def holding_def Variant_new_def split: option.splits)

section \<open>Programs over variants\<close>

text \<open>
  Objects live in the slots of a store; a slot without an object is \<open>None\<close>. An operation makes a
  variant in a new slot, assigns one to another, or ends the life of one; an operation on a slot
  without an object is undefined. A constructor that throws leaves no object.
\<close>

datatype ('a, 'b, 'c) variant_op =
    Make_None | Make_T1 'a | Make_T2 'b | Make_T3 'c | Make_Copy nat | Assign nat nat | End_Life nat

type_synonym ('a, 'b, 'c) slots = "('a, 'b, 'c) Variant option list"

definition slot :: "('a, 'b, 'c) slots \<Rightarrow> nat \<Rightarrow> ('a, 'b, 'c) Variant option" where
  "slot st i = (if i < length st then st ! i else None)"

fun variant_step ::
  "('a \<Rightarrow> 'a option) \<Rightarrow> ('b \<Rightarrow> 'b option) \<Rightarrow> ('c \<Rightarrow> 'c option) \<Rightarrow> ('a, 'b, 'c) variant_op \<Rightarrow>
     ('a, 'b, 'c) slots \<Rightarrow> variant_error + ('a, 'b, 'c) slots \<times> variant_event list" where
  "variant_step cp1 cp2 cp3 Make_None st = Inr (st @ [Some Variant_new], [])"
| "variant_step cp1 cp2 cp3 (Make_T1 x) st =
     (case Variant_T1 cp1 x of None \<Rightarrow> Inr (st, []) | Some v \<Rightarrow> Inr (st @ [Some v], [Constructed TYPE_T1]))"
| "variant_step cp1 cp2 cp3 (Make_T2 x) st =
     (case Variant_T2 cp2 x of None \<Rightarrow> Inr (st, []) | Some v \<Rightarrow> Inr (st @ [Some v], [Constructed TYPE_T2]))"
| "variant_step cp1 cp2 cp3 (Make_T3 x) st =
     (case Variant_T3 cp3 x of None \<Rightarrow> Inr (st, []) | Some v \<Rightarrow> Inr (st @ [Some v], [Constructed TYPE_T3]))"
| "variant_step cp1 cp2 cp3 (Make_Copy i) st =
     (case slot st i of
        None \<Rightarrow> Inl Undefined_Access
      | Some other \<Rightarrow>
          (case Variant_copy cp1 cp2 cp3 other of (v, evs, e) \<Rightarrow>
             (case e of None \<Rightarrow> Inr (st @ [Some v], evs) | Some Copy_Failed \<Rightarrow> Inr (st, evs) | Some e \<Rightarrow> Inl e)))"
| "variant_step cp1 cp2 cp3 (Assign i j) st =
     (case (slot st i, slot st j) of
        (Some v, Some other) \<Rightarrow>
          (case variant_assign cp1 cp2 cp3 (i = j) v other of (v, evs, e) \<Rightarrow>
             (case e of
                None \<Rightarrow> Inr (st[i := Some v], evs)
              | Some Copy_Failed \<Rightarrow> Inr (st[i := Some v], evs)
              | Some e \<Rightarrow> Inl e))
      | _ \<Rightarrow> Inl Undefined_Access)"
| "variant_step cp1 cp2 cp3 (End_Life i) st =
     (case slot st i of
        None \<Rightarrow> Inl Undefined_Access
      | Some v \<Rightarrow> (case destroy v of Inl e \<Rightarrow> Inl e | Inr (v, evs) \<Rightarrow> Inr (st[i := None], evs)))"

fun variant_run ::
  "('a \<Rightarrow> 'a option) \<Rightarrow> ('b \<Rightarrow> 'b option) \<Rightarrow> ('c \<Rightarrow> 'c option) \<Rightarrow> ('a, 'b, 'c) variant_op list \<Rightarrow>
     ('a, 'b, 'c) slots \<Rightarrow> variant_error + ('a, 'b, 'c) slots \<times> variant_event list" where
  "variant_run cp1 cp2 cp3 [] st = Inr (st, [])"
| "variant_run cp1 cp2 cp3 (p # ps) st =
     (case variant_step cp1 cp2 cp3 p st of
        Inl e \<Rightarrow> Inl e
      | Inr (st, evs) \<Rightarrow>
          (case variant_run cp1 cp2 cp3 ps st of Inl e \<Rightarrow> Inl e | Inr (st, evs') \<Rightarrow> Inr (st, evs @ evs')))"

text \<open>An operation that names only slots with an object.\<close>

fun op_ok :: "('a, 'b, 'c) variant_op \<Rightarrow> ('a, 'b, 'c) slots \<Rightarrow> bool" where
  "op_ok (Make_Copy i) st \<longleftrightarrow> slot st i \<noteq> None"
| "op_ok (Assign i j) st \<longleftrightarrow> slot st i \<noteq> None \<and> slot st j \<noteq> None"
| "op_ok (End_Life i) st \<longleftrightarrow> slot st i \<noteq> None"
| "op_ok _ st \<longleftrightarrow> True"

definition slots_ok :: "('a, 'b, 'c) slots \<Rightarrow> bool" where
  "slots_ok st \<longleftrightarrow> (\<forall>v. Some v \<in> set st \<longrightarrow> variant_ok v)"

definition slots_live :: "('a, 'b, 'c) slots \<Rightarrow> int" where
  "slots_live st = sum_list (map (\<lambda>s. case s of None \<Rightarrow> 0 | Some v \<Rightarrow> live v) st)"

lemma slot_Some: "slot st i = Some v \<Longrightarrow> i < length st \<and> st ! i = Some v"
  by (simp add: slot_def split: if_splits)

lemma slots_ok_slot: "slots_ok st \<Longrightarrow> slot st i = Some v \<Longrightarrow> variant_ok v"
  using slot_Some nth_mem by (metis slots_ok_def)

lemma slots_ok_append [simp]: "slots_ok (st @ [Some v]) \<longleftrightarrow> slots_ok st \<and> variant_ok v"
  by (auto simp: slots_ok_def)

lemma slots_ok_update: "slots_ok st \<Longrightarrow> (\<And>v. s = Some v \<Longrightarrow> variant_ok v) \<Longrightarrow> slots_ok (st[i := s])"
  using set_update_subset_insert [of st i s] by (auto simp: slots_ok_def)

lemma slots_live_append [simp]: "slots_live (st @ [Some v]) = slots_live st + live v"
  by (simp add: slots_live_def)

lemma slots_live_update:
  "slot st i = Some v \<Longrightarrow>
     slots_live (st[i := s]) = slots_live st - live v + (case s of None \<Rightarrow> 0 | Some v \<Rightarrow> live v)"
proof -
  assume "slot st i = Some v"
  then have i: "i < length st" "st ! i = Some v" using slot_Some by blast+
  have "st = take i st @ Some v # drop (Suc i) st" using id_take_nth_drop [OF i(1)] i(2) by simp
  then have "slots_live st = slots_live (take i st) + live v + slots_live (drop (Suc i) st)"
    by (metis (no_types, lifting) slots_live_def map_append list.simps(9) option.simps(5) sum_list.append
        sum_list.Cons add.assoc)
  moreover have "slots_live (st[i := s])
      = slots_live (take i st) + (case s of None \<Rightarrow> 0 | Some v \<Rightarrow> live v) + slots_live (drop (Suc i) st)"
    using i(1) by (simp add: slots_live_def upd_conv_take_nth_drop)
  ultimately show ?thesis by simp
qed

lemma variant_assign_ok:
  assumes "variant_ok v" and "variant_ok other"
  shows "\<exists>m evs e. variant_assign cp1 cp2 cp3 False v other = (holding m, evs, e) \<and> e \<in> {None, Some Copy_Failed}
    \<and> balance evs = live (holding m) - live v
    \<and> (e = None \<longrightarrow> copy_member cp1 cp2 cp3 (alive other) = Some m) \<and> (e \<noteq> None \<longrightarrow> m = Raw)"
proof -
  from destroy_ok [OF assms(1)] obtain evs where d: "destroy v = Inr (Variant_new, evs)" "balance evs = - live v"
    by blast
  have raw: "Variant_new = holding Raw" by (simp add: Variant_new_def holding_def)
  show ?thesis
  proof (cases "copy_member cp1 cp2 cp3 (alive other)")
    case None
    with construct_from_ok [OF assms(2), of cp1 cp2 cp3] d show ?thesis
      by (intro exI [of _ Raw] exI [of _ evs] exI [of _ "Some Copy_Failed"])
        (simp add: variant_assign_def raw live_def)
  next
    case (Some m)
    with construct_from_ok [OF assms(2), of cp1 cp2 cp3] obtain evs'
      where "construct_from cp1 cp2 cp3 other Variant_new = (holding m, evs', None)" "balance evs' = live (holding m)"
      by auto
    with d Some show ?thesis
      by (intro exI [of _ m] exI [of _ "evs @ evs'"] exI [of _ None]) (simp add: variant_assign_def)
  qed
qed

lemma make_ok:
  "Variant_T1 cp1 x = Some v1 \<Longrightarrow> variant_ok v1 \<and> live v1 = 1"
  "Variant_T2 cp2 y = Some v2 \<Longrightarrow> variant_ok v2 \<and> live v2 = 1"
  "Variant_T3 cp3 z = Some v3 \<Longrightarrow> variant_ok v3 \<and> live v3 = 1"
  by (auto simp: Variant_T1_def Variant_T2_def Variant_T3_def variant_ok_def live_def)

lemma variant_step_ok:
  assumes "slots_ok st" and "op_ok p st"
  shows "\<exists>st' evs. variant_step cp1 cp2 cp3 p st = Inr (st', evs) \<and> slots_ok st'
    \<and> slots_live st' = slots_live st + balance evs"
proof (cases p)
  case (Make_T1 x)
  with assms(1) make_ok(1) [of cp1 x] show ?thesis by (auto split: option.split)
next
  case (Make_T2 x)
  with assms(1) make_ok(2) [of cp2 x] show ?thesis by (auto split: option.split)
next
  case (Make_T3 x)
  with assms(1) make_ok(3) [of cp3 x] show ?thesis by (auto split: option.split)
next
  case (Make_Copy i)
  with assms(2) obtain v where v: "slot st i = Some v" by auto
  with construct_from_ok [OF slots_ok_slot [OF assms(1)], of i v cp1 cp2 cp3] assms(1) Make_Copy
  show ?thesis by (auto simp: Variant_copy_def split: option.splits)
next
  case (Assign i j)
  with assms(2) obtain v w where v: "slot st i = Some v" "slot st j = Some w" by auto
  note ok = slots_ok_slot [OF assms(1) v(1)] slots_ok_slot [OF assms(1) v(2)]
  show ?thesis
  proof (cases "i = j")
    case True
    have "st[i := Some v] = st" using slot_Some [OF v(1)] by (metis list_update_id)
    with True v Assign assms(1) show ?thesis by (auto simp: variant_assign_def)
  next
    case False
    from variant_assign_ok [OF ok, of cp1 cp2 cp3] obtain m evs e
      where a: "variant_assign cp1 cp2 cp3 False v w = (holding m, evs, e)" "e \<in> {None, Some Copy_Failed}"
        "balance evs = live (holding m) - live v" by blast
    have "slots_ok (st[i := Some (holding m)])" by (rule slots_ok_update [OF assms(1)]) auto
    moreover have "slots_live (st[i := Some (holding m)]) = slots_live st + balance evs"
      using slots_live_update [OF v(1), of "Some (holding m)"] a(3) by simp
    ultimately show ?thesis using Assign v False a(1,2) by auto
  qed
next
  case (End_Life i)
  with assms(2) obtain v where v: "slot st i = Some v" by auto
  from destroy_ok [OF slots_ok_slot [OF assms(1) v]] obtain evs
    where d: "destroy v = Inr (Variant_new, evs)" "balance evs = - live v" by blast
  have "slots_ok (st[i := None])" by (rule slots_ok_update [OF assms(1)]) simp
  with End_Life v d slots_live_update [OF v, of None] show ?thesis by auto
qed (use assms in simp)

lemma variant_step_op_ok: "variant_step cp1 cp2 cp3 p st = Inr r \<Longrightarrow> op_ok p st"
  by (cases p) (auto split: option.splits)

text \<open>From no objects at all, a program that ends has as many objects alive as it made and did not end.\<close>

lemma variant_run_ok:
  "variant_run cp1 cp2 cp3 ps st = Inr (st', evs) \<Longrightarrow> slots_ok st \<Longrightarrow>
     slots_ok st' \<and> slots_live st' = slots_live st + balance evs"
proof (induction ps arbitrary: st evs)
  case (Cons p ps)
  then obtain st1 e1 where s: "variant_step cp1 cp2 cp3 p st = Inr (st1, e1)" by (fastforce split: sum.splits)
  with Cons.prems obtain e2 where r: "variant_run cp1 cp2 cp3 ps st1 = Inr (st', e2)" and e: "evs = e1 @ e2"
    by (auto split: sum.splits)
  from variant_step_ok [OF Cons.prems(2) variant_step_op_ok [OF s], of cp1 cp2 cp3] s
  have "slots_ok st1" "slots_live st1 = slots_live st + balance e1" by auto
  with Cons.IH [OF r] e show ?case by simp
qed simp

section \<open>Properties\<close>

text \<open>
  C24: Whatever a program does with variants, as long as it names objects that exist, the tag of every
  variant names the object that is alive in its union, no operation touches a member that is not
  alive, and no object is leaked or destroyed twice: the objects alive are those constructed less
  those destroyed, also when copy constructors throw. Step by step, and for whole programs.
\<close>

theorem variant_programs_ok:
  assumes "slots_ok st" and "op_ok p st"
  shows "(\<exists>st' evs. variant_step cp1 cp2 cp3 p st = Inr (st', evs) \<and> slots_ok st'
      \<and> slots_live st' = slots_live st + balance evs)
    \<and> (variant_run cp1 cp2 cp3 ps [] = Inr (final, all_evs) \<longrightarrow> slots_ok final \<and> slots_live final = balance all_evs)"
  using variant_step_ok [OF assms] variant_run_ok [of cp1 cp2 cp3 ps "[]" final all_evs]
  by (simp_all add: slots_ok_def slots_live_def)

theorem variant_programs_ok_witness:
  "\<exists>st' evs. variant_step Some Some (\<lambda>_. None) (Assign 0 1)
      [Some (holding (Value1 (7 :: nat))), Some (holding (Value3 True)) :: (nat, string, bool) Variant option] = Inr (st', evs)
      \<and> slots_ok st'"
proof -
  have "slots_ok [Some (holding (Value1 (7 :: nat))), Some (holding (Value3 True)) :: (nat, string, bool) Variant option]"
    by (auto simp: slots_ok_def)
  from variant_programs_ok [OF this, of "Assign 0 1" Some Some "\<lambda>_. None" "[]" "[]" "[]"] show ?thesis
    by (auto simp: slot_def)
qed

text \<open>
  Access is checked: on a well-formed variant exactly the getter of the type it holds returns,
  with the value it holds, the others throw, and the queries say which one it is.
\<close>

theorem variant_access:
  assumes "variant_ok v"
  shows "(get_as_t1 v = Inr x \<longleftrightarrow> alive v = Value1 x) \<and> (get_as_t2 v = Inr y \<longleftrightarrow> alive v = Value2 y)
    \<and> (get_as_t3 v = Inr z \<longleftrightarrow> alive v = Value3 z)
    \<and> (get_as_t1 v \<noteq> Inl Undefined_Access \<and> get_as_t2 v \<noteq> Inl Undefined_Access \<and> get_as_t3 v \<noteq> Inl Undefined_Access)
    \<and> (is_t1 v \<longleftrightarrow> isl (case get_as_t1 v of Inl e \<Rightarrow> Inr e | Inr x \<Rightarrow> Inl x))
    \<and> (is_t2 v \<longleftrightarrow> isl (case get_as_t2 v of Inl e \<Rightarrow> Inr e | Inr x \<Rightarrow> Inl x))
    \<and> (is_t3 v \<longleftrightarrow> isl (case get_as_t3 v of Inl e \<Rightarrow> Inr e | Inr x \<Rightarrow> Inl x))"
  using assms
  by (cases "alive v")
    (simp_all add: variant_ok_def get_as_t1_def get_as_t2_def get_as_t3_def is_t1_def is_t2_def is_t3_def)

theorem variant_access_witness:
  "get_as_t2 (holding (Value2 ''x'') :: (nat, string, bool) Variant) = Inr ''x''"
  using variant_access [of "holding (Value2 ''x'') :: (nat, string, bool) Variant"] by simp

end
