(* ===== verification/Cppws_Codec.thy ===== *)
theory Cppws_Codec
  imports Ws_Accept Cppws_Sha1
begin

text \<open>
  The encoders of the trial server in experiments/cppws: \<open>hexToBytes\<close>, \<open>b64\<close>, \<open>base64Encode\<close> on
  memory and \<open>getAcceptKey\<close> of b64encode.cpp, which are the functions of the library, and
  \<open>base64Encode\<close> on strings of base64.cpp, which is another one: it never pads.
\<close>

section \<open>b64encode.cpp\<close>

definition cppws_chars :: string where
  "cppws_chars = ''ABCDEFGHIJKLMNOPQRSTUVWXYZabcdefghijklmnopqrstuvwxyz0123456789+/''"

definition cppws_char :: "byte \<Rightarrow> char" where
  "cppws_char b = cppws_chars ! unat b"

function hexToBytes :: "string \<Rightarrow> byte list" where
  "hexToBytes hex =
     (if hex = [] then [] else word_of_int (strtol16 (take 2 hex)) # hexToBytes (drop 2 hex))"
  by pat_completeness auto
termination
  by (relation "measure length") auto

declare hexToBytes.simps [simp del]

fun cppws_b64_loop :: "byte list \<Rightarrow> byte list \<Rightarrow> string \<Rightarrow> byte list \<times> string" where
  "cppws_b64_loop [] byte_array_3 result = (byte_array_3, result)"
| "cppws_b64_loop (d # data) byte_array_3 result =
     (let byte_array_3 = byte_array_3 @ [d] in
      if length byte_array_3 = 3
      then cppws_b64_loop data []
             (result @ map cppws_char
               [drop_bit 2 (byte_array_3 ! 0 AND 0xFC),
                push_bit 4 (byte_array_3 ! 0 AND 0x03) + drop_bit 4 (byte_array_3 ! 1 AND 0xF0),
                push_bit 2 (byte_array_3 ! 1 AND 0x0F) + drop_bit 6 (byte_array_3 ! 2 AND 0xC0),
                byte_array_3 ! 2 AND 0x3F])
      else cppws_b64_loop data byte_array_3 result)"

function cppws_pad :: "string \<Rightarrow> string" where
  "cppws_pad result = (if length result mod 4 = 0 then result else cppws_pad (result @ ''=''))"
  by pat_completeness auto
termination
  by (relation "measure (\<lambda>result. (4 - length result mod 4) mod 4)") (auto simp: mod_Suc)

declare cppws_pad.simps [simp del]

definition cppws_b64 :: "byte list \<Rightarrow> string" where
  "cppws_b64 data =
     (case cppws_b64_loop data [] [] of (byte_array_3, result) \<Rightarrow>
        let i = length byte_array_3 in
        if i = 0 then result
        else (let byte_array_3 = byte_array_3 @ replicate (3 - i) 0;
                  byte_array_4 =
                    [drop_bit 2 (byte_array_3 ! 0 AND 0xFC),
                     push_bit 4 (byte_array_3 ! 0 AND 0x03) + drop_bit 4 (byte_array_3 ! 1 AND 0xF0),
                     push_bit 2 (byte_array_3 ! 1 AND 0x0F) + drop_bit 6 (byte_array_3 ! 2 AND 0xC0),
                     byte_array_3 ! 2 AND 0x3F]
              in cppws_pad (result @ map cppws_char (take (i + 1) byte_array_4))))"

fun base64Encode :: "byte list \<Rightarrow> string" where
  "base64Encode [] = []"
| "base64Encode (b0 # bs) =
     (let bytesLeft = length (b0 # bs);
          b1 = (if bytesLeft > 1 then bs ! 0 else 0);
          b2 = (if bytesLeft > 2 then bs ! 1 else 0)
      in [cppws_char (drop_bit 2 b0),
          cppws_char (push_bit 4 (b0 AND 0x03) OR drop_bit 4 (b1 AND 0xF0)),
          (if bytesLeft > 1 then cppws_char (push_bit 2 (b1 AND 0x0F) OR drop_bit 6 (b2 AND 0xC0))
           else CHR ''=''),
          (if bytesLeft > 2 then cppws_char (b2 AND 0x3F) else CHR ''='')]
         @ base64Encode (drop 2 bs))"

definition cppws_magic_string :: string where
  "cppws_magic_string = ''258EAFA5-E914-47DA-95CA-C5AB0DC85B11''"

definition getAcceptKey :: "endian \<Rightarrow> sha1_state \<Rightarrow> string \<Rightarrow> string result" where
  "getAcceptKey e mem challenge =
     (let fullString = challenge @ cppws_magic_string;
          hasher = cppws_SHA1_new mem;
          hasher = cppws_Input (take (length fullString mod 2 ^ 32) (bytes_of fullString)) hasher
      in case fst (cppws_Result hasher) of
           None \<Rightarrow> Inl Undefined_Behaviour
         | Some hash \<Rightarrow> Inr (base64Encode (concat (map (mem_octets e) (map (htonl e) hash)))))"

section \<open>base64.cpp\<close>

definition base64_table :: string where
  "base64_table = ''ABCDEFGHIJKLMNOPQRSTUVWXYZ'' @ ''abcdefghijklmnopqrstuvwxyz'' @ ''0123456789+/''"

text \<open>
  The loop \<open>while (i < input_length)\<close>; each \<open>input[i++]\<close> moves the counter, which is an \<open>int\<close> in the
  code: the model is for inputs shorter than \<open>2 ^ 31\<close>.
\<close>

function base64Encode_loop :: "byte list \<Rightarrow> nat \<Rightarrow> string" where
  "base64Encode_loop input i =
     (if i < length input then
        (let input_length = length input;
             (a, i) = (if i < input_length then (input ! i, i + 1) else (0, i));
             (b, i) = (if i < input_length then (input ! i, i + 1) else (0, i));
             (c, i) = (if i < input_length then (input ! i, i + 1) else (0, i))
         in [base64_table ! unat (drop_bit 2 a AND 0x3F),
             base64_table ! unat ((push_bit 4 a AND 0x30) OR (drop_bit 4 b AND 0x0F)),
             (if i > input_length + 1 then CHR ''=''
              else base64_table ! unat ((push_bit 2 b AND 0x3C) OR (drop_bit 6 c AND 0x03))),
             (if i > input_length then CHR ''='' else base64_table ! unat (c AND 0x3F))]
            @ base64Encode_loop input i)
      else [])"
  by pat_completeness auto
termination
  by (relation "measure (\<lambda>(input, i). length input - i)") (auto split: if_splits)

declare base64Encode_loop.simps [simp del]

definition base64Encode_str :: "string \<Rightarrow> string" where
  "base64Encode_str input = base64Encode_loop (bytes_of input) 0"

section \<open>The functions of the library\<close>

lemma cppws_char_eq: "cppws_char = b64_char"
  by (rule ext) (simp only: cppws_char_def b64_char_def cppws_chars_def base64_chars_def)

lemma base64Encode_eq: "base64Encode = base64_encode"
proof (rule ext)
  show "base64Encode bs = base64_encode bs" for bs
    by (induction bs rule: base64_encode.induct) (simp_all add: cppws_char_eq)
qed

lemma cppws_b64_loop_eq: "cppws_b64_loop ds arr3 res = b64_loop ds arr3 res"
  by (induction ds arr3 res rule: b64_loop.induct) (simp_all add: cppws_char_eq b64_quad_def Let_def)

lemma cppws_pad_eq: "cppws_pad res = pad_quad res"
proof (induction res rule: pad_quad.induct)
  case (1 res)
  then show ?case by (simp add: pad_quad.simps [of res] cppws_pad.simps [of res])
qed

lemma cppws_b64_eq: "cppws_b64 = b64"
  by (rule ext)
    (simp only: cppws_b64_def b64_def b64_quad_def cppws_b64_loop_eq cppws_pad_eq cppws_char_eq Let_def)

lemma hexToBytes_eq: "hexToBytes = hex_2_bytes"
proof (rule ext)
  show "hexToBytes hex = hex_2_bytes hex" for hex
  proof (induction hex rule: hex_2_bytes.induct)
    case (1 hex)
    then show ?case by (simp add: hex_2_bytes.simps [of hex] hexToBytes.simps [of hex])
  qed
qed

lemma getAcceptKey_eq: "getAcceptKey = get_accept_key"
  by ((rule ext)+, simp only: getAcceptKey_def get_accept_key_def cppws_magic_string_def
      magic_string_def base64Encode_eq cppws_sha1_same)

section \<open>The encoder that never pads\<close>

text \<open>A group of three bytes, with the masks of the code.\<close>

lemma base64_table_eq: "base64_table ! unat b = b64_char b"
  by (simp add: base64_table_def b64_char_def base64_chars_def)

lemma more_mask_consts:
  "(3 :: byte) = mask 2" "(15 :: byte) = mask 4" "(63 :: byte) = mask 6"
  "(48 :: byte) = push_bit 4 (mask 2)" "(60 :: byte) = push_bit 2 (mask 4)"
  by (simp_all add: mask_eq_exp_minus_1)

lemma table_masks:
  fixes a b c :: byte
  shows "drop_bit 2 a AND 63 = drop_bit 2 a"
    and "push_bit 4 a AND 48 = push_bit 4 (take_bit 2 a)" and "drop_bit 4 b AND 15 = drop_bit 4 b"
    and "push_bit 2 b AND 60 = push_bit 2 (take_bit 4 b)" and "drop_bit 6 c AND 3 = drop_bit 6 c"
    and "c AND 63 = take_bit 6 c"
  unfolding more_mask_consts
  by (rule bit_word_eqI; auto simp: bit_simps dest: bit_imp_le_length)+

text \<open>Zero bytes that fill the last group.\<close>

definition fill_group :: "byte list \<Rightarrow> byte list" where
  "fill_group bs = bs @ replicate ((3 - length bs mod 3) mod 3) 0"

lemma fill_group_simps:
  "fill_group [] = []" "fill_group [a] = [a, 0, 0]" "fill_group [a, b] = [a, b, 0]"
  "fill_group (a # b # c # bs) = a # b # c # fill_group bs"
  by (simp_all add: fill_group_def numeral_2_eq_2)

lemma base64Encode_loop_eq: "base64Encode_loop (xs @ ys) (length xs) = base64_encode (fill_group ys)"
proof (induction ys arbitrary: xs rule: triple_induct)
  case Nil
  then show ?case by (simp add: base64Encode_loop.simps fill_group_simps)
next
  case (One a)
  show ?case
    by (subst base64Encode_loop.simps)
      (simp add: base64Encode_loop.simps [of _ "Suc (length xs)"] nth_append base64_table_eq table_masks
        base64_table_eq [of 0, simplified] fill_group_simps base64_encode_simps del: base64_encode.simps(2))
next
  case (Two a b)
  show ?case
    by (subst base64Encode_loop.simps)
      (simp add: base64Encode_loop.simps [of _ "Suc (Suc (length xs))"] nth_append base64_table_eq table_masks
        base64_table_eq [of 0, simplified] fill_group_simps base64_encode_simps del: base64_encode.simps(2))
next
  case (Three a b c ys)
  have "base64Encode_loop (xs @ a # b # c # ys) (Suc (Suc (Suc (length xs)))) = base64_encode (fill_group ys)"
    using Three [of "xs @ [a, b, c]"] by simp
  then show ?case
    by (subst base64Encode_loop.simps)
      (simp add: nth_append base64_table_eq table_masks fill_group_simps base64_encode_simps
        del: base64_encode.simps)
qed

lemma base64Encode_str_eq: "base64Encode_str input = base64_encode (fill_group (bytes_of input))"
  using base64Encode_loop_eq [of "[]" "bytes_of input"] by (simp add: base64Encode_str_def)

lemma base64Encode_str_collision: "base64Encode_str ''f'' = base64Encode_str [CHR ''f'', NUL]"
  by (simp add: base64Encode_str_eq fill_group_def bytes_of_def byte_of_def numeral_2_eq_2)

section \<open>Properties\<close>

text \<open>
  The string encoder of the trial never pads: its output is the Base64 text of the input with
  zero bytes appended up to a multiple of three. So it is the Base64 text of the input exactly for
  lengths divisible by three; for the others it decodes to the longer string, and two inputs have the
  same text when they differ in such zero bytes.
\<close>

theorem base64Encode_str_unpadded:
  "base64Encode_str input = base64_encode (fill_group (bytes_of input))
    \<and> b64_decode (base64Encode_str input) = Some (fill_group (bytes_of input))
    \<and> (base64Encode_str input = base64_encode (bytes_of input) \<longleftrightarrow> 3 dvd length input)"
proof -
  have "fill_group (bytes_of input) = bytes_of input \<longleftrightarrow> (3 - length input mod 3) mod 3 = 0"
    by (simp add: fill_group_def)
  also have "\<dots> \<longleftrightarrow> 3 dvd length input" by presburger
  finally show ?thesis unfolding base64Encode_str_eq by (simp add: b64_decode_encode base64.enc_inj)
qed

end
