(* ===== verification/Cppws.thy ===== *)
theory Cppws
  imports Cppws_Codec Tcp_Setup Http_Client
begin

text \<open>
  The trial server experiments/cppws/cppws.cpp: it reads the lines of a request byte by byte,
  answers the handshake and sends every text message back to its sender, one client after the other.
  Its loops end when the socket says so: they are partial functions, where \<open>None\<close> is a call that
  never returns. Console output is left out.
\<close>

section \<open>Frames\<close>

text \<open>The length of a payload in the head of a frame, which the two writers of frames share.\<close>

definition sendWebSocketFrame_bytes :: "byte list \<Rightarrow> byte \<Rightarrow> byte list" where
  "sendWebSocketFrame_bytes payload opcode =
     (let frame = [0x80 OR opcode];
          payload_size = (word_of_nat (length payload) :: u64);
          frame = frame @
            (if payload_size \<le> 125 then [ucast payload_size]
             else if payload_size \<le> 0xFFFF
             then [126, ucast (drop_bit 8 payload_size AND 0xFF), ucast (payload_size AND 0xFF)]
             else 127 # map (\<lambda>i. ucast (drop_bit (i * 8) payload_size AND 0xFF)) (rev [0..<8]))
      in frame @ payload)"

text \<open>\<open>sent_bytes\<close> is the result of \<open>send\<close>.\<close>

definition sendWebSocketFrame :: "int \<Rightarrow> int \<Rightarrow> byte list \<Rightarrow> byte \<Rightarrow> bool \<times> net_effect list" where
  "sendWebSocketFrame sent_bytes socket_fd payload opcode =
     (sent_bytes \<noteq> -1, [Send socket_fd (sendWebSocketFrame_bytes payload opcode)])"

definition cppws_send_frame :: "string \<Rightarrow> byte list" where
  "cppws_send_frame message =
     (let frame_header = 0x81;
          payload_length = (word_of_nat (length message) :: u64);
          frame = [frame_header];
          frame = frame @
            (if payload_length \<le> 125 then [ucast payload_length]
             else if payload_length \<le> 0xFFFF
             then [126, ucast (drop_bit 8 payload_length AND 0xFF), ucast (payload_length AND 0xFF)]
             else 127 # map (\<lambda>i. ucast (drop_bit (i * 8) payload_length AND 0xFF)) (rev [0..<8]))
      in frame @ bytes_of message)"

text \<open>
  \<open>receiveWebSocketFrame\<close>: the results of the reads of the length and of the key are not looked at.
  The bytes of a length that did not arrive are read without ever having been written; those of the
  key are zero.
\<close>

definition receive_length :: "'s recv_fun \<Rightarrow> byte \<Rightarrow> 's \<Rightarrow> (u64 \<times> 's) result" where
  "receive_length rcv h1 s =
     (let payload_length = (ucast (h1 AND 0x7F) :: u64) in
      if payload_length = 126
      then (case rcv 2 s of (r, ext, s') \<Rightarrow>
              if length ext < 2 then Inl Undefined_Behaviour
              else Inr (push_bit 8 (ucast (ext ! 0)) OR ucast (ext ! 1), s'))
      else if payload_length = 127
      then (case rcv 8 s of (r, ext, s') \<Rightarrow>
              if length ext < 8 then Inl Undefined_Behaviour
              else Inr (fold (\<lambda>b acc. push_bit 8 acc OR ucast b) ext 0, s'))
      else Inr (payload_length, s))"

text \<open>The loop that reads the payload, with the counter of the bytes read so far.\<close>

function cppws_payload_loop :: "'s recv_fun \<Rightarrow> nat \<Rightarrow> nat \<Rightarrow> byte list \<Rightarrow> 's \<Rightarrow> byte list option \<times> 's" where
  "cppws_payload_loop rcv bytes_read payload_length payload s =
     (if bytes_read < payload_length
      then (case rcv (payload_length - bytes_read) s of (result, d, s') \<Rightarrow>
              if result \<le> 0 then (None, s')
              else cppws_payload_loop rcv (bytes_read + nat result) payload_length (payload @ d) s')
      else (Some payload, s))"
  by pat_completeness auto
termination
  by (relation "measure (\<lambda>(rcv, bytes_read, payload_length, payload, s). payload_length - bytes_read)") auto

declare cppws_payload_loop.simps [simp del]

definition receiveWebSocketFrame :: "nat \<Rightarrow> 's recv_fun \<Rightarrow> 's \<Rightarrow> (bool \<times> 's) result" where
  "receiveWebSocketFrame mem rcv s =
     (case rcv 2 s of (bytes_received, header, s) \<Rightarrow>
        if bytes_received < 2 then Inr (False, s) else
        let opcode = header ! 0 AND 0x0F;
            masked = (header ! 1 AND 0x80 \<noteq> 0)
        in rbind (receive_length rcv (header ! 1) s) (\<lambda>(payload_length, s).
             case (if masked then (case rcv 4 s of (r, key, s) \<Rightarrow> (take 4 (key @ replicate 4 0), s))
                   else (replicate 4 0, s)) of (masking_key, s) \<Rightarrow>
             rbind (alloc_check mem (unat payload_length)) (\<lambda>_.
             case cppws_payload_loop rcv 0 (unat payload_length) [] s of
               (None, s) \<Rightarrow> Inr (False, s)
             | (Some payload, s) \<Rightarrow> Inr (opcode \<in> {0x1, 0x2, 0x8, 0x9, 0xA}, s))))"

text \<open>\<open>receive_data\<close>: one read into the buffer, whose first byte is cleared when nothing arrives.\<close>

definition receive_data :: "'s recv_fun \<Rightarrow> byte list \<Rightarrow> int \<Rightarrow> 's \<Rightarrow> (byte list \<times> 's) result" where
  "receive_data rcv buffer len s =
     (let vleng = (if len = -1 then 4096 else len) in
      case rcv (nat vleng) s of (rsize, d, s) \<Rightarrow>
        let rsize' = sint (word_of_int rsize :: u32) in
        if length buffer < length d then Inl Undefined_Behaviour
        else (let buffer = d @ drop (length d) buffer in
              if rsize' \<le> 0 then (if buffer = [] then Inl Undefined_Behaviour else Inr (buffer[0 := 0], s))
              else Inr (buffer, s)))"

definition cppws_read_length :: "'s recv_fun \<Rightarrow> byte \<Rightarrow> 's \<Rightarrow> u64 option \<times> 's" where
  "cppws_read_length rcv h1 s =
     (let payload_length = (ucast (h1 AND 0x7F) :: u64) in
      if payload_length = 126
      then (case rcv 2 s of (r, ext, s') \<Rightarrow> if r \<noteq> 2 then (None, s')
              else (Some (push_bit 8 (ucast (ext ! 0)) OR ucast (ext ! 1)), s'))
      else if payload_length = 127
      then (case rcv 8 s of (r, ext, s') \<Rightarrow> if r \<noteq> 8 then (None, s')
              else (Some (fold (\<lambda>b acc. push_bit 8 acc OR ucast b) ext 0), s'))
      else (Some payload_length, s))"

definition cppws_read_key :: "'s recv_fun \<Rightarrow> byte \<Rightarrow> 's \<Rightarrow> byte list option \<times> 's" where
  "cppws_read_key rcv h1 s =
     (if drop_bit 7 h1 AND 1 = 1
      then (case rcv 4 s of (r, key, s') \<Rightarrow> if r \<noteq> 4 then (None, s') else (Some key, s'))
      else (Some (replicate 4 0), s))"

definition cppws_read_frame :: "nat \<Rightarrow> 's recv_fun \<Rightarrow> 's \<Rightarrow> (string \<times> 's) result" where
  "cppws_read_frame mem rcv s =
     (case rcv 2 s of (d, header, s1) \<Rightarrow>
        if d \<noteq> 2 then Inr ([], s1) else
        let opcode = header ! 0 AND 0x0F;
            masked = (drop_bit 7 (header ! 1) AND 1 = 1) in
        case cppws_read_length rcv (header ! 1) s1 of
          (None, s2) \<Rightarrow> Inr ([], s2)
        | (Some payload_length, s2) \<Rightarrow>
            (case cppws_read_key rcv (header ! 1) s2 of
               (None, s3) \<Rightarrow> Inr ([], s3)
             | (Some masking_key, s3) \<Rightarrow>
                 (case alloc_check mem (unat payload_length) of
                    Inl e \<Rightarrow> Inl e
                  | Inr _ \<Rightarrow>
                      (case cppws_payload_loop rcv 0 (unat payload_length) [] s3 of
                         (None, s4) \<Rightarrow> Inr ([], s4)
                       | (Some payload, s4) \<Rightarrow>
                           let payload = (if masked
                                 then map (\<lambda>i. payload ! i XOR masking_key ! (i mod 4)) [0..<length payload]
                                 else payload) in
                           if opcode = 1 then Inr (string_of payload, s4) else Inr ([], s4)))))"

section \<open>The lines of a request\<close>

partial_function (option) read_line_loop :: "'s recv_fun \<Rightarrow> string \<Rightarrow> 's \<Rightarrow> (string \<times> 's) option" where
  "read_line_loop rcv line s =
     (case rcv 1 s of (r, d, s') \<Rightarrow>
        if r \<le> 0 then Some (line, s')
        else let line = line @ string_of d in
             if contains line CRLF then Some (take (length line - 2) line, s')
             else read_line_loop rcv line s')"

definition read_line :: "'s recv_fun \<Rightarrow> 's \<Rightarrow> (string \<times> 's) option" where
  "read_line rcv s = read_line_loop rcv [] s"

text \<open>\<open>split_by\<close>; positions are kept in an \<open>int\<close>, so that the model is for lines shorter than \<open>2 ^ 31\<close>.\<close>

definition split_by :: "string \<Rightarrow> string \<Rightarrow> string \<times> string" where
  "split_by line pattern =
     (case str_find pattern line of
        None \<Rightarrow> (''NOTHING'', [])
      | Some pos \<Rightarrow> (take pos line, drop (pos + length pattern) line))"

definition put_header :: "(string \<rightharpoonup> string) \<Rightarrow> string \<Rightarrow> (string \<rightharpoonup> string)" where
  "put_header ret line =
     (let splitted = split_by line '': '' in
      if fst splitted = ''NOTHING'' then ret else ret(fst splitted \<mapsto> snd splitted))"

partial_function (option) extract_loop ::
  "'s recv_fun \<Rightarrow> (string \<rightharpoonup> string) \<Rightarrow> 's \<Rightarrow> ((string \<rightharpoonup> string) \<times> 's) option" where
  "extract_loop rcv ret s =
     (case read_line rcv s of
        None \<Rightarrow> None
      | Some (line, s') \<Rightarrow>
          if line \<noteq> [] then extract_loop rcv (put_header ret line) s' else Some (ret, s'))"

definition extract_request :: "'s recv_fun \<Rightarrow> 's \<Rightarrow> ((string \<rightharpoonup> string) \<times> 's) option" where
  "extract_request rcv s = extract_loop rcv (\<lambda>_. None) s"

section \<open>A client\<close>

text \<open>\<open>sent_bytes\<close> is the result of \<open>send\<close>; the other arguments are those of \<open>getAcceptKey\<close>.\<close>

definition do_ws_handshake ::
  "endian \<Rightarrow> sha1_state \<Rightarrow> int \<Rightarrow> int \<Rightarrow> (string \<rightharpoonup> string) \<Rightarrow> (bool \<times> net_effect list) result" where
  "do_ws_handshake e hmem sent_bytes client headers =
     (case headers ''Sec-WebSocket-Key'' of
        None \<Rightarrow> Inr (False, [])
      | Some websocket_key \<Rightarrow>
          rbind (getAcceptKey e hmem websocket_key) (\<lambda>accept_key.
            let response =
                  ''HTTP/1.1 101 Switching Protocols'' @ CRLF @
                  ''Upgrade: websocket'' @ CRLF @
                  ''Connection: Upgrade'' @ CRLF @
                  ''Sec-WebSocket-Accept: '' @ accept_key @ CRLF @ CRLF
            in Inr (sent_bytes \<ge> 0, [Send client (bytes_of response)])))"

partial_function (option) echo_loop ::
  "nat \<Rightarrow> 's recv_fun \<Rightarrow> int \<Rightarrow> net_effect list \<Rightarrow> 's \<Rightarrow> (net_effect list \<times> 's) result option" where
  "echo_loop mem rcv client effs s =
     (case cppws_read_frame mem rcv s of
        Inl f \<Rightarrow> Some (Inl f)
      | Inr (msg, s') \<Rightarrow>
          if length msg > 0 then echo_loop mem rcv client (effs @ [Send client (cppws_send_frame msg)]) s'
          else Some (Inr (effs, s')))"

definition echo_server :: "nat \<Rightarrow> 's recv_fun \<Rightarrow> int \<Rightarrow> 's \<Rightarrow> (net_effect list \<times> 's) result option" where
  "echo_server mem rcv client s = echo_loop mem rcv client [] s"

text \<open>The body of the loop of \<open>main\<close> for one client; \<open>headers[\<dots>]\<close> is empty for a missing key.\<close>

definition serve_client ::
  "endian \<Rightarrow> sha1_state \<Rightarrow> nat \<Rightarrow> 's recv_fun \<Rightarrow> int \<Rightarrow> int \<Rightarrow> 's \<Rightarrow> (net_effect list \<times> 's) result option" where
  "serve_client e hmem mem rcv sent_bytes client s =
     (case extract_request rcv s of
        None \<Rightarrow> None
      | Some (headers, s) \<Rightarrow>
          (let key = (case headers ''Sec-WebSocket-Key'' of None \<Rightarrow> [] | Some v \<Rightarrow> v) in
           if length key > 0
           then (case do_ws_handshake e hmem sent_bytes client headers of
                   Inl f \<Rightarrow> Some (Inl f)
                 | Inr (do_hs, effs) \<Rightarrow>
                     if do_hs
                     then (case echo_server mem rcv client s of
                             None \<Rightarrow> None
                           | Some (Inl f) \<Rightarrow> Some (Inl f)
                           | Some (Inr (echoed, s)) \<Rightarrow> Some (Inr (effs @ echoed @ [Close client], s)))
                     else Some (Inr (effs @ [Close client], s)))
           else Some (Inr ([Close client], s))))"

text \<open>
  \<open>main\<close> from \<open>int port\<close> on: \<open>clients\<close> are the answers of \<open>accept\<close>, each with the result of its
  handshake's \<open>send\<close> and its socket.
\<close>

fun serve_clients ::
  "endian \<Rightarrow> sha1_state \<Rightarrow> nat \<Rightarrow> 's recv_fun \<Rightarrow> int \<Rightarrow> (int \<times> int \<times> 's) list \<Rightarrow> sys_call list result option" where
  "serve_clients e hmem mem rcv server [] = Some (Inr [])"
| "serve_clients e hmem mem rcv server ((client, sent_bytes, s) # clients) =
     (case serve_client e hmem mem rcv sent_bytes client s of
        None \<Rightarrow> None
      | Some (Inl f) \<Rightarrow> Some (Inl f)
      | Some (Inr (effs, _)) \<Rightarrow>
          map_option (\<lambda>r. rbind r (\<lambda>calls. Inr (Sys_Accept server # map Sys_Net effs @ calls)))
            (serve_clients e hmem mem rcv server clients))"

definition cppws_main ::
  "setup_os \<Rightarrow> 16 word \<Rightarrow> endian \<Rightarrow> sha1_state \<Rightarrow> nat \<Rightarrow> 's recv_fun \<Rightarrow> (int \<times> int \<times> 's) list \<Rightarrow>
     sys_call list result option" where
  "cppws_main os portno e hmem mem rcv clients =
     (let server = socket_result os in
      if bind_result os \<noteq> 0 then Some (Inr [Sys_Socket, Sys_Bind server portno])
      else map_option (\<lambda>r. rbind r (\<lambda>calls.
               Inr ([Sys_Socket, Sys_Bind server portno, Sys_Setsockopt server SO_REUSEADDR,
                     Sys_Listen server (Backlog 2)] @ calls)))
             (serve_clients e hmem mem rcv server clients))"

section \<open>The functions of the library\<close>

lemma cppws_read_length_eq: "cppws_read_length = read_length"
  by ((rule ext)+, simp only: cppws_read_length_def read_length_def be_accumulate_def)

lemma cppws_read_key_eq: "cppws_read_key = read_key"
  by ((rule ext)+, simp only: cppws_read_key_def read_key_def)

lemma cppws_payload_loop_eq: "cppws_payload_loop rcv k n got s = recv_all rcv (n - k) got s"
proof (induction rcv k n got s rule: cppws_payload_loop.induct)
  case (1 rcv k n got s)
  show ?case
  proof (cases "k < n")
    case True
    obtain r d s' where "rcv (n - k) s = (r, d, s')" by (cases "rcv (n - k) s")
    with 1 True show ?thesis
      by (auto simp: cppws_payload_loop.simps [of rcv k n got s] recv_all.simps [of rcv "n - k"])
  qed (simp add: cppws_payload_loop.simps [of rcv k n])
qed

lemma cppws_payload_loop_start: "cppws_payload_loop rcv 0 n [] s = recv_all rcv n [] s"
  by (simp add: cppws_payload_loop_eq)

lemma cppws_read_frame_eq: "cppws_read_frame = read_frame"
  by ((rule ext)+, simp only: cppws_read_frame_def read_frame_def cppws_read_length_eq cppws_read_key_eq
      cppws_payload_loop_start unmask_def)

lemma cppws_send_frame_eq: "cppws_send_frame = send_frame"
  by (rule ext) (simp only: cppws_send_frame_def send_frame_def Let_def)

lemma sendWebSocketFrame_text: "sendWebSocketFrame_bytes (bytes_of m) 1 = send_frame m"
  by (simp add: sendWebSocketFrame_bytes_def send_frame_def Let_def)

lemma do_ws_handshake_eq:
  "do_ws_handshake e hmem sent_bytes client headers =
     (case headers ''Sec-WebSocket-Key'' of
        None \<Rightarrow> Inr (False, [])
      | Some key \<Rightarrow> rbind (get_accept_key e hmem key) (\<lambda>accept_key.
          Inr (sent_bytes \<ge> 0, [Send client (bytes_of (handshake_response accept_key))])))"
  by (simp only: do_ws_handshake_def getAcceptKey_eq handshake_response_def Let_def)

lemma get_accept_key_returns:
  assumes "length (Message_Block hmem) = 64"
  shows "\<exists>answer. get_accept_key e hmem challenge = Inr answer"
proof -
  let ?full = "challenge @ magic_string"
  let ?msg = "take (length ?full mod 2 ^ 32) (bytes_of ?full)"
  have "length ?full mod 2 ^ 32 < 2 ^ 61"
    by (rule less_trans [OF mod_less_divisor]) simp_all
  then have "length ?msg < 2 ^ 61" unfolding length_take by (rule min.strict_coboundedI2)
  then have "fst (Result (Input ?msg (SHA1_new hmem))) = Some (SHA1_spec ?msg)"
    by (intro sha1.digest_once [OF assms]) simp
  then show ?thesis by (simp add: get_accept_key_def Let_def)
qed

text \<open>The handshake sends to the client and cannot fail; a frame can only fail to be allocated.\<close>

lemma handshake_sends:
  assumes "length (Message_Block hmem) = 64"
  shows "\<exists>do_hs hs. do_ws_handshake e hmem sent_bytes client headers = Inr (do_hs, map (Send client) hs)"
proof (cases "headers ''Sec-WebSocket-Key''")
  case None
  then show ?thesis by (intro exI [of _ False] exI [of _ "[]"]) (simp add: do_ws_handshake_eq)
next
  case (Some key)
  obtain answer where "get_accept_key e hmem key = Inr answer" using get_accept_key_returns [OF assms] by blast
  with Some show ?thesis
    by (intro exI [of _ "0 \<le> sent_bytes"] exI [of _ "[bytes_of (handshake_response answer)]"])
      (simp add: do_ws_handshake_eq)
qed

lemma read_frame_fault: "read_frame mem rcv s = Inl f \<Longrightarrow> f \<in> {Length_Error, Bad_Alloc}"
  by (auto simp: read_frame_def alloc_check_def Let_def split: prod.splits if_splits option.splits sum.splits)

section \<open>Sockets that run dry\<close>

text \<open>
  A socket of which every successful read leaves less to read, and a set \<open>good\<close> of its states that
  no read leaves. On such a socket the loops end, in a good state when they begin in one.
\<close>

locale finite_source =
  fixes rcv :: "'s recv_fun" and left :: "'s \<Rightarrow> nat" and good :: "'s \<Rightarrow> bool"
  assumes recv_left: "rcv n s = (r, d, s') \<Longrightarrow> left s' \<le> left s \<and> (0 < r \<and> 0 < n \<longrightarrow> left s' < left s)"
    and recv_good: "rcv n s = (r, d, s') \<Longrightarrow> good s \<Longrightarrow> good s'"
begin

text \<open>What a call leaves of the stream.\<close>

definition leaves :: "'s \<Rightarrow> 's \<Rightarrow> bool" where
  "leaves s s' \<longleftrightarrow> left s' \<le> left s \<and> (good s \<longrightarrow> good s')"

lemma leaves_refl [simp]: "leaves s s"
  by (simp add: leaves_def)

lemma leaves_trans: "leaves s s1 \<Longrightarrow> leaves s1 s2 \<Longrightarrow> leaves s s2"
  by (auto simp: leaves_def)

lemma leaves_less: "left s1 < left s \<Longrightarrow> leaves s1 s2 \<Longrightarrow> left s2 < left s"
  by (simp add: leaves_def)

lemma recv_leaves: "rcv n s = (r, d, s') \<Longrightarrow> leaves s s'"
  using recv_left recv_good by (auto simp: leaves_def)

lemma read_line_ends: "\<exists>line' s'. read_line_loop rcv line s = Some (line', s') \<and> leaves s s'
    \<and> (line' \<noteq> [] \<and> line = [] \<longrightarrow> left s' < left s)"
proof (induction "left s" arbitrary: line s rule: less_induct)
  case less
  obtain r d s1 where rd: "rcv 1 s = (r, d, s1)" by (cases "rcv 1 s")
  show ?case
  proof (cases "r \<le> 0")
    case True
    then show ?thesis using rd recv_leaves [OF rd] by (subst read_line_loop.simps) simp
  next
    case False
    let ?line = "line @ string_of d"
    from False have l: "left s1 < left s" using recv_left [OF rd] by simp
    have step: "read_line_loop rcv line s = (if contains ?line CRLF then Some (take (length ?line - 2) ?line, s1)
        else read_line_loop rcv ?line s1)"
      using rd False by (subst read_line_loop.simps) (simp add: Let_def)
    from less [OF l, of ?line] obtain line' s'
      where "read_line_loop rcv ?line s1 = Some (line', s')" "leaves s1 s'" by blast
    with step l recv_leaves [OF rd] show ?thesis
      by (cases "contains ?line CRLF") (auto intro: leaves_trans leaves_less)
  qed
qed

lemma extract_ends: "\<exists>ret' s'. extract_loop rcv ret s = Some (ret', s') \<and> leaves s s'"
proof (induction "left s" arbitrary: ret s rule: less_induct)
  case less
  obtain line s1 where l: "read_line_loop rcv [] s = Some (line, s1)" "leaves s s1"
      "line \<noteq> [] \<longrightarrow> left s1 < left s"
    using read_line_ends [of "[]" s] by blast
  show ?case
  proof (cases "line = []")
    case True
    then show ?thesis using l by (subst extract_loop.simps) (simp add: read_line_def)
  next
    case False
    with l have "left s1 < left s" by simp
    from less [OF this, of "put_header ret line"] obtain ret' s'
      where "extract_loop rcv (put_header ret line) s1 = Some (ret', s')" "leaves s1 s'" by blast
    then show ?thesis
      using l(1) leaves_trans [OF l(2)] False by (subst extract_loop.simps) (simp add: read_line_def)
  qed
qed

lemma recv_all_leaves: "recv_all rcv want got s = (r, s') \<Longrightarrow> leaves s s'"
proof (induction want arbitrary: got s rule: less_induct)
  case (less want)
  show ?case
  proof (cases "want = 0")
    case False
    obtain r1 d s1 where rd: "rcv want s = (r1, d, s1)" by (cases "rcv want s")
    with False less.prems have step: "(if r1 \<le> 0 then (None, s1) else recv_all rcv (want - nat r1) (got @ d) s1) = (r, s')"
      by (subst (asm) recv_all.simps) simp
    have "leaves s1 s'"
    proof (cases "r1 \<le> 0")
      case True
      with step show ?thesis by simp
    next
      case pos: False
      with False have "want - nat r1 < want" by simp
      from less.IH [OF this] step pos show ?thesis by simp
    qed
    then show ?thesis by (rule leaves_trans [OF recv_leaves [OF rd]])
  qed (use less.prems in simp)
qed

lemma read_length_leaves: "read_length rcv h s = (r, s') \<Longrightarrow> leaves s s'"
  by (auto simp: read_length_def Let_def split: if_splits prod.splits dest: recv_leaves)

lemma read_key_leaves: "read_key rcv h s = (r, s') \<Longrightarrow> leaves s s'"
  by (auto simp: read_key_def split: if_splits prod.splits dest: recv_leaves)

lemmas frame_leaves = recv_leaves read_length_leaves read_key_leaves recv_all_leaves

lemma read_frame_leaves: "read_frame mem rcv s = Inr (m, s') \<Longrightarrow> leaves s s'"
  by (auto simp: read_frame_def Let_def split: prod.splits if_splits option.splits sum.splits
      dest!: frame_leaves intro: leaves_trans)

lemma read_frame_less:
  assumes "read_frame mem rcv s = Inr (m, s')" and "m \<noteq> []"
  shows "left s' < left s"
proof -
  obtain header s1 s2 s3 len key payload
    where h: "rcv 2 s = (2, header, s1)" and l: "read_length rcv (header ! 1) s1 = (Some len, s2)"
      and k: "read_key rcv (header ! 1) s2 = (Some key, s3)"
      and p: "recv_all rcv (unat len) [] s3 = (Some payload, s')"
    using assms
    by (auto simp: read_frame_def Let_def split: prod.splits if_splits option.splits sum.splits)
  have "left s1 < left s" using recv_left [OF h] by simp
  with frame_leaves(2) [OF l] frame_leaves(3) [OF k] frame_leaves(4) [OF p] show ?thesis
    by (simp add: leaves_def)
qed

lemma echo_ends: "\<exists>r. echo_loop mem rcv client effs s = Some r \<and>
    (case r of Inl f \<Rightarrow> f \<in> {Length_Error, Bad_Alloc}
     | Inr (effs', s') \<Rightarrow> (\<exists>ms. effs' = effs @ map (Send client) ms) \<and> leaves s s')"
proof (induction "left s" arbitrary: effs s rule: less_induct)
  case less
  show ?case
  proof (cases "read_frame mem rcv s")
    case (Inl f)
    then show ?thesis using read_frame_fault [OF Inl]
      by (subst echo_loop.simps) (simp add: cppws_read_frame_eq)
  next
    case (Inr ms)
    obtain m s1 where ms: "ms = (m, s1)" by (cases ms)
    have l: "leaves s s1" using read_frame_leaves Inr ms by blast
    show ?thesis
    proof (cases "m = []")
      case True
      then show ?thesis using Inr ms l by (subst echo_loop.simps) (simp add: cppws_read_frame_eq)
    next
      case False
      let ?e = "Send client (cppws_send_frame m)"
      from False have "left s1 < left s" using read_frame_less Inr ms by blast
      from less [OF this, of "effs @ [?e]"] obtain r where r: "echo_loop mem rcv client (effs @ [?e]) s1 = Some r"
          "case r of Inl f \<Rightarrow> f \<in> {Length_Error, Bad_Alloc}
            | Inr (effs', s') \<Rightarrow> (\<exists>ms. effs' = (effs @ [?e]) @ map (Send client) ms) \<and> leaves s1 s'" by blast
      have "echo_loop mem rcv client effs s = Some r"
        using False Inr ms r(1) by (subst echo_loop.simps) (simp add: cppws_read_frame_eq)
      moreover have "\<exists>ms'. effs @ ?e # map (Send client) ms = effs @ map (Send client) ms'" for ms
        by (rule exI [of _ "cppws_send_frame m # ms"]) simp
      ultimately show ?thesis using r(2) leaves_trans [OF l] by (auto split: sum.splits)
    qed
  qed
qed

lemma serve_ends:
  assumes "length (Message_Block hmem) = 64"
  shows "\<exists>r. serve_client e hmem mem rcv sent_bytes client s = Some r \<and>
    (case r of Inl f \<Rightarrow> f \<in> {Length_Error, Bad_Alloc}
     | Inr (effs, s') \<Rightarrow> (\<exists>ms. effs = map (Send client) ms @ [Close client]) \<and> leaves s s')"
proof -
  obtain headers s1 where x: "extract_request rcv s = Some (headers, s1)" and l: "leaves s s1"
    using extract_ends [of "\<lambda>_. None" s] by (auto simp: extract_request_def)
  obtain r where r: "echo_server mem rcv client s1 = Some r"
      "case r of Inl f \<Rightarrow> f \<in> {Length_Error, Bad_Alloc}
        | Inr (effs, s') \<Rightarrow> (\<exists>ms. effs = map (Send client) ms) \<and> leaves s1 s'"
    using echo_ends [of mem client "[]" s1, unfolded append_Nil, folded echo_server_def] by blast
  obtain do_hs hs where h: "do_ws_handshake e hmem sent_bytes client headers = Inr (do_hs, map (Send client) hs)"
    using handshake_sends [OF assms] by blast
  have ms: "\<exists>ms'. map (Send client) hs @ map (Send client) ms @ [Close client]
      = map (Send client) ms' @ [Close client]" for ms
    by (rule exI [of _ "hs @ ms"]) simp
  show ?thesis
    using x r(1) h ms ms [of "[]"] r(2) l leaves_trans [OF l]
    by (auto simp: serve_client_def Let_def split: sum.splits)
qed

lemma clients_end:
  assumes "length (Message_Block hmem) = 64"
  shows "\<exists>r. serve_clients e hmem mem rcv server clients = Some r \<and>
    (case r of Inl f \<Rightarrow> f \<in> {Length_Error, Bad_Alloc}
     | Inr calls \<Rightarrow> \<exists>answers. length answers = length clients
         \<and> calls = concat (map2 (\<lambda>(client, _) ms. Sys_Accept server
              # map Sys_Net (map (Send client) ms @ [Close client])) clients answers))"
proof (induction clients)
  case (Cons c clients)
  obtain client sent_bytes s where c: "c = (client, sent_bytes, s)" by (cases c)
  obtain r where r: "serve_client e hmem mem rcv sent_bytes client s = Some r"
      "case r of Inl f \<Rightarrow> f \<in> {Length_Error, Bad_Alloc}
        | Inr (effs, s') \<Rightarrow> (\<exists>ms. effs = map (Send client) ms @ [Close client]) \<and> leaves s s'"
    using serve_ends [OF assms] by blast
  show ?case
  proof (cases r)
    case (Inl f)
    then show ?thesis using r by (simp add: c)
  next
    case (Inr a)
    obtain effs s' where a: "a = (effs, s')" by (cases a)
    from r(2) Inr a obtain ms where ms: "effs = map (Send client) ms @ [Close client]" by auto
    obtain r' where r': "serve_clients e hmem mem rcv server clients = Some r'"
        "case r' of Inl f \<Rightarrow> f \<in> {Length_Error, Bad_Alloc}
         | Inr calls \<Rightarrow> \<exists>answers. length answers = length clients
             \<and> calls = concat (map2 (\<lambda>(client, _) ms. Sys_Accept server
                  # map Sys_Net (map (Send client) ms @ [Close client])) clients answers)"
      using Cons.IH by blast
    show ?thesis
    proof (cases r')
      case (Inl f)
      then show ?thesis using r Inr a r' by (simp add: c)
    next
      case (Inr calls)
      with r'(2) obtain answers where "length answers = length clients"
          "calls = concat (map2 (\<lambda>(client, _) ms. Sys_Accept server
                  # map Sys_Net (map (Send client) ms @ [Close client])) clients answers)" by auto
      then show ?thesis using r(1) r'(1) \<open>r = Inr a\<close> Inr a ms
        by (simp add: c) (intro exI [of _ "ms # answers"], simp)
    qed
  qed
qed simp

end

text \<open>
  The sockets of \<open>Cpp_Socket\<close> run dry. Those whose input ends with the close of the peer never come
  to their end: every read on them has something to return, and none would block.
\<close>

fun rx_left :: "rx_event list \<Rightarrow> nat" where
  "rx_left [] = 0"
| "rx_left (Rx_Data d # es) = Suc (length d) + rx_left es"
| "rx_left (_ # es) = Suc (rx_left es)"

definition peer_closes :: "rx_event list \<Rightarrow> bool" where
  "peer_closes es \<longleftrightarrow> es \<noteq> [] \<and> last es = Rx_Close"

interpretation rx_dry: finite_source recv rx_left peer_closes
proof
  fix n :: nat and s r d s'
  assume "recv n s = (r, d, s')"
  then show "rx_left s' \<le> rx_left s \<and> (0 < r \<and> 0 < n \<longrightarrow> rx_left s' < rx_left s)"
    and "peer_closes s \<Longrightarrow> peer_closes s'"
    by (cases "(n, s)" rule: recv.cases; auto simp: peer_closes_def split: if_splits)+
qed

section \<open>A conversation\<close>

definition pieces :: "byte list list \<Rightarrow> bool" where
  "pieces ds \<longleftrightarrow> (\<forall>d \<in> set ds. d \<noteq> [])"

lemma recv_one:
  assumes "pieces ds" and "concat ds = b # bs"
  shows "\<exists>ds'. recv 1 (map Rx_Data ds @ es) = (1, [b], map Rx_Data ds' @ es) \<and> concat ds' = bs \<and> pieces ds'"
proof (cases ds)
  case Nil
  with assms show ?thesis by simp
next
  case (Cons d ds1)
  with assms obtain d' where d: "d = b # d'" by (cases d) (auto simp: pieces_def)
  show ?thesis
  proof (cases "d' = []")
    case True
    then show ?thesis using Cons d assms by (intro exI [of _ ds1]) (simp add: pieces_def)
  next
    case False
    then have "\<not> length d \<le> 1" by (simp add: d)
    then show ?thesis using Cons d False assms by (intro exI [of _ "d' # ds1"]) (simp add: pieces_def)
  qed
qed

lemma contains_crlf_clean: "clean l \<Longrightarrow> \<not> contains l CRLF"
  by (simp add: contains_def str_find_crlf_none)

lemma contains_crlf_end: "clean l \<Longrightarrow> contains (l @ CRLF) CRLF" and not_contains_cr: "clean l \<Longrightarrow> \<not> contains (l @ [CR]) CRLF"
proof -
  assume l: "clean l"
  then have l': "CR \<notin> set l" by (simp add: clean_def)
  show "contains (l @ CRLF) CRLF" using str_find_crlf_line [OF l, of "[]"] by (simp add: contains_def)
  show "\<not> contains (l @ [CR]) CRLF"
    using str_find_skip [OF l', of "[LF]" "[CR]"] by (simp add: contains_def)
qed

lemma read_line_text:
  assumes "clean (acc @ l)" and "pieces ds" and "concat ds = bytes_of (l @ CRLF) @ rest"
  shows "\<exists>ds'. read_line_loop recv acc (map Rx_Data ds @ es) = Some (acc @ l, map Rx_Data ds' @ es)
    \<and> concat ds' = rest \<and> pieces ds'"
  using assms
proof (induction l arbitrary: acc ds)
  case Nil
  have c: "concat ds = byte_of CR # byte_of LF # rest" using Nil(3) by (simp add: bytes_of_def)
  obtain ds1 where r1: "recv 1 (map Rx_Data ds @ es) = (1, [byte_of CR], map Rx_Data ds1 @ es)"
      "concat ds1 = byte_of LF # rest" "pieces ds1"
    using recv_one [OF Nil(2) c] by blast
  obtain ds2 where r2: "recv 1 (map Rx_Data ds1 @ es) = (1, [byte_of LF], map Rx_Data ds2 @ es)"
      "concat ds2 = rest" "pieces ds2"
    using recv_one [OF r1(3,2)] by blast
  have "read_line_loop recv acc (map Rx_Data ds @ es) = read_line_loop recv (acc @ [CR]) (map Rx_Data ds1 @ es)"
    using Nil(1) not_contains_cr [of acc] r1 by (subst read_line_loop.simps) (simp add: string_of_def)
  also have "\<dots> = Some (acc, map Rx_Data ds2 @ es)"
    using Nil(1) contains_crlf_end [of acc] r2 by (subst read_line_loop.simps) (simp add: string_of_def)
  finally show ?case using r2 by auto
next
  case (Cons c l)
  have cc: "concat ds = byte_of c # (bytes_of (l @ CRLF) @ rest)" using Cons.prems(3) by (simp add: bytes_of_def)
  obtain ds1 where r1: "recv 1 (map Rx_Data ds @ es) = (1, [byte_of c], map Rx_Data ds1 @ es)"
      "concat ds1 = bytes_of (l @ CRLF) @ rest" "pieces ds1"
    using recv_one [OF Cons.prems(2) cc] by blast
  have cl: "clean ((acc @ [c]) @ l)" using Cons.prems(1) by simp
  then have "\<not> contains (acc @ [c]) CRLF" by (intro contains_crlf_clean) (auto simp: clean_def)
  then have "read_line_loop recv acc (map Rx_Data ds @ es) = read_line_loop recv (acc @ [c]) (map Rx_Data ds1 @ es)"
    using r1 by (subst read_line_loop.simps) (simp add: string_of_def)
  with Cons.IH [OF cl r1(3,2)] show ?case by auto
qed

lemma extract_text:
  assumes "\<forall>l \<in> set ls. l \<noteq> [] \<and> clean l" and "pieces ds" and "concat ds = bytes_of (lines_text ls @ CRLF) @ rest"
  shows "\<exists>ds'. extract_loop recv m (map Rx_Data ds @ es) = Some (fold (\<lambda>l m. put_header m l) ls m, map Rx_Data ds' @ es)
    \<and> concat ds' = rest \<and> pieces ds'"
  using assms
proof (induction ls arbitrary: m ds)
  case Nil
  obtain ds' where "read_line_loop recv [] (map Rx_Data ds @ es) = Some ([], map Rx_Data ds' @ es)"
      "concat ds' = rest" "pieces ds'"
    using read_line_text [of "[]" "[]" ds rest es] Nil by (auto simp: lines_text_def clean_def)
  then show ?case by (subst extract_loop.simps) (auto simp: read_line_def)
next
  case (Cons l ls)
  obtain ds1 where r: "read_line_loop recv [] (map Rx_Data ds @ es) = Some (l, map Rx_Data ds1 @ es)"
      "concat ds1 = bytes_of (lines_text ls @ CRLF) @ rest" "pieces ds1"
    using read_line_text [of "[]" l ds "bytes_of (lines_text ls @ CRLF) @ rest" es] Cons.prems
    by (auto simp: lines_text_def bytes_of_def)
  have "extract_loop recv m (map Rx_Data ds @ es) = extract_loop recv (put_header m l) (map Rx_Data ds1 @ es)"
    using r Cons.prems(1) by (subst extract_loop.simps) (simp add: read_line_def)
  with Cons.IH [OF _ r(3,2), of "put_header m l"] Cons.prems(1) show ?case by auto
qed

lemma pieces_empty: "pieces ds \<Longrightarrow> concat ds = [] \<Longrightarrow> ds = []"
  by (cases ds) (auto simp: pieces_def)

text \<open>The lines of a request and the fields that are found in them.\<close>

definition field_ok :: "string \<times> string \<Rightarrow> bool" where
  "field_ok kv \<longleftrightarrow> clean (fst kv) \<and> clean (snd kv) \<and> plain_name (fst kv) \<and> fst kv \<noteq> ''NOTHING''"

lemma split_by_header_line: "plain_name (fst kv) \<Longrightarrow> split_by (header_line kv) '': '' = kv"
  using str_find_skip [of "CHR '':''" "fst kv" "'' ''" "'': '' @ snd kv"]
  by (cases kv) (simp add: split_by_def header_line_def plain_name_def)

lemma put_header_line: "field_ok kv \<Longrightarrow> put_header m (header_line kv) = m(fst kv \<mapsto> snd kv)"
  by (simp add: put_header_def split_by_header_line field_ok_def)

lemma put_no_header: "\<not> contains l '': '' \<Longrightarrow> put_header m l = m"
  by (simp add: put_header_def split_by_def contains_def)

lemma fold_put_headers:
  "\<forall>kv \<in> set kvs. field_ok kv \<Longrightarrow>
     fold (\<lambda>l m. put_header m l) (map header_line kvs) m = m ++ map_of (rev kvs)"
proof (induction kvs arbitrary: m)
  case (Cons kv kvs)
  then show ?case by (cases kv) (simp add: put_header_line)
qed simp

text \<open>
  A text frame with the payload \<open>p\<close>, masked or not, that arrives as the segments \<open>ds\<close>: its head is in
  the first of them.
\<close>

definition arrives :: "nat \<Rightarrow> byte list list \<Rightarrow> byte list \<Rightarrow> bool" where
  "arrives mem ds p \<longleftrightarrow>
     (\<exists>h0 key. (\<forall>k. key = Some k \<longrightarrow> length k = 4) \<and> unat h0 mod 16 = 1 \<and> ds \<noteq> [] \<and> pieces ds
        \<and> concat ds = ws_frame h0 key p \<and> length (frame_head h0 key (length p)) \<le> length (hd ds)
        \<and> length p \<le> mem \<and> length p \<le> vector_max)"

lemma read_arrived:
  assumes "arrives mem ds p"
  shows "read_frame mem recv (map Rx_Data ds @ es) = Inr (string_of p, es)"
proof -
  from assms obtain h0 key where a: "\<forall>k. key = Some k \<longrightarrow> length k = 4" "unat h0 mod 16 = 1" "ds \<noteq> []"
      "pieces ds" "concat ds = ws_frame h0 key p" "length (frame_head h0 key (length p)) \<le> length (hd ds)"
      "length p \<le> mem" "length p \<le> vector_max"
    unfolding arrives_def by blast
  obtain d0 ds1 where d: "ds = d0 # ds1" using a(3) by (cases ds) auto
  have "d0 @ concat ds1 = ws_frame h0 key p @ []" "\<forall>d \<in> set ds1. d \<noteq> []"
    "length (frame_head h0 key (length p)) \<le> length d0" "\<And>k. key = Some k \<Longrightarrow> length k = 4"
    using a by (simp_all add: pieces_def d)
  from read_frame_of_frame [where key = key, OF this(4) a(2,7,8) this(1-3), of es]
  show ?thesis using d pieces_empty by (auto simp: pieces_def)
qed

lemma echo_frames:
  assumes "\<forall>(ds, p) \<in> set frames. arrives mem ds p \<and> p \<noteq> []"
  shows "echo_loop mem recv client effs (map Rx_Data (concat (map fst frames)) @ [Rx_Close])
    = Some (Inr (effs @ map (\<lambda>(ds, p). Send client (ws_frame 0x81 None p)) frames, [Rx_Close]))"
  using assms
proof (induction frames arbitrary: effs)
  case Nil
  then show ?case by (subst echo_loop.simps) (simp add: cppws_read_frame_eq read_frame_def)
next
  case (Cons f frames)
  obtain ds p where f: "f = (ds, p)" by (cases f)
  with Cons.prems have a: "arrives mem ds p" and ne: "p \<noteq> []" by auto
  have "string_of p \<noteq> []" using ne by (simp add: string_of_def)
  have len: "length (string_of p) < 2 ^ 64" using a by (auto simp: arrives_def vector_max_def)
  have "read_frame mem recv (map Rx_Data (concat (map fst (f # frames))) @ [Rx_Close])
      = Inr (string_of p, map Rx_Data (concat (map fst frames)) @ [Rx_Close])"
    using read_arrived [OF a] by (simp add: f)
  then have "echo_loop mem recv client effs (map Rx_Data (concat (map fst (f # frames))) @ [Rx_Close])
      = echo_loop mem recv client (effs @ [Send client (ws_frame 0x81 None p)])
          (map Rx_Data (concat (map fst frames)) @ [Rx_Close])"
    using \<open>string_of p \<noteq> []\<close> send_frame_ws [OF len]
    by (subst echo_loop.simps) (simp add: cppws_read_frame_eq cppws_send_frame_eq)
  then show ?case using Cons.IH Cons.prems by (simp add: f)
qed

section \<open>Properties\<close>

text \<open>
  C38: A conversation with the echo server: a client sends a request whose header fields have a key,
  cut into any segments, then text frames, masked or not, each cut anywhere after its head, and
  closes. The server answers 101 with the accept value for the key, sends every message back in one
  frame, in order, and closes the connection.
\<close>

theorem echo_conversation:
  assumes "clean request_line" and "request_line \<noteq> []" and "\<not> contains request_line '': ''"
    and "\<forall>kv \<in> set kvs. field_ok kv" and "map_of (rev kvs) ''Sec-WebSocket-Key'' = Some key"
    and "key \<noteq> []" and "length key < 2 ^ 32 - 36" and "length (Message_Block hmem) = 64" and "0 \<le> sent_bytes"
    and "pieces ds" and "concat ds = bytes_of (lines_text (request_line # map header_line kvs) @ CRLF)"
    and "\<forall>(ds, p) \<in> set frames. arrives mem ds p \<and> p \<noteq> []"
  shows "serve_client e hmem mem recv sent_bytes client
           (map Rx_Data (ds @ concat (map fst frames)) @ [Rx_Close])
    = Some (Inr (Send client (bytes_of (handshake_response (accept_key key)))
        # map (\<lambda>(ds, p). Send client (ws_frame 0x81 None p)) frames @ [Close client], [Rx_Close]))"
proof -
  let ?rest = "map Rx_Data (concat (map fst frames)) @ [Rx_Close]"
  have "\<forall>l \<in> set (request_line # map header_line kvs). l \<noteq> [] \<and> clean l"
    using assms(1,2,4) header_line_clean by (auto simp: field_ok_def)
  from extract_text [OF this assms(10), of "[]" "\<lambda>_. None" ?rest] assms(11)
  have x: "extract_request recv (map Rx_Data ds @ ?rest)
      = Some (map_of (rev kvs), ?rest)"
    using fold_put_headers [OF assms(4)] put_no_header [OF assms(3)] pieces_empty
    by (auto simp: extract_request_def)
  have "get_accept_key e hmem key = Inr (accept_key key)" by (rule get_accept_key_eq [OF assms(8,7)])
  then show ?thesis
    using x echo_frames [OF assms(12), of client "[]"] assms(5,6,9)
    by (simp add: serve_client_def do_ws_handshake_eq echo_server_def)
qed

text \<open>
  The example key of RFC 6455 in a request that is cut in two, then the masked frame ``Hello'' of the
  same document, cut after its head.
\<close>

definition sample_fields :: "(string \<times> string) list" where
  "sample_fields = [(''Host'', ''localhost:9000''), (''Sec-WebSocket-Key'', ''dGhlIHNhbXBsZSBub25jZQ=='')]"

definition sample_request :: "byte list" where
  "sample_request = bytes_of (lines_text (''GET /chat HTTP/1.1'' # map header_line sample_fields) @ CRLF)"

definition sample_hello :: "byte list list" where
  "sample_hello = [[0x81, 0x85, 0x37, 0xfa, 0x21, 0x3d, 0x7f, 0x9f], [0x4d, 0x51, 0x58]]"

lemma sample_hello_arrives: "arrives 1000 sample_hello (bytes_of ''Hello'')"
proof -
  have "concat sample_hello = ws_frame 0x81 (Some [0x37, 0xfa, 0x21, 0x3d]) (bytes_of ''Hello'')"
    and "length (frame_head 0x81 (Some [0x37, 0xfa, 0x21, 0x3d]) (length (bytes_of ''Hello''))) \<le> length (hd sample_hello)"
    unfolding sample_hello_def by code_simp+
  then show ?thesis
    unfolding arrives_def
    by (intro exI [of _ "0x81"] exI [of _ "Some [0x37, 0xfa, 0x21, 0x3d]"])
      (simp add: sample_hello_def pieces_def vector_max_def)
qed

theorem echo_conversation_witness:
  "serve_client Little_Endian zero_mem 1000 recv 129 4
     (map Rx_Data ([take 20 sample_request, drop 20 sample_request] @ sample_hello) @ [Rx_Close])
   = Some (Inr ([Send 4 (bytes_of (handshake_response ''s3pPLMBiTxaQ9kYGzzhZRbK+xOo='')),
       Send 4 [0x81, 5, 72, 101, 108, 108, 111], Close 4], [Rx_Close]))"
proof -
  have len: "20 < length sample_request"
    by (simp add: sample_request_def lines_text_def)
  have p: "pieces [take 20 sample_request, drop 20 sample_request]" using len by (auto simp: pieces_def)
  have h: "ws_frame 0x81 None (bytes_of ''Hello'') = [0x81, 5, 72, 101, 108, 108, 111]" by code_simp
  have f: "\<forall>kv \<in> set sample_fields. field_ok kv" by code_simp
  have c: "\<not> contains ''GET /chat HTTP/1.1'' '': ''" by code_simp
  have k: "map_of (rev sample_fields) ''Sec-WebSocket-Key'' = Some ''dGhlIHNhbXBsZSBub25jZQ==''" by code_simp
  have "concat [take 20 sample_request, drop 20 sample_request] = sample_request" by simp
  then have cat: "concat [take 20 sample_request, drop 20 sample_request]
      = bytes_of (lines_text (''GET /chat HTTP/1.1'' # map header_line sample_fields) @ CRLF)"
    by (rule trans) (rule sample_request_def)
  have a: "\<forall>(ds, p) \<in> set [(sample_hello, bytes_of ''Hello'')]. arrives 1000 ds p \<and> p \<noteq> []"
    using sample_hello_arrives by (simp add: bytes_of_def)
  show ?thesis
    using echo_conversation [OF _ _ c f k _ _ _ _ p cat a, of zero_mem 129 Little_Endian 4]
    by (simp add: clean_def accept_key_sample h)
qed

text \<open>
  C39: A client whose connection ends does not hold the server: when the input of every client ends
  with the close of its side, the loop over the clients returns. Either an allocation for the length
  that a frame announces threw, which ends the process, or every client was accepted, got some sends
  and one close of its connection, one client after the other. No client's socket was read past the
  close, so that no read could block.
\<close>

theorem every_client_ends:
  assumes "length (Message_Block hmem) = 64" and "\<forall>(client, sent_bytes, es) \<in> set clients. peer_closes es"
  shows "(\<exists>r. serve_clients e hmem mem recv server clients = Some r \<and>
    (case r of Inl f \<Rightarrow> f \<in> {Length_Error, Bad_Alloc}
     | Inr calls \<Rightarrow> \<exists>answers. length answers = length clients
         \<and> calls = concat (map2 (\<lambda>(client, _) ms. Sys_Accept server
              # map Sys_Net (map (Send client) ms @ [Close client])) clients answers)))
    \<and> (\<forall>(client, sent_bytes, es) \<in> set clients. \<forall>effs es'.
        serve_client e hmem mem recv sent_bytes client es = Some (Inr (effs, es')) \<longrightarrow> peer_closes es')"
proof
  have "peer_closes es'" if "serve_client e hmem mem recv sent_bytes client es = Some (Inr (effs, es'))"
    and "peer_closes es" for client sent_bytes es effs es'
    using rx_dry.serve_ends [OF assms(1), of e mem sent_bytes client es] that by (simp add: rx_dry.leaves_def)
  then show "\<forall>(client, sent_bytes, es) \<in> set clients. \<forall>effs es'.
      serve_client e hmem mem recv sent_bytes client es = Some (Inr (effs, es')) \<longrightarrow> peer_closes es'"
    using assms(2) by blast
qed (rule rx_dry.clients_end [OF assms(1)])

text \<open>
  The sample conversation, a client that asks for no key, one that breaks off within a line, and one
  whose frame announces more bytes than there is memory for.
\<close>

definition sample_clients :: "(int \<times> int \<times> rx_event list) list" where
  "sample_clients =
     [(4, 129, map Rx_Data (sample_request # sample_hello) @ [Rx_Close]),
      (5, 0, [Rx_Data (bytes_of (''GET / HTTP/1.1'' @ CRLF @ CRLF)), Rx_Close]),
      (6, 0, [Rx_Data (bytes_of ''GET''), Rx_Close]),
      (7, 129, [Rx_Data sample_request, Rx_Data [0x81, 127, 0, 0, 0, 1, 0, 0, 0, 0], Rx_Close])]"

theorem every_client_ends_witness:
  "\<exists>r. serve_clients Little_Endian zero_mem 1000 recv 3 sample_clients = Some r \<and>
    (case r of Inl f \<Rightarrow> f \<in> {Length_Error, Bad_Alloc}
     | Inr calls \<Rightarrow> \<exists>answers. length answers = length sample_clients
         \<and> calls = concat (map2 (\<lambda>(client, _) ms. Sys_Accept 3
              # map Sys_Net (map (Send client) ms @ [Close client])) sample_clients answers))"
proof -
  have "length (Message_Block zero_mem) = 64" by simp
  moreover have "\<forall>(client, sent_bytes, es) \<in> set sample_clients. peer_closes es"
    by (simp add: sample_clients_def peer_closes_def)
  ultimately show ?thesis by (rule conjunct1 [OF every_client_ends])
qed

end
