(* ===== verification/Ns_Ws_Race.thy ===== *)
theory Ns_Ws_Race
  imports Ns_Websocket
begin

text \<open>
  The two threads of the older WebSocket server
  (src/websocket/simple_server_websocket_connection.cpp): the background thread, which runs
  \<open>check_and_notify_events\<close>, and the threads that add a socket. They share the vectors \<open>poll_fds\<close> and
  \<open>web_sockect_connections\<close>; the mutex is locked by \<open>add_socket_to_the_list\<close> alone. A vector moves to
  new storage when it is full, and its old storage is freed: every access through a pointer into
  freed storage is undefined. The steps of the two sides are small enough to fall between each other
  as the code lets them; what C++ says of unsynchronised accesses beyond that is not modelled.
\<close>

section \<open>Vectors and the two threads\<close>

record 'a cpp_vector =
  items :: "'a list"
  storage :: nat        \<comment> \<open>which allocation the elements are in\<close>
  capacity :: nat

text \<open>\<open>push_back\<close>: \<open>grow n\<close> is the capacity of the storage that a full vector of \<open>n\<close> elements moves to.\<close>

definition push_back :: "(nat \<Rightarrow> nat) \<Rightarrow> 'a \<Rightarrow> 'a cpp_vector \<Rightarrow> 'a cpp_vector" where
  "push_back grow x v =
     (if length (items v) < capacity v then v\<lparr>items := items v @ [x]\<rparr>
      else \<lparr>items = items v @ [x], storage = storage v + 1, capacity = grow (length (items v))\<rparr>)"

definition empty_vector :: "'a cpp_vector" where
  "empty_vector = \<lparr>items = [], storage = 0, capacity = 0\<rparr>"

text \<open>
  Where the background thread is: before \<open>poll\<close>; in \<open>poll\<close>, with the pointer and the size it passed;
  at entry \<open>i\<close> of the loop over the entries; at this entry before the \<open>k\<close>-th of the \<open>e\<close> connections
  between the iterators it took from the storage \<open>h\<close>; out of the loop.
\<close>

datatype ws_pc = At_Poll | In_Poll nat nat | Scan nat | Notify nat nat nat nat | Ended

record 'w race_state =
  r_efd :: int
  r_fds :: "pollfd cpp_vector"
  r_cons :: "websocket_connection cpp_vector"
  r_counter :: u32
  r_signals :: nat
  adding :: "int option"    \<comment> \<open>the mutex is locked, and this socket is in \<open>poll_fds\<close> already\<close>
  r_pc :: ws_pc
  r_world :: 'w

text \<open>After the constructor of the manager, when the thread has been started.\<close>

definition race_init :: "(nat \<Rightarrow> nat) \<Rightarrow> int \<Rightarrow> 'w \<Rightarrow> 'w race_state" where
  "race_init grow efd w =
     \<lparr>r_efd = efd, r_fds = push_back grow \<lparr>pfd = efd, events = POLLIN, revents = 0\<rparr> empty_vector,
      r_cons = empty_vector, r_counter = 0, r_signals = 0, adding = None, r_pc = At_Poll, r_world = w\<rparr>"

section \<open>The steps\<close>

text \<open>
  A step of the background thread. \<open>answer\<close> is what \<open>poll\<close> reports when it returns, \<open>None\<close> a failure;
  the kernel writes the events into the array it was given. \<open>rd\<close> is the read from a descriptor.
\<close>

definition notify_one ::
  "(int \<Rightarrow> 'w recv_fun) \<Rightarrow> (int \<Rightarrow> 'w recv_fun) \<Rightarrow> nat \<Rightarrow> int \<Rightarrow> int \<Rightarrow> websocket_connection \<Rightarrow> 'w \<Rightarrow>
     (net_effect list \<times> 'w) result" where
  "notify_one rd rcv maxmem junk sock it w =
     (if con_fd it = sock then
        (case rd sock 1024 w of (bytes_read, _, w) \<Rightarrow>
           if bytes_read + 1 \<ge> 1024 then Inl Undefined_Behaviour
           else if on_message_received it \<noteq> None then conn_call maxmem (rcv sock) junk it w
           else Inr ([], w))
      else Inr ([], w))"

definition thread_step ::
  "(int \<Rightarrow> 'w recv_fun) \<Rightarrow> (int \<Rightarrow> 'w recv_fun) \<Rightarrow> nat \<Rightarrow> int \<Rightarrow> (nat \<Rightarrow> 16 word) option \<Rightarrow>
     'w race_state \<Rightarrow> (net_effect list \<times> 'w race_state) result" where
  "thread_step rd rcv maxmem junk answer s =
     (let fds = items (r_fds s); cons = items (r_cons s) in
      case r_pc s of
        At_Poll \<Rightarrow> Inr ([], s\<lparr>r_pc := In_Poll (storage (r_fds s)) (length fds)\<rparr>)
      | In_Poll g n \<Rightarrow>
          (case answer of
             None \<Rightarrow> Inr ([], s\<lparr>r_pc := Ended\<rparr>)
           | Some rs \<Rightarrow>
               if g \<noteq> storage (r_fds s) then Inl Undefined_Behaviour
               else Inr ([], s\<lparr>r_fds := (r_fds s)\<lparr>items := poll_answer rs (take n fds) @ drop n fds\<rparr>,
                                r_pc := Scan 0\<rparr>))
      | Scan i \<Rightarrow>
          if i < length fds then
            (if revents (fds ! i) AND POLLIN \<noteq> 0
             then Inr ([], s\<lparr>r_pc := Notify i (storage (r_cons s)) 0 (length cons)\<rparr>)
             else if revents (fds ! i) AND POLLERR \<noteq> 0 then Inr ([], s\<lparr>r_pc := Scan (i + 1)\<rparr>)
             else if revents (fds ! i) AND POLLHUP \<noteq> 0
             then Inr ([Close (pfd (fds ! i))],
                       s\<lparr>r_fds := (r_fds s)\<lparr>items := take i fds @ drop (i + 1) fds\<rparr>\<rparr>)
             else Inr ([], s\<lparr>r_pc := Scan (i + 1)\<rparr>))
          else Inr ([], s\<lparr>r_pc := At_Poll\<rparr>)
      | Notify i h k e \<Rightarrow>
          if k < e then
            (if h \<noteq> storage (r_cons s) then Inl Undefined_Behaviour
             else rbind (notify_one rd rcv maxmem junk (pfd (fds ! i)) (cons ! k) (r_world s)) (\<lambda>(effs, w).
                    Inr (effs, s\<lparr>r_world := w, r_pc := Notify i h (k + 1) e\<rparr>)))
          else Inr ([], s\<lparr>r_pc := Scan (i + 1)\<rparr>)
      | Ended \<Rightarrow> Inr ([], s))"

text \<open>
  \<open>add_socket_to_the_list\<close>, in two steps, under the lock: the entry, then the connection and the
  signal. \<open>None\<close>: the step has to wait.
\<close>

definition add_entry :: "(nat \<Rightarrow> nat) \<Rightarrow> int \<Rightarrow> 'w race_state \<Rightarrow> 'w race_state option" where
  "add_entry grow sock s =
     (if adding s = None
      then Some (s\<lparr>r_fds := push_back grow \<lparr>pfd = sock, events = POLLIN, revents = 0\<rparr> (r_fds s),
                   adding := Some sock\<rparr>)
      else None)"

definition add_connection :: "(nat \<Rightarrow> nat) \<Rightarrow> 'w race_state \<Rightarrow> 'w race_state option" where
  "add_connection grow s =
     (case adding s of
        None \<Rightarrow> None
      | Some sock \<Rightarrow>
          (case websocket_connection_new sock (r_counter s) of (con, gc) \<Rightarrow>
             Some (s\<lparr>r_cons := push_back grow con (r_cons s), r_counter := gc,
                     r_signals := r_signals s + 1, adding := None\<rparr>)))"

text \<open>
  What the runs depend on: the growth of vectors, the reads from a descriptor (\<open>read\<close> and \<open>recv\<close>), the
  memory for a frame and the member of a message that is never written.
\<close>

record 'w race_env =
  vec_grow :: "nat \<Rightarrow> nat"
  sock_read :: "int \<Rightarrow> 'w recv_fun"
  sock_recv :: "int \<Rightarrow> 'w recv_fun"
  frame_memory :: nat
  type_junk :: int

datatype race_action = Thread "(nat \<Rightarrow> 16 word) option" | Add_Entry int | Add_Connection

fun race_step ::
  "'w race_env \<Rightarrow> race_action \<Rightarrow> 'w race_state \<Rightarrow> (net_effect list \<times> 'w race_state) result option" where
  "race_step E (Thread answer) s = Some (thread_step (sock_read E) (sock_recv E) (frame_memory E) (type_junk E) answer s)"
| "race_step E (Add_Entry sock) s = map_option (\<lambda>s. Inr ([], s)) (add_entry (vec_grow E) sock s)"
| "race_step E Add_Connection s = map_option (\<lambda>s. Inr ([], s)) (add_connection (vec_grow E) s)"

text \<open>A run: the steps that were taken, in order; a fault ends the process.\<close>

fun race_run ::
  "'w race_env \<Rightarrow> race_action list \<Rightarrow> 'w race_state \<Rightarrow> (net_effect list \<times> 'w race_state) result option" where
  "race_run E [] s = Some (Inr ([], s))"
| "race_run E (a # as) s =
     (case race_step E a s of
        None \<Rightarrow> None
      | Some (Inl f) \<Rightarrow> Some (Inl f)
      | Some (Inr (effs, s)) \<Rightarrow>
          map_option (\<lambda>r. rbind r (\<lambda>(effs', s). Inr (effs @ effs', s))) (race_run E as s))"

lemma race_run_step:
  "race_step E a s = Some (Inr (effs, s1)) \<Longrightarrow> race_run E as s1 = Some (Inr (effs', s2)) \<Longrightarrow>
     race_run E (a # as) s = Some (Inr (effs @ effs', s2))"
  by simp

lemma race_run_step_fault:
  "race_step E a s = Some (Inr (effs, s1)) \<Longrightarrow> race_run E as s1 = Some (Inl f) \<Longrightarrow>
     race_run E (a # as) s = Some (Inl f)"
  by simp

lemma race_run_append:
  "race_run E as s = Some (Inr (effs, s1)) \<Longrightarrow> race_run E (as @ bs) s =
     map_option (\<lambda>r. rbind r (\<lambda>(effs', s). Inr (effs @ effs', s))) (race_run E bs s1)"
proof (induction as arbitrary: s effs)
  case Nil
  then show ?case by (cases "race_run E bs s1") (auto simp: case_prod_beta)
next
  case (Cons a as)
  from Cons.prems obtain e1 s' e2 where a: "race_step E a s = Some (Inr (e1, s'))"
      and as: "race_run E as s' = Some (Inr (e2, s1))" and effs: "effs = e1 @ e2"
    by (auto simp: rbind_Inr_iff split: option.splits sum.splits prod.splits)
  have "rbind (rbind r (\<lambda>(x, s). Inr (e2 @ x, s))) (\<lambda>(x, s). Inr (e1 @ x, s)) = rbind r (\<lambda>(x, s). Inr (effs @ x, s))"
    for r :: "(net_effect list \<times> 'a race_state) result"
    by (cases r) (auto simp: effs)
  then show ?case using Cons.IH [OF as] a by (cases "race_run E bs s1") simp_all
qed

lemma race_run_append_None: "race_run E as s = None \<Longrightarrow> race_run E (as @ bs) s = None"
  by (induction as arbitrary: s) (auto split: option.splits sum.splits prod.splits)

lemma race_run_append_fault: "race_run E as s = Some (Inl f) \<Longrightarrow> race_run E (as @ bs) s = Some (Inl f)"
proof (induction as arbitrary: s)
  case (Cons a as)
  then show ?case by (auto simp: rbind_Inl_iff split: option.splits sum.splits prod.splits)
qed simp

section \<open>A socket that is added while the thread waits\<close>

definition others_only :: "race_action list \<Rightarrow> bool" where
  "others_only as \<longleftrightarrow> (\<forall>a \<in> set as. \<forall>answer. a \<noteq> Thread answer)"

lemma storage_push_back: "storage v \<le> storage (push_back gr x v)"
  by (simp add: push_back_def)

lemma add_entry_waiting:
  "add_entry gr sock s = Some s1 \<Longrightarrow> r_pc s1 = r_pc s \<and> storage (r_fds s) \<le> storage (r_fds s1)"
  by (auto simp: add_entry_def storage_push_back split: if_splits)

lemma add_connection_waiting:
  "add_connection gr s = Some s1 \<Longrightarrow> r_pc s1 = r_pc s \<and> storage (r_fds s) \<le> storage (r_fds s1)"
  by (auto simp: add_connection_def split: option.splits prod.splits)

lemma others_step:
  assumes "race_step E a s = Some x" and "\<forall>answer. a \<noteq> Thread answer"
  shows "\<exists>s1. x = Inr ([], s1) \<and> r_pc s1 = r_pc s \<and> storage (r_fds s) \<le> storage (r_fds s1)"
proof (cases a)
  case (Add_Entry sock)
  with assms obtain s1 where "add_entry (vec_grow E) sock s = Some s1" "x = Inr ([], s1)" by auto
  then show ?thesis using add_entry_waiting by blast
next
  case Add_Connection
  with assms obtain s1 where "add_connection (vec_grow E) s = Some s1" "x = Inr ([], s1)" by auto
  then show ?thesis using add_connection_waiting by blast
qed (use assms in blast)

lemma others_keep_waiting:
  assumes "others_only as" and "race_run E as s = Some r"
  shows "\<exists>s'. r = Inr ([], s') \<and> r_pc s' = r_pc s \<and> storage (r_fds s) \<le> storage (r_fds s')"
  using assms
proof (induction as arbitrary: s r)
  case (Cons a as)
  then obtain x where x: "race_step E a s = Some x" by (auto split: option.splits)
  with Cons.prems obtain s1 where a: "x = Inr ([], s1)"
      and s1: "r_pc s1 = r_pc s" "storage (r_fds s) \<le> storage (r_fds s1)"
    using others_step [OF x] by (auto simp: others_only_def)
  obtain r' where r': "race_run E as s1 = Some r'" "r = rbind r' (\<lambda>(effs', s). Inr (effs', s))"
    using Cons.prems(2) x a by auto
  have "others_only as" using Cons.prems(1) by (simp add: others_only_def)
  from Cons.IH [OF this r'(1)] r'(2) s1 show ?case by fastforce
qed auto

lemma freed_while_waiting:
  assumes "r_pc s = In_Poll g n" and "g < storage (r_fds s)" and "others_only as"
  shows "race_run E (as @ [Thread (Some rs)]) s \<in> {None, Some (Inl Undefined_Behaviour)}"
proof (cases "race_run E as s")
  case None
  then show ?thesis using race_run_append_None by auto
next
  case (Some r)
  from others_keep_waiting [OF assms(3) Some] obtain s'
    where r: "r = Inr ([], s')" and s': "r_pc s' = In_Poll g n" "g < storage (r_fds s')"
    using assms(1,2) by auto
  show ?thesis using race_run_append [of E as s "[]" s'] Some r s' by (simp add: thread_step_def)
qed

section \<open>Every interleaving\<close>

text \<open>The sockets that were entered by a run.\<close>

definition entered :: "race_action list \<Rightarrow> int list" where
  "entered as = concat (map (\<lambda>a. case a of Add_Entry sock \<Rightarrow> [sock] | _ \<Rightarrow> []) as)"

lemma entered_Cons: "entered (a # as) = entered [a] @ entered as"
  by (simp add: entered_def)

definition fd_list :: "'w race_state \<Rightarrow> int list" where
  "fd_list s = map pfd (items (r_fds s))"

definition con_list :: "'w race_state \<Rightarrow> int list" where
  "con_list s = map con_fd (items (r_cons s)) @ (case adding s of None \<Rightarrow> [] | Some sock \<Rightarrow> [sock])"

lemma items_push_back [simp]: "items (push_back gr x v) = items v @ [x]"
  by (simp add: push_back_def)

lemma notify_one_silent: "notify_one rd' rcv' mx jk sock it w = Inr (effs, w') \<Longrightarrow> effs = []"
  using conn_call_silent by (fastforce simp: notify_one_def split: if_splits prod.splits)

lemma thread_step_fds:
  assumes "thread_step rd' rcv' mx jk answer s = Inr (effs, s')"
  shows "\<exists>closed. effs = map Close closed \<and> mset (fd_list s') + mset closed = mset (fd_list s)
    \<and> con_list s' = con_list s"
proof (cases "r_pc s")
  case (In_Poll g n)
  let ?fds = "items (r_fds s)"
  have keep: "map pfd (poll_answer rs (take n ?fds)) @ map pfd (drop n ?fds) = map pfd ?fds" for rs
    unfolding map_pfd_poll_answer by (simp flip: map_append)
  have "fd_list s' = fd_list s \<and> effs = [] \<and> con_list s' = con_list s"
    using assms In_Poll keep
    by (auto simp: thread_step_def fd_list_def con_list_def Let_def split: option.splits if_splits)
  then show ?thesis by (intro exI [of _ "[]"]) simp
next
  case (Scan i)
  let ?fds = "items (r_fds s)"
  show ?thesis
  proof (cases "i < length ?fds \<and> hung_up (?fds ! i)")
    case True
    then have "?fds = take i ?fds @ ?fds ! i # drop (i + 1) ?fds" by (simp add: id_take_nth_drop)
    then have "mset (map pfd ?fds) = mset (map pfd (take i ?fds @ drop (i + 1) ?fds)) + {#pfd (?fds ! i)#}"
      by (metis add_mset_add_single list.simps(9) map_append mset.simps(2) mset_append union_mset_add_mset_right)
    then show ?thesis
      using assms Scan True
      by (intro exI [of _ "[pfd (?fds ! i)]"])
        (auto simp: thread_step_def fd_list_def con_list_def hung_up_def Let_def)
  next
    case False
    then show ?thesis
      using assms Scan
      by (intro exI [of _ "[]"])
        (auto simp: thread_step_def fd_list_def con_list_def hung_up_def Let_def split: if_splits)
  qed
next
  case (Notify i h k e)
  then show ?thesis
    using assms notify_one_silent
    by (intro exI [of _ "[]"])
      (fastforce simp: thread_step_def fd_list_def con_list_def Let_def rbind_Inr_iff split: if_splits)
qed (use assms in \<open>auto simp: thread_step_def fd_list_def con_list_def\<close>)

lemma race_step_fds:
  assumes "race_step E a s = Some (Inr (effs, s'))"
  shows "\<exists>closed. effs = map Close closed \<and> mset (fd_list s') + mset closed = mset (fd_list s) + mset (entered [a])
    \<and> con_list s' = con_list s @ entered [a]"
proof (cases a)
  case (Thread answer)
  then show ?thesis using assms thread_step_fds by (fastforce simp: entered_def)
next
  case (Add_Entry sock)
  then show ?thesis
    using assms by (auto simp: entered_def add_entry_def fd_list_def con_list_def split: if_splits)
next
  case Add_Connection
  then show ?thesis
    using assms
    by (auto simp: entered_def add_connection_def websocket_connection_new_def fd_list_def con_list_def Let_def
        split: option.splits)
qed

lemma race_run_fds:
  assumes "race_run E as s = Some (Inr (effs, s'))"
  shows "\<exists>closed. effs = map Close closed \<and> mset (fd_list s') + mset closed = mset (fd_list s) + mset (entered as)
    \<and> con_list s' = con_list s @ entered as"
  using assms
proof (induction as arbitrary: s effs)
  case Nil
  then show ?case by (simp add: entered_def)
next
  case (Cons a as)
  from Cons.prems obtain e1 s1 e2 where a: "race_step E a s = Some (Inr (e1, s1))"
      and as: "race_run E as s1 = Some (Inr (e2, s'))" and effs: "effs = e1 @ e2"
    by (auto simp: rbind_Inr_iff split: option.splits sum.splits prod.splits)
  from race_step_fds [OF a] obtain c1 where c1: "e1 = map Close c1"
      "mset (fd_list s1) + mset c1 = mset (fd_list s) + mset (entered [a])" "con_list s1 = con_list s @ entered [a]" by blast
  from Cons.IH [OF as] obtain c2 where c2: "e2 = map Close c2"
      "mset (fd_list s') + mset c2 = mset (fd_list s1) + mset (entered as)" "con_list s' = con_list s1 @ entered as" by blast
  have "mset (fd_list s') + mset (c1 @ c2) = mset (fd_list s) + mset (entered (a # as))"
    using c1(2) c2(2) by (simp add: entered_Cons [of a as] ac_simps)
  then show ?case
    using effs c1(1,3) c2(1,3) by (intro exI [of _ "c1 @ c2"]) (simp add: entered_Cons [of a as])
qed

section \<open>Runs without an addition inside a pass\<close>

text \<open>The shared state as the sequential model has it.\<close>

definition race_abs :: "'w race_state \<Rightarrow> ns_ws_state" where
  "race_abs s = \<lparr>event_fd = r_efd s, event_count = r_signals s, ws_poll_fds = items (r_fds s),
     connections = items (r_cons s), general_counter = r_counter s\<rparr>"

lemma notify_connections_one:
  "notify_connections rd' rcv' mx jk sock (it # its) w =
     rbind (notify_one rd' rcv' mx jk sock it w) (\<lambda>(effs, w).
       rbind (notify_connections rd' rcv' mx jk sock its w) (\<lambda>(effs', w). Inr (effs @ effs', w)))"
proof (cases "con_fd it = sock")
  case True
  obtain n d w1 where rd: "rd' sock 1024 w = (n, d, w1)" by (cases "rd' sock 1024 w")
  then show ?thesis using True by (simp add: notify_one_def)
next
  case False
  then show ?thesis
    by (cases "notify_connections rd' rcv' mx jk sock its w") (auto simp: notify_one_def)
qed

abbreviation notify_of :: "'w race_env \<Rightarrow> int \<Rightarrow> websocket_connection list \<Rightarrow> 'w \<Rightarrow> (net_effect list \<times> 'w) result" where
  "notify_of E \<equiv> notify_connections (sock_read E) (sock_recv E) (frame_memory E) (type_junk E)"

abbreviation pass_of :: "'w race_env \<Rightarrow> websocket_connection list \<Rightarrow> nat \<Rightarrow> pollfd list \<Rightarrow> 'w \<Rightarrow>
    (pollfd list \<times> net_effect list \<times> 'w) result" where
  "pass_of E \<equiv> check_events (sock_read E) (sock_recv E) (frame_memory E) (type_junk E)"

lemma notify_run:
  assumes "r_pc s = Notify i (storage (r_cons s)) k (length (items (r_cons s)))" and "k \<le> length (items (r_cons s))"
  shows "\<exists>as. race_run E as s =
    Some (rbind (notify_of E (pfd (items (r_fds s) ! i)) (drop k (items (r_cons s))) (r_world s))
      (\<lambda>(effs, w'). Inr (effs, s\<lparr>r_world := w', r_pc := Scan (i + 1)\<rparr>)))"
  using assms
proof (induction "length (items (r_cons s)) - k" arbitrary: k s)
  case 0
  then show ?case by (intro exI [of _ "[Thread None]"]) (simp add: thread_step_def)
next
  case (Suc n)
  let ?cons = "items (r_cons s)"
  let ?sock = "pfd (items (r_fds s) ! i)"
  have k: "k < length ?cons" using Suc.hyps(2) by simp
  then have d: "drop k ?cons = ?cons ! k # drop (Suc k) ?cons" by (rule Cons_nth_drop_Suc [symmetric])
  let ?one = "notify_one (sock_read E) (sock_recv E) (frame_memory E) (type_junk E) ?sock (?cons ! k) (r_world s)"
  have step: "race_step E (Thread None) s = Some (rbind ?one (\<lambda>(effs, w).
      Inr (effs, s\<lparr>r_world := w, r_pc := Notify i (storage (r_cons s)) (k + 1) (length ?cons)\<rparr>)))"
    using Suc.prems k by (simp add: thread_step_def)
  show ?case
  proof (cases ?one)
    case (Inl f)
    then show ?thesis using step d by (intro exI [of _ "[Thread None]"]) (simp add: notify_connections_one del: notify_connections.simps)
  next
    case (Inr r)
    obtain e1 w1 where r: "r = (e1, w1)" by (cases r)
    let ?s1 = "s\<lparr>r_world := w1, r_pc := Notify i (storage (r_cons s)) (k + 1) (length ?cons)\<rparr>"
    have n: "n = length (items (r_cons ?s1)) - (k + 1)" using Suc.hyps(2) by simp
    obtain as where as: "race_run E as ?s1 = Some (rbind (notify_of E ?sock (drop (Suc k) ?cons) w1)
        (\<lambda>(effs, w'). Inr (effs, s\<lparr>r_world := w', r_pc := Scan (i + 1)\<rparr>)))"
      using Suc.hyps(1) [OF n] k by auto
    show ?thesis
      using step d as Inr r
      by (intro exI [of _ "Thread None # as"], cases "notify_of E ?sock (drop (Suc k) ?cons) w1")
        (auto simp: notify_connections_one simp del: notify_connections.simps)
  qed
qed

text \<open>A pass over the entries.\<close>

lemma pass_run:
  assumes "r_pc s = Scan i" and "items (r_fds s) = fds" and "items (r_cons s) = cons" and "r_world s = w"
  shows "\<exists>as. race_run E as s =
    Some (rbind (pass_of E cons i fds w) (\<lambda>(fds', effs, w').
      Inr (effs, s\<lparr>r_fds := (r_fds s)\<lparr>items := fds'\<rparr>, r_world := w', r_pc := At_Poll\<rparr>)))"
  using assms
proof (induction "sock_read E" "sock_recv E" "frame_memory E" "type_junk E" cons i fds w arbitrary: s rule: check_events.induct)
  case (1 cons i fds w)
  let ?p = "fds ! i"
  have step: "race_step E (Thread None) s = Some (thread_step (sock_read E) (sock_recv E) (frame_memory E) (type_junk E) None s)" by simp
  show ?case
  proof (cases "i < length fds")
    case False
    then show ?thesis
      using "1.prems" by (intro exI [of _ "[Thread None]"]) (simp add: thread_step_def check_events.simps [of _ _ _ _ _ i])
  next
    case True
    consider (data) "revents ?p AND POLLIN \<noteq> 0"
      | (err) "revents ?p AND POLLIN = 0" "revents ?p AND POLLERR \<noteq> 0"
      | (hup) "revents ?p AND POLLIN = 0" "revents ?p AND POLLERR = 0" "revents ?p AND POLLHUP \<noteq> 0"
      | (none) "revents ?p AND POLLIN = 0" "revents ?p AND POLLERR = 0" "revents ?p AND POLLHUP = 0"
      by blast
    then show ?thesis
    proof cases
      case data
      let ?s1 = "s\<lparr>r_pc := Notify i (storage (r_cons s)) 0 (length cons)\<rparr>"
      have s1: "thread_step (sock_read E) (sock_recv E) (frame_memory E) (type_junk E) None s = Inr ([], ?s1)"
        using "1.prems" True data by (simp add: thread_step_def)
      obtain as1 where as1: "race_run E as1 ?s1 = Some (rbind (notify_of E (pfd ?p) cons w)
          (\<lambda>(effs, w'). Inr (effs, s\<lparr>r_world := w', r_pc := Scan (i + 1)\<rparr>)))"
        using notify_run [of ?s1 i 0 E] "1.prems" by auto
      show ?thesis
      proof (cases "notify_of E (pfd ?p) cons w")
        case (Inl f)
        then show ?thesis
          using s1 as1 True data "1.prems"
          by (intro exI [of _ "Thread None # as1"]) (simp add: check_events.simps [of _ _ _ _ _ i])
      next
        case (Inr r)
        obtain e1 w1 where r: "r = (e1, w1)" by (cases r)
        let ?s2 = "s\<lparr>r_world := w1, r_pc := Scan (i + 1)\<rparr>"
        obtain as2 where as2: "race_run E as2 ?s2 = Some (rbind (pass_of E cons (i + 1) fds w1) (\<lambda>(fds', effs, w').
            Inr (effs, s\<lparr>r_fds := (r_fds s)\<lparr>items := fds'\<rparr>, r_world := w', r_pc := At_Poll\<rparr>)))"
          using "1.hyps"(1) [OF True data Inr r [symmetric], of ?s2] "1.prems" by auto
        have "race_run E (Thread None # as1) s = Some (Inr (e1, ?s2))" using s1 as1 Inr r by simp
        from race_run_append [OF this, of as2] as2 show ?thesis
          using Inr r True data
          by (intro exI [of _ "(Thread None # as1) @ as2"], cases "pass_of E cons (i + 1) fds w1")
            (auto simp: check_events.simps [of _ _ _ _ _ i])
      qed
    next
      case err
      let ?s1 = "s\<lparr>r_pc := Scan (i + 1)\<rparr>"
      have s1: "thread_step (sock_read E) (sock_recv E) (frame_memory E) (type_junk E) None s = Inr ([], ?s1)"
        using "1.prems" True err by (simp add: thread_step_def)
      obtain as where as: "race_run E as ?s1 = Some (rbind (pass_of E cons (i + 1) fds w) (\<lambda>(fds', effs, w').
          Inr (effs, s\<lparr>r_fds := (r_fds s)\<lparr>items := fds'\<rparr>, r_world := w', r_pc := At_Poll\<rparr>)))"
        using "1.hyps"(2) [OF True _ _, of ?s1] err "1.prems" by auto
      show ?thesis
        using s1 as True err
        by (intro exI [of _ "Thread None # as"], cases "pass_of E cons (i + 1) fds w")
          (auto simp: check_events.simps [of _ _ _ _ _ i])
    next
      case hup
      let ?fds = "take i fds @ drop (i + 1) fds"
      let ?s1 = "s\<lparr>r_fds := (r_fds s)\<lparr>items := ?fds\<rparr>\<rparr>"
      have s1: "thread_step (sock_read E) (sock_recv E) (frame_memory E) (type_junk E) None s = Inr ([Close (pfd ?p)], ?s1)"
        using "1.prems" True hup by (simp add: thread_step_def)
      obtain as where as: "race_run E as ?s1 = Some (rbind (pass_of E cons i ?fds w) (\<lambda>(fds', effs, w').
          Inr (effs, s\<lparr>r_fds := (r_fds s)\<lparr>items := fds'\<rparr>, r_world := w', r_pc := At_Poll\<rparr>)))"
        using "1.hyps"(3) [OF True _ _ _, of ?s1] hup "1.prems" by auto
      show ?thesis
        using s1 as True hup
        by (intro exI [of _ "Thread None # as"], cases "pass_of E cons i ?fds w")
          (auto simp: check_events.simps [of _ _ _ _ _ i])
    next
      case none
      let ?s1 = "s\<lparr>r_pc := Scan (i + 1)\<rparr>"
      have s1: "thread_step (sock_read E) (sock_recv E) (frame_memory E) (type_junk E) None s = Inr ([], ?s1)"
        using "1.prems" True none by (simp add: thread_step_def)
      obtain as where as: "race_run E as ?s1 = Some (rbind (pass_of E cons (i + 1) fds w) (\<lambda>(fds', effs, w').
          Inr (effs, s\<lparr>r_fds := (r_fds s)\<lparr>items := fds'\<rparr>, r_world := w', r_pc := At_Poll\<rparr>)))"
        using "1.hyps"(4) [OF True _ _ _, of ?s1] none "1.prems" by auto
      show ?thesis
        using s1 as True none
        by (intro exI [of _ "Thread None # as"], cases "pass_of E cons (i + 1) fds w")
          (auto simp: check_events.simps [of _ _ _ _ _ i])
    qed
  qed
qed

text \<open>What the sequential model does is what a run of the threads does.\<close>

abbreviation thread_of :: "'w race_env \<Rightarrow> ws_thread_event list \<Rightarrow> ns_ws_state \<Rightarrow> 'w \<Rightarrow>
    (ns_ws_state \<times> net_effect list \<times> 'w) result" where
  "thread_of E \<equiv> check_and_notify_events (sock_read E) (sock_recv E) (frame_memory E) (type_junk E)"

definition simulated ::
  "'w race_env \<Rightarrow> race_action list \<Rightarrow> 'w race_state \<Rightarrow> (ns_ws_state \<times> net_effect list \<times> 'w) result \<Rightarrow> bool" where
  "simulated E as s r =
     (case r of
        Inl f \<Rightarrow> race_run E as s = Some (Inl f)
      | Inr (st', effs, w') \<Rightarrow> \<exists>s'. race_run E as s = Some (Inr (effs, s')) \<and> race_abs s' = st' \<and> r_world s' = w')"

lemma simulated_step:
  assumes "race_run E as s = Some (Inr (effs, s1))" and "simulated E bs s1 r"
  shows "simulated E (as @ bs) s (rbind r (\<lambda>(st, effs', w). Inr (st, effs @ effs', w)))"
proof (cases r)
  case (Inl f)
  with assms show ?thesis by (simp add: simulated_def race_run_append)
next
  case (Inr x)
  obtain st effs' w where x: "x = (st, effs', w)" by (cases x)
  with assms Inr show ?thesis by (auto simp: simulated_def race_run_append)
qed

lemma thread_run_simulated:
  assumes "race_abs s = st" and "r_world s = w" and "r_pc s = At_Poll" and "adding s = None"
  shows "\<exists>as. simulated E as s (thread_of E evs st w)"
  using assms
proof (induction evs arbitrary: s st w)
  case Nil
  then show ?case by (intro exI [of _ "[]"]) (simp add: simulated_def)
next
  case (Cons ev evs)
  have fds: "ws_poll_fds st = items (r_fds s)" and cons: "connections st = items (r_cons s)"
    using Cons.prems(1) by (auto simp: race_abs_def)
  show ?case
  proof (cases ev)
    case Poll_Failed
    then show ?thesis
      using Cons.prems
      by (intro exI [of _ "[Thread None, Thread None]"]) (auto simp: simulated_def thread_step_def race_abs_def)
  next
    case (Socket_Added sock)
    let ?s1 = "s\<lparr>r_fds := push_back (vec_grow E) \<lparr>pfd = sock, events = POLLIN, revents = 0\<rparr> (r_fds s),
      adding := Some sock\<rparr>"
    let ?s2 = "?s1\<lparr>r_cons := push_back (vec_grow E) (fst (websocket_connection_new sock (r_counter s))) (r_cons s),
      r_counter := snd (websocket_connection_new sock (r_counter s)), r_signals := r_signals s + 1, adding := None\<rparr>"
    have run: "race_run E [Add_Entry sock, Add_Connection] s = Some (Inr ([], ?s2))"
      using Cons.prems(4) by (simp add: add_entry_def add_connection_def case_prod_beta)
    have "race_abs ?s2 = add_socket_to_the_list sock st"
      using Cons.prems(1) by (auto simp: race_abs_def add_socket_to_the_list_def case_prod_beta)
    from Cons.IH [OF this, of w] Cons.prems obtain as
      where "simulated E as ?s2 (thread_of E evs (add_socket_to_the_list sock st) w)" by auto
    from simulated_step [OF run this]
    have "simulated E ([Add_Entry sock, Add_Connection] @ as) s
        (thread_of E evs (add_socket_to_the_list sock st) w)"
      by (cases "thread_of E evs (add_socket_to_the_list sock st) w") auto
    then show ?thesis using Socket_Added by auto
  next
    case (Poll_Returned rs)
    let ?fds = "poll_answer rs (items (r_fds s))"
    let ?s1 = "s\<lparr>r_fds := (r_fds s)\<lparr>items := ?fds\<rparr>, r_pc := Scan 0\<rparr>"
    have run: "race_run E [Thread None, Thread (Some rs)] s = Some (Inr ([], ?s1))"
      using Cons.prems(3) by (simp add: thread_step_def)
    obtain as1 where as1: "race_run E as1 ?s1 = Some (rbind (pass_of E (items (r_cons s)) 0 ?fds w)
        (\<lambda>(fds', effs, w'). Inr (effs, s\<lparr>r_fds := (r_fds s)\<lparr>items := fds'\<rparr>, r_world := w', r_pc := At_Poll\<rparr>)))"
      using pass_run [of ?s1 0 ?fds "items (r_cons s)" w E] Cons.prems(2) by auto
    show ?thesis
    proof (cases "pass_of E (items (r_cons s)) 0 ?fds w")
      case (Inl f)
      with race_run_append [OF run, of as1] as1 show ?thesis
        using Poll_Returned fds cons
        by (intro exI [of _ "[Thread None, Thread (Some rs)] @ as1"]) (simp add: simulated_def)
    next
      case (Inr x)
      obtain fds' effs w1 where x: "x = (fds', effs, w1)" by (cases x)
      let ?s2 = "s\<lparr>r_fds := (r_fds s)\<lparr>items := fds'\<rparr>, r_world := w1, r_pc := At_Poll\<rparr>"
      have run2: "race_run E ([Thread None, Thread (Some rs)] @ as1) s = Some (Inr (effs, ?s2))"
        using race_run_append [OF run, of as1] as1 Inr x by simp
      have "race_abs ?s2 = st\<lparr>ws_poll_fds := fds'\<rparr>" using Cons.prems(1) by (auto simp: race_abs_def)
      from Cons.IH [OF this, of w1] Cons.prems obtain as2
        where "simulated E as2 ?s2 (thread_of E evs (st\<lparr>ws_poll_fds := fds'\<rparr>) w1)" by auto
      from simulated_step [OF run2 this] show ?thesis
        using Poll_Returned Inr x fds cons by auto
    qed
  qed
qed

section \<open>Properties\<close>

text \<open>
  C34: In every interleaving of the background thread with the threads that add sockets, whatever the
  results of poll and of the reads and however vectors grow: the thread does nothing but close
  descriptors; no descriptor is lost, each one that was entered is in the list or was closed; and
  every socket that was added is in the list of connections, in the order of the additions, also
  after it was closed.
\<close>

theorem race_only_closes:
  assumes "race_run E as (race_init (vec_grow E) efd w) = Some (Inr (effs, s'))"
  shows "\<exists>closed. effs = map Close closed
    \<and> mset (map pfd (items (r_fds s'))) + mset closed = mset (efd # entered as)
    \<and> map con_fd (items (r_cons s')) @ (case adding s' of None \<Rightarrow> [] | Some sock \<Rightarrow> [sock]) = entered as"
  using race_run_fds [OF assms]
  by (simp add: fd_list_def con_list_def race_init_def empty_vector_def ac_simps)

definition silent_env :: "unit race_env" where
  "silent_env = \<lparr>vec_grow = (\<lambda>n. if n = 0 then 1 else 2 * n), sock_read = (\<lambda>fd n u. (0, [], u)),
     sock_recv = (\<lambda>fd n u. (0, [], u)), frame_memory = 1000, type_junk = 0\<rparr>"

lemma run_effects: "map_option (map_sum id fst) x = Some (Inr e) \<Longrightarrow> \<exists>s. x = Some (Inr (e, s))"
  by (cases x; cases "the x") auto

text \<open>A socket is added inside a pass and hangs up in the next one.\<close>

definition sample_actions :: "race_action list" where
  "sample_actions = [Thread None, Thread (Some (\<lambda>i. 0)), Add_Entry 5, Thread None, Add_Connection, Thread None,
     Thread None, Thread None, Thread (Some (\<lambda>i. if i = 1 then POLLHUP else 0)), Thread None, Thread None]"

theorem race_only_closes_witness:
  "\<exists>s'. race_run silent_env sample_actions (race_init (vec_grow silent_env) 3 ()) = Some (Inr ([Close 5], s'))
     \<and> mset (map pfd (items (r_fds s'))) + {#5#} = {#3, 5#}"
proof -
  have "map_option (map_sum id fst) (race_run silent_env sample_actions (race_init (vec_grow silent_env) 3 ()))
      = Some (Inr [Close 5])" by code_simp
  then obtain s' where run: "race_run silent_env sample_actions (race_init (vec_grow silent_env) 3 ()) = Some (Inr ([Close 5], s'))"
    by (elim exE [OF run_effects])
  from race_only_closes [OF this] show ?thesis using run by (auto simp: sample_actions_def entered_def)
qed

text \<open>
  C35: The first handshake after the start of the server frees the memory that the background thread
  has given to poll: with a vector that begins with room for one element, poll is waiting on the
  storage of the event descriptor alone, the new entry moves the vector, and when poll returns with
  events (the signal of this very handshake wakes it) the kernel writes them into freed memory. This
  is so whatever the other threads do in between.
\<close>

theorem first_handshake_frees:
  assumes "vec_grow E 0 = 1" and "others_only as"
  shows "race_run E (Thread a # Add_Entry sock # as @ [Thread (Some rs)]) (race_init (vec_grow E) efd w)
    \<in> {None, Some (Inl Undefined_Behaviour)}"
proof -
  let ?s0 = "race_init (vec_grow E) efd w"
  let ?s1 = "?s0\<lparr>r_pc := In_Poll 1 1\<rparr>"
  let ?s2 = "?s1\<lparr>r_fds := push_back (vec_grow E) \<lparr>pfd = sock, events = POLLIN, revents = 0\<rparr> (r_fds ?s0), adding := Some sock\<rparr>"
  have "race_step E (Thread a) ?s0 = Some (Inr ([], ?s1))"
    by (simp add: thread_step_def race_init_def push_back_def empty_vector_def)
  moreover have "race_step E (Add_Entry sock) ?s1 = Some (Inr ([], ?s2))"
    by (simp add: add_entry_def race_init_def)
  moreover have moved: "1 < storage (r_fds ?s2)"
    using assms(1) by (simp add: race_init_def push_back_def empty_vector_def)
  have "race_run E (as @ [Thread (Some rs)]) ?s2 \<in> {None, Some (Inl Undefined_Behaviour)}"
    by (rule freed_while_waiting [OF _ moved assms(2)]) simp
  ultimately show ?thesis by auto
qed

text \<open>
  C36: The sequential model of the background thread is what the threads do when no addition falls
  between the call of poll and the end of the pass: each of its results, a fault or a state with the
  calls made, is the result of a run of the threads.
\<close>

theorem quiet_runs_refine:
  assumes "efd \<noteq> -1"
  shows "\<exists>as. case check_and_notify_events (sock_read E) (sock_recv E) (frame_memory E) (type_junk E) evs
              (websocket_connection_manager_new efd) w of
     Inl f \<Rightarrow> race_run E as (race_init (vec_grow E) efd w) = Some (Inl f)
   | Inr (st', effs, w') \<Rightarrow> \<exists>s'. race_run E as (race_init (vec_grow E) efd w) = Some (Inr (effs, s'))
        \<and> race_abs s' = st' \<and> r_world s' = w'"
proof -
  have "race_abs (race_init (vec_grow E) efd w) = websocket_connection_manager_new efd"
    using assms by (simp add: race_abs_def race_init_def websocket_connection_manager_new_def empty_vector_def)
  from thread_run_simulated [OF this, of w E evs] show ?thesis
    unfolding simulated_def by (simp add: race_init_def)
qed

theorem first_handshake_frees_witness:
  "race_run silent_env [Thread None, Add_Entry 5, Add_Connection, Thread (Some (\<lambda>i. POLLIN))]
     (race_init (vec_grow silent_env) 3 ()) = Some (Inl Undefined_Behaviour)"
proof -
  have "race_run silent_env [Thread None, Add_Entry 5, Add_Connection, Thread (Some (\<lambda>i. POLLIN))]
     (race_init (vec_grow silent_env) 3 ()) \<noteq> None"
    by (simp add: thread_step_def add_entry_def add_connection_def race_init_def push_back_def empty_vector_def
        silent_env_def websocket_connection_new_def Let_def)
  moreover have "vec_grow silent_env 0 = 1" "others_only [Add_Connection]"
    by (simp_all add: silent_env_def others_only_def)
  note first_handshake_frees [OF this, of None 5 "\<lambda>i. POLLIN" 3 "()"]
  ultimately show ?thesis by (auto simp del: race_run.simps)
qed

theorem quiet_runs_refine_witness:
  "\<exists>as s'. race_run silent_env as (race_init (vec_grow silent_env) 3 ()) = Some (Inr ([Close 5], s'))
     \<and> ws_poll_fds (race_abs s') = [\<lparr>pfd = 3, events = POLLIN, revents = 0\<rparr>]"
proof -
  let ?evs = "[Socket_Added 5, Poll_Returned (\<lambda>i. if i = 1 then POLLHUP else 0)]"
  have "map_sum id (\<lambda>(st, effs, w). (ws_poll_fds st, effs))
      (check_and_notify_events (sock_read silent_env) (sock_recv silent_env) (frame_memory silent_env) (type_junk silent_env) ?evs
        (websocket_connection_manager_new 3) ())
    = Inr ([\<lparr>pfd = 3, events = POLLIN, revents = 0\<rparr>], [Close 5])" by code_simp
  then obtain st where "check_and_notify_events (sock_read silent_env) (sock_recv silent_env) (frame_memory silent_env) (type_junk silent_env)
      ?evs (websocket_connection_manager_new 3) () = Inr (st, [Close 5], ())"
      and "ws_poll_fds st = [\<lparr>pfd = 3, events = POLLIN, revents = 0\<rparr>]"
    by (cases "check_and_notify_events (sock_read silent_env) (sock_recv silent_env) (frame_memory silent_env) (type_junk silent_env) ?evs
        (websocket_connection_manager_new 3) ()") (auto simp del: check_and_notify_events.simps)
  then show ?thesis
    using quiet_runs_refine [of 3 silent_env "()" ?evs] by (auto simp del: check_and_notify_events.simps)
qed

end
