(* ===== verification/Tcp_Threads.thy ===== *)
theory Tcp_Threads
  imports Tcp_Default
begin

text \<open>
  The default server (src/tcp_default_handler.cpp) with the HTTP server as its handler, one access to
  shared memory at a time. Every connection has a thread of its own, and the threads share the two
  objects that src/websocket_handler.cpp keeps without a lock: the pointer
  \<open>websocket_manager::instance\<close>, which the first request sets, and the set of the descriptors, which a
  handshake inserts into. The routes are shared as well, but no thread writes them. Two threads
  race when both are about to access the same object and one of them writes it; this is undefined.
\<close>

section \<open>The definitions\<close>

text \<open>
  Where the thread of a connection is in \<open>handle_connection_request\<close>. \<open>websocket_manager::get()\<close> is
  called twice for a handshake, the flag tells the calls apart: it tests the pointer, sets it when it
  is null, and returns it.
\<close>

datatype handler_pc =
    Receiving
  | Get_Test bool http_request
  | Get_New bool http_request
  | Get_Return bool http_request
  | Handshaking http_request
  | Inserting http_request
  | Responding http_request
  | Closing http_request
  | Finished

text \<open>
  The state of the process: the manager, if \<open>instance\<close> points to one; the connections accepted, with
  the threads, oldest first; the descriptors that are open; what each connection has still to
  deliver.
\<close>

record 's threaded_state =
  t_routes :: "endpointcb routes"
  t_manager :: "int set option"
  t_threads :: "(int \<times> handler_pc) list"
  t_open :: "int set"
  t_effects :: "net_effect list"
  t_streams :: "int \<Rightarrow> 's"

definition threaded_init :: "endpointcb routes \<Rightarrow> int set option \<Rightarrow> (int \<Rightarrow> 's) \<Rightarrow> 's threaded_state" where
  "threaded_init rts manager w =
     \<lparr>t_routes = rts, t_manager = manager, t_threads = [], t_open = {}, t_effects = [], t_streams = w\<rparr>"

definition registered :: "int set option \<Rightarrow> int set" where
  "registered manager = (case manager of None \<Rightarrow> {} | Some ws \<Rightarrow> ws)"

definition server_view :: "'s threaded_state \<Rightarrow> http_state" where
  "server_view s = \<lparr>routes_map_org = t_routes s, websocket_descriptor = registered (t_manager s)\<rparr>"

text \<open>
  Reading from a connection takes from its own stream. \<open>accept\<close> may fail, the code does not look:
  reading from the descriptor \<open>-1\<close> fails.
\<close>

definition sock_rcv :: "'s recv_fun \<Rightarrow> int \<Rightarrow> (int \<Rightarrow> 's) recv_fun" where
  "sock_rcv rcv fd n w =
     (if fd < 0 then (-1, [], w) else case rcv n (w fd) of (l, d, x) \<Rightarrow> (l, d, w(fd := x)))"

text \<open>A step of the thread of \<open>fd\<close>: where it is afterwards, what it does to the network.\<close>

definition thread_moves ::
  "machine \<Rightarrow> 's recv_fun \<Rightarrow> int \<Rightarrow> handler_pc \<Rightarrow> 's threaded_state \<Rightarrow>
     (handler_pc \<times> net_effect list \<times> 's threaded_state) result" where
  "thread_moves mc rcv fd pc s =
     (case pc of
        Receiving \<Rightarrow>
          rbind (received_str (sock_rcv rcv fd) (t_streams s)) (\<lambda>(str_request, w).
            if str_request = [] then Inr (Finished, [], s\<lparr>t_streams := w\<rparr>)
            else rbind (read_request mc str_request) (\<lambda>request.
                   Inr (Get_Test False request, [], s\<lparr>t_streams := w\<rparr>)))
      | Get_Test again request \<Rightarrow>
          Inr (if t_manager s = None then Get_New again request else Get_Return again request, [], s)
      | Get_New again request \<Rightarrow> Inr (Get_Return again request, [], s\<lparr>t_manager := Some {}\<rparr>)
      | Get_Return again request \<Rightarrow>
          Inr (if again
               then (if find_websocket_key (headers request) = [] then Responding request else Handshaking request)
               else if is_websocket (headers request) then Get_Test True request else Responding request, [], s)
      | Handshaking request \<Rightarrow>
          rbind (get_accept_key (byte_order mc) (hash_memory mc) (find_websocket_key (headers request)))
            (\<lambda>accept_key. Inr (Inserting request, [Send fd (bytes_of (handshake_response accept_key))], s))
      | Inserting request \<Rightarrow> Inr (Finished, [], s\<lparr>t_manager := map_option (insert fd) (t_manager s)\<rparr>)
      | Responding request \<Rightarrow>
          rbind (respond mc (server_view s) request) (\<lambda>(response, closefd).
            Inr (if closefd then Closing request else Finished, [Send fd (bytes_of response)], s))
      | Closing request \<Rightarrow> Inr (Finished, [Close fd], s\<lparr>t_open := t_open s - {fd}\<rparr>)
      | Finished \<Rightarrow> Inr (Finished, [], s))"

text \<open>The object that the next step of a thread accesses, and whether it writes it.\<close>

datatype shared = Instance | Descriptors

fun next_access :: "handler_pc \<Rightarrow> (shared \<times> bool) option" where
  "next_access (Get_Test _ _) = Some (Instance, False)"
| "next_access (Get_New _ _) = Some (Instance, True)"
| "next_access (Get_Return _ _) = Some (Instance, False)"
| "next_access (Inserting _) = Some (Descriptors, True)"
| "next_access _ = None"

definition conflict :: "handler_pc \<Rightarrow> handler_pc \<Rightarrow> bool" where
  "conflict p q =
     (case (next_access p, next_access q) of
        (Some (l, wr), Some (l', wr')) \<Rightarrow> l = l' \<and> (wr \<or> wr')
      | _ \<Rightarrow> False)"

fun racing :: "handler_pc list \<Rightarrow> bool" where
  "racing [] \<longleftrightarrow> False"
| "racing (p # ps) \<longleftrightarrow> list_ex (conflict p) ps \<or> racing ps"

text \<open>
  The steps of the process: the accept loop starts a thread, for a descriptor that is not open, or
  for a failure; a thread that has not finished moves. \<open>None\<close>: the step cannot be taken.
\<close>

datatype server_action = Accept int | Run nat

fun threaded_step ::
  "machine \<Rightarrow> 's recv_fun \<Rightarrow> server_action \<Rightarrow> 's threaded_state \<Rightarrow> 's threaded_state result option" where
  "threaded_step mc rcv (Accept fd) s =
     (if fd \<in> t_open s then None
      else Some (Inr (s\<lparr>t_threads := t_threads s @ [(fd, Receiving)],
                        t_open := (if fd < 0 then t_open s else insert fd (t_open s))\<rparr>)))"
| "threaded_step mc rcv (Run i) s =
     (if i < length (t_threads s) \<and> snd (t_threads s ! i) \<noteq> Finished
      then Some (if racing (map snd (t_threads s)) then Inl Undefined_Behaviour
                 else rbind (thread_moves mc rcv (fst (t_threads s ! i)) (snd (t_threads s ! i)) s)
                   (\<lambda>(pc, effs, s').
                     Inr (s'\<lparr>t_threads := (t_threads s)[i := (fst (t_threads s ! i), pc)],
                             t_effects := t_effects s @ effs\<rparr>)))
      else None)"

fun threaded_run ::
  "machine \<Rightarrow> 's recv_fun \<Rightarrow> server_action list \<Rightarrow> 's threaded_state \<Rightarrow> 's threaded_state result option" where
  "threaded_run mc rcv [] s = Some (Inr s)"
| "threaded_run mc rcv (a # as) s =
     (case threaded_step mc rcv a s of
        None \<Rightarrow> None
      | Some (Inl f) \<Rightarrow> Some (Inl f)
      | Some (Inr s) \<Rightarrow> threaded_run mc rcv as s)"

definition on_fd :: "int \<Rightarrow> net_effect list \<Rightarrow> net_effect list" where
  "on_fd fd effs = filter (\<lambda>e. effect_fd e = fd) effs"

definition unfinished :: "(int \<times> handler_pc) list \<Rightarrow> int list" where
  "unfinished ts = map fst (filter (\<lambda>t. snd t \<noteq> Finished) ts)"

section \<open>Lemmas\<close>

text \<open>
  What the thread of \<open>fd\<close> has done so far, on the way through a call of the handler that found the
  stream \<open>x\<close>: the effects \<open>es\<close>, and the stream is \<open>x'\<close> now.
\<close>

definition got :: "machine \<Rightarrow> 's recv_fun \<Rightarrow> http_request \<Rightarrow> 's \<Rightarrow> 's \<Rightarrow> bool" where
  "got mc rcv request x x' \<longleftrightarrow>
     (\<exists>str. received_str rcv x = Inr (str, x') \<and> str \<noteq> [] \<and> read_request mc str = Inr request)"

definition handshake_key :: "http_request \<Rightarrow> string" where
  "handshake_key request = (if is_websocket (headers request) then find_websocket_key (headers request) else [])"

fun progress ::
  "machine \<Rightarrow> 's recv_fun \<Rightarrow> endpointcb routes \<Rightarrow> int \<Rightarrow> handler_pc \<Rightarrow> net_effect list \<Rightarrow> 's \<Rightarrow> 's \<Rightarrow> bool" where
  "progress mc rcv rts fd Receiving es x x' \<longleftrightarrow> es = [] \<and> x' = x"
| "progress mc rcv rts fd (Get_Test again q) es x x' \<longleftrightarrow>
     es = [] \<and> got mc rcv q x x' \<and> (again \<longrightarrow> is_websocket (headers q))"
| "progress mc rcv rts fd (Get_New again q) es x x' \<longleftrightarrow>
     es = [] \<and> got mc rcv q x x' \<and> (again \<longrightarrow> is_websocket (headers q))"
| "progress mc rcv rts fd (Get_Return again q) es x x' \<longleftrightarrow>
     es = [] \<and> got mc rcv q x x' \<and> (again \<longrightarrow> is_websocket (headers q))"
| "progress mc rcv rts fd (Handshaking q) es x x' \<longleftrightarrow>
     es = [] \<and> got mc rcv q x x' \<and> handshake_key q \<noteq> []"
| "progress mc rcv rts fd (Inserting q) es x x' \<longleftrightarrow>
     got mc rcv q x x' \<and> handshake_key q \<noteq> [] \<and>
     (\<exists>accept_key. get_accept_key (byte_order mc) (hash_memory mc) (handshake_key q) = Inr accept_key
        \<and> es = [Send fd (bytes_of (handshake_response accept_key))])"
| "progress mc rcv rts fd (Responding q) es x x' \<longleftrightarrow>
     es = [] \<and> got mc rcv q x x' \<and> handshake_key q = []"
| "progress mc rcv rts fd (Closing q) es x x' \<longleftrightarrow>
     got mc rcv q x x' \<and> handshake_key q = [] \<and>
     (\<exists>response. respond mc \<lparr>routes_map_org = rts, websocket_descriptor = {}\<rparr> q = Inr (response, True)
        \<and> es = [Send fd (bytes_of response)])"
| "progress mc rcv rts fd Finished es x x' \<longleftrightarrow> es = []"

lemma respond_routes: "respond mc st q = respond mc \<lparr>routes_map_org = routes_map_org st, websocket_descriptor = {}\<rparr> q"
  by (simp add: respond_def)

lemma received_sock:
  "0 \<le> fd \<Longrightarrow> received_str (sock_rcv rcv fd) w = rbind (received_str rcv (w fd)) (\<lambda>(str, x). Inr (str, w(fd := x)))"
  by (auto simp: received_str_def sock_rcv_def split: prod.splits)

lemma received_failed: "fd < 0 \<Longrightarrow> received_str (sock_rcv rcv fd) w = Inr ([], w)"
  by (simp add: received_str_def sock_rcv_def)

text \<open>The call of the handler as a whole, for the thread that has got this far.\<close>

lemma work_got:
  assumes "0 \<le> fd" and "got mc rcv q (w fd) x'"
  shows "http_work mc (sock_rcv rcv) fd (st, w) =
    (if handshake_key q = []
     then rbind (respond mc st q) (\<lambda>(response, closefd).
            Inr (Send fd (bytes_of response) # (if closefd then [Close fd] else []), st, w(fd := x')))
     else rbind (get_accept_key (byte_order mc) (hash_memory mc) (handshake_key q)) (\<lambda>accept_key.
            Inr ([Send fd (bytes_of (handshake_response accept_key))],
                 st\<lparr>websocket_descriptor := insert fd (websocket_descriptor st)\<rparr>, w(fd := x'))))"
proof -
  from assms(2) obtain str where "received_str rcv (w fd) = Inr (str, x')" "str \<noteq> []" "read_request mc str = Inr q"
    by (auto simp: got_def)
  then show ?thesis using assms(1)
    by (cases "get_accept_key (byte_order mc) (hash_memory mc) (find_websocket_key (headers q))")
      (auto simp: http_work_def handle_connection_request_def received_sock handshake_key_def Let_def
        add_new_connection_connection_def)
qed

lemma work_empty:
  assumes "received_str (sock_rcv rcv fd) w = Inr ([], w')"
  shows "http_work mc (sock_rcv rcv) fd (st, w) = Inr ([], st, w')"
  using assms by (simp add: http_work_def handle_connection_request_def)

text \<open>When the thread needs the manager there is one; when it makes one there is none.\<close>

fun manager_ok :: "int set option \<Rightarrow> handler_pc \<Rightarrow> bool" where
  "manager_ok m (Get_New _ _) \<longleftrightarrow> m = None"
| "manager_ok m (Get_Return _ _) \<longleftrightarrow> m \<noteq> None"
| "manager_ok m (Handshaking _) \<longleftrightarrow> m \<noteq> None"
| "manager_ok m (Inserting _) \<longleftrightarrow> m \<noteq> None"
| "manager_ok m _ \<longleftrightarrow> True"

text \<open>A step touches its own connection alone.\<close>

lemma moves_own:
  assumes "thread_moves mc rcv fd pc s = Inr (pc', effs, s')"
  shows "t_routes s' = t_routes s \<and> t_open s - {fd} \<subseteq> t_open s' \<and> t_open s' \<subseteq> t_open s
    \<and> (\<forall>fd'. fd' \<noteq> fd \<longrightarrow> t_streams s' fd' = t_streams s fd' \<and> on_fd fd' effs = [])
    \<and> (t_manager s \<noteq> None \<longrightarrow> t_manager s' \<noteq> None)
    \<and> t_threads s' = t_threads s \<and> t_effects s' = t_effects s
    \<and> (\<forall>e \<in> set effs. effect_fd e = fd) \<and> (pc' \<noteq> Finished \<longrightarrow> t_open s' = t_open s)"
  using assms
  by (cases pc)
    (auto simp: thread_moves_def rbind_Inr_iff received_str_def sock_rcv_def on_fd_def effect_fd_def
      split: if_splits prod.splits)

lemma moves_on:
  assumes "thread_moves mc rcv fd pc s = Inr (pc', effs, s')" and "pc' \<noteq> Finished" and "0 \<le> fd"
    and "progress mc rcv (t_routes s) fd pc es x (t_streams s fd)" and "manager_ok (t_manager s) pc"
  shows "progress mc rcv (t_routes s) fd pc' (es @ effs) x (t_streams s' fd)
    \<and> manager_ok (t_manager s') pc' \<and> registered (t_manager s') = registered (t_manager s)"
  using assms respond_routes [of mc "server_view s"]
  by (cases pc)
    (auto simp: thread_moves_def rbind_Inr_iff received_sock got_def handshake_key_def registered_def
      server_view_def split: if_splits)

lemma moves_last:
  assumes "thread_moves mc rcv fd pc s = Inr (Finished, effs, s')" and "pc \<noteq> Finished" and "0 \<le> fd"
    and "progress mc rcv (t_routes s) fd pc es (w fd) (t_streams s fd)" and "manager_ok (t_manager s) pc"
  shows "http_work mc (sock_rcv rcv) fd (server_view s, w) =
    Inr (es @ effs, server_view s', w(fd := t_streams s' fd))"
proof (cases pc)
  case Receiving
  then obtain x where rcv: "received_str rcv (w fd) = Inr ([], x)" "effs = []" "s' = s\<lparr>t_streams := (t_streams s)(fd := x)\<rparr>"
    using assms(1,3,4) by (auto simp: thread_moves_def rbind_Inr_iff received_sock split: if_splits)
  then have "received_str (sock_rcv rcv fd) w = Inr ([], w(fd := x))" using assms(3) by (simp add: received_sock)
  from work_empty [OF this, of mc "server_view s"] rcv Receiving assms(4) show ?thesis by (simp add: server_view_def)
next
  case (Inserting q)
  with assms have "got mc rcv q (w fd) (t_streams s fd)" by simp
  from work_got [where w = w and st = "server_view s", OF assms(3) this] Inserting assms show ?thesis
    by (auto simp: thread_moves_def server_view_def registered_def)
next
  case (Responding q)
  with assms have q: "got mc rcv q (w fd) (t_streams s fd)" "handshake_key q = []" "es = []" by simp_all
  from Responding assms(1) obtain response where "respond mc (server_view s) q = Inr (response, False)"
    "effs = [Send fd (bytes_of response)]" "s' = s"
    by (auto simp: thread_moves_def rbind_Inr_iff split: if_splits)
  with work_got [where w = w and st = "server_view s", OF assms(3) q(1)] q show ?thesis by simp
next
  case (Closing q)
  with assms(4) obtain response where q: "got mc rcv q (w fd) (t_streams s fd)" "handshake_key q = []"
    and "respond mc (server_view s) q = Inr (response, True)" "es = [Send fd (bytes_of response)]"
    using respond_routes [of mc "server_view s" q] by (auto simp: server_view_def)
  moreover from Closing assms(1) have "effs = [Close fd]" "s' = s\<lparr>t_open := t_open s - {fd}\<rparr>"
    by (simp_all add: thread_moves_def)
  ultimately show ?thesis
    using work_got [where w = w and st = "server_view s", OF assms(3) q(1)] by (simp add: server_view_def)
qed (use assms in \<open>auto simp: thread_moves_def rbind_Inr_iff split: if_splits\<close>)

lemma moves_failed:
  assumes "thread_moves mc rcv fd Receiving s = Inr (pc', effs, s')" and "fd < 0"
  shows "pc' = Finished \<and> effs = [] \<and> s' = s
    \<and> http_work mc (sock_rcv rcv) fd (st, w) = Inr ([], st, w)"
  using assms work_empty [OF received_failed [OF assms(2), of rcv w], of mc st]
  by (auto simp: thread_moves_def received_failed)

lemma racing_split:
  "racing (map snd (xs @ t # ys)) \<longleftrightarrow>
     racing (map snd (xs @ ys)) \<or> (\<exists>t' \<in> set (xs @ ys). conflict (snd t) (snd t'))"
proof -
  have "conflict p q = conflict q p" for p q by (auto simp: conflict_def split: option.splits)
  then show ?thesis by (induction xs) (auto simp: list_ex_iff)
qed

lemma others_manager_ok:
  assumes "thread_moves mc rcv fd pc s = Inr (pc', effs, s')" and "\<not> conflict pc q" and "manager_ok (t_manager s) q"
  shows "manager_ok (t_manager s') q"
proof -
  have "t_manager s' = t_manager s \<or> (\<exists>again r. pc = Get_New again r) \<and> t_manager s' = Some {}
      \<or> t_manager s' = map_option (insert fd) (t_manager s)"
    using assms(1) by (cases pc) (auto simp: thread_moves_def rbind_Inr_iff split: if_splits)
  then show ?thesis using assms(2,3) by (cases q) (auto simp: conflict_def)
qed

text \<open>
  The refinement relation: the threads that have finished have run in the atomic server, the others
  have not, and are where \<open>progress\<close> says.
\<close>

definition thread_sim ::
  "machine \<Rightarrow> 's recv_fun \<Rightarrow> (http_state \<times> (int \<Rightarrow> 's)) default_state \<Rightarrow> 's threaded_state \<Rightarrow> int \<times> handler_pc \<Rightarrow> bool" where
  "thread_sim mc rcv a s t \<longleftrightarrow>
     (if fst t < 0 then snd t = Receiving
      else fst t \<in> t_open s \<and> manager_ok (t_manager s) (snd t) \<and>
        (\<exists>es. progress mc rcv (t_routes s) (fst t) (snd t) es (snd (world a) (fst t)) (t_streams s (fst t))
            \<and> on_fd (fst t) (t_effects s) = on_fd (fst t) (effects a) @ es))"

definition server_sim ::
  "machine \<Rightarrow> 's recv_fun \<Rightarrow> (http_state \<times> (int \<Rightarrow> 's)) default_state \<Rightarrow> 's threaded_state \<Rightarrow> bool" where
  "server_sim mc rcv a s \<longleftrightarrow>
     accepted a = rev (map fst (t_threads s)) \<and> mset (pending a) = mset (unfinished (t_threads s))
     \<and> fst (world a) = server_view s
     \<and> (\<forall>t \<in> set (t_threads s). snd t \<noteq> Finished \<longrightarrow> thread_sim mc rcv a s t)
     \<and> distinct (filter (\<lambda>fd. 0 \<le> fd) (unfinished (t_threads s)))
     \<and> (\<forall>fd \<in> t_open s. 0 \<le> fd)
     \<and> (\<forall>fd. fd \<notin> set (unfinished (t_threads s)) \<or> fd < 0 \<longrightarrow>
          on_fd fd (t_effects s) = on_fd fd (effects a) \<and> t_streams s fd = snd (world a) fd)"

lemma unfinished_append [simp]: "unfinished (xs @ ys) = unfinished xs @ unfinished ys"
  by (simp add: unfinished_def)

lemma unfinished_Cons [simp]:
  "unfinished (t # ts) = (if snd t = Finished then unfinished ts else fst t # unfinished ts)"
  by (simp add: unfinished_def)

lemma unfinished_Nil [simp]: "unfinished [] = []"
  by (simp add: unfinished_def)

lemma on_fd_append [simp]: "on_fd fd (xs @ ys) = on_fd fd xs @ on_fd fd ys"
  by (simp add: on_fd_def)

lemma on_fd_own: "\<forall>e \<in> set effs. effect_fd e = fd \<Longrightarrow> on_fd fd' effs = (if fd' = fd then effs else [])"
  by (induction effs) (auto simp: on_fd_def)

lemma in_unfinished: "t \<in> set ts \<Longrightarrow> snd t \<noteq> Finished \<Longrightarrow> fst t \<in> set (unfinished ts)"
  by (auto simp: unfinished_def)

lemma thread_sim_open: "thread_sim mc rcv a s t \<Longrightarrow> 0 \<le> fst t \<Longrightarrow> fst t \<in> t_open s"
  by (simp add: thread_sim_def)

lemma sim_start:
  "server_sim mc rcv \<lparr>accepted = [], pending = [], effects = [],
       world = (\<lparr>routes_map_org = rts, websocket_descriptor = registered m\<rparr>, w)\<rparr> (threaded_init rts m w)"
  by (simp add: server_sim_def threaded_init_def server_view_def)

lemma sim_accept:
  assumes "server_sim mc rcv a s" and "threaded_step mc rcv (Accept fd) s = Some (Inr s')"
  shows "server_sim mc rcv (a\<lparr>accepted := fd # accepted a, pending := fd # pending a\<rparr>) s'"
proof -
  let ?a = "a\<lparr>accepted := fd # accepted a, pending := fd # pending a\<rparr>"
  from assms(2) have new: "fd \<notin> t_open s"
    and s': "s' = s\<lparr>t_threads := t_threads s @ [(fd, Receiving)],
                    t_open := (if fd < 0 then t_open s else insert fd (t_open s))\<rparr>"
    by (auto split: if_splits)
  from assms(1) have old: "\<forall>t \<in> set (t_threads s). snd t \<noteq> Finished \<longrightarrow> thread_sim mc rcv a s t"
    by (simp add: server_sim_def)
  then have "fst t \<noteq> fd" if "t \<in> set (t_threads s)" "snd t \<noteq> Finished" "0 \<le> fd" for t
    using that new thread_sim_open by blast
  then have free: "0 \<le> fd \<Longrightarrow> fd \<notin> set (unfinished (t_threads s))" by (auto simp: unfinished_def)
  have "thread_sim mc rcv ?a s' t" if "thread_sim mc rcv a s t" for t
    using that by (auto simp: thread_sim_def s')
  moreover have "thread_sim mc rcv ?a s' (fd, Receiving)"
    using assms(1) free by (simp add: thread_sim_def server_sim_def s')
  ultimately have "\<forall>t \<in> set (t_threads s'). snd t \<noteq> Finished \<longrightarrow> thread_sim mc rcv ?a s' t"
    using old by (auto simp: s')
  moreover have "distinct (filter (\<lambda>fd. 0 \<le> fd) (unfinished (t_threads s')))"
    using assms(1) free by (auto simp: server_sim_def s')
  moreover have "\<forall>fd \<in> t_open s'. 0 \<le> fd" using assms(1) by (auto simp: server_sim_def s')
  ultimately show ?thesis
    using assms(1) unfolding server_sim_def by (simp add: s' server_view_def)
qed

text \<open>A step leaves the other threads where they are.\<close>

lemma thread_sim_other:
  assumes "thread_sim mc rcv a s t" and "0 \<le> fst t \<Longrightarrow> fst t \<noteq> fd"
    and "thread_moves mc rcv fd pc s = Inr (pc', effs, s')" and "\<not> conflict pc (snd t)"
    and "fst t \<noteq> fd \<Longrightarrow> on_fd (fst t) (effects a') = on_fd (fst t) (effects a)
           \<and> snd (world a') (fst t) = snd (world a) (fst t)"
  shows "thread_sim mc rcv a' (s'\<lparr>t_threads := ts, t_effects := t_effects s @ effs\<rparr>) t"
proof (cases "fst t < 0")
  case True
  with assms(1) show ?thesis by (simp add: thread_sim_def)
next
  case False
  then have ne: "fst t \<noteq> fd" using assms(2) by simp
  from assms(1) False obtain es where "fst t \<in> t_open s" "manager_ok (t_manager s) (snd t)"
      and "progress mc rcv (t_routes s) (fst t) (snd t) es (snd (world a) (fst t)) (t_streams s (fst t))"
      and "on_fd (fst t) (t_effects s) = on_fd (fst t) (effects a) @ es"
    by (auto simp: thread_sim_def)
  moreover from moves_own [OF assms(3)] ne
  have "t_routes s' = t_routes s" "t_streams s' (fst t) = t_streams s (fst t)" "on_fd (fst t) effs = []"
    and "fst t \<in> t_open s \<Longrightarrow> fst t \<in> t_open s'" by auto
  ultimately show ?thesis
    using assms(5) [OF ne] others_manager_ok [OF assms(3,4)] False by (auto simp: thread_sim_def)
qed

lemma sim_update:
  assumes "server_sim mc rcv a s" and ts: "t_threads s = xs @ (fd, pc) # ys" "t_threads s2 = xs @ (fd, pc') # ys"
    and "pc \<noteq> Finished" and "accepted a' = accepted a"
    and "mset (pending a') = mset (unfinished (xs @ (fd, pc') # ys))"
    and "fst (world a') = server_view s2" and "t_open s2 \<subseteq> t_open s"
    and "\<And>t. t \<in> set (xs @ ys) \<Longrightarrow> snd t \<noteq> Finished \<Longrightarrow> thread_sim mc rcv a' s2 t"
    and "pc' \<noteq> Finished \<Longrightarrow> thread_sim mc rcv a' s2 (fd, pc')"
    and away: "\<And>fd'. fd' \<noteq> fd \<Longrightarrow> on_fd fd' (t_effects s2) = on_fd fd' (t_effects s) \<and> t_streams s2 fd' = t_streams s fd'
           \<and> on_fd fd' (effects a') = on_fd fd' (effects a) \<and> snd (world a') fd' = snd (world a) fd'"
    and here: "pc' = Finished \<or> fd < 0 \<Longrightarrow>
           on_fd fd (t_effects s2) = on_fd fd (effects a') \<and> t_streams s2 fd = snd (world a') fd"
  shows "server_sim mc rcv a' s2"
proof -
  have "on_fd fd' (t_effects s2) = on_fd fd' (effects a') \<and> t_streams s2 fd' = snd (world a') fd'"
    if "fd' \<notin> set (unfinished (t_threads s2)) \<or> fd' < 0" for fd'
  proof (cases "fd' = fd")
    case True
    then show ?thesis using here that by (cases "pc' = Finished") (auto simp: ts)
  next
    case False
    with that assms(1,4) have "on_fd fd' (t_effects s) = on_fd fd' (effects a) \<and> t_streams s fd' = snd (world a) fd'"
      by (cases "pc' = Finished") (auto simp: server_sim_def ts)
    then show ?thesis using away [OF False] by simp
  qed
  moreover have "\<forall>t \<in> set (t_threads s2). snd t \<noteq> Finished \<longrightarrow> thread_sim mc rcv a' s2 t"
    using assms(9,10) by (auto simp: ts)
  moreover have "distinct (filter (\<lambda>fd. 0 \<le> fd) (unfinished (t_threads s)))"
    using assms(1) by (simp add: server_sim_def)
  then have "distinct (filter (\<lambda>fd. 0 \<le> fd) (unfinished (t_threads s2)))"
    using assms(4) unfolding ts by (cases "pc' = Finished"; cases "0 \<le> fd") simp_all
  moreover have "\<forall>fd \<in> t_open s2. 0 \<le> fd" using assms(1,8) by (auto simp: server_sim_def)
  moreover have "accepted a' = rev (map fst (t_threads s2))" using assms(1,5) by (simp add: server_sim_def ts)
  ultimately show ?thesis using assms(6,7) unfolding server_sim_def by (simp add: ts)
qed

lemma sim_run:
  assumes sim: "server_sim mc rcv a s" and run: "threaded_step mc rcv (Run i) s = Some (Inr s2)"
  shows "\<exists>a'. (a' = a \<or> default_step (http_work mc (sock_rcv rcv)) a a') \<and> server_sim mc rcv a' s2"
proof -
  obtain fd pc where t: "t_threads s ! i = (fd, pc)" by fastforce
  with run obtain pc' effs s' where i: "i < length (t_threads s)" "pc \<noteq> Finished"
      and quiet: "\<not> racing (map snd (t_threads s))"
      and m: "thread_moves mc rcv fd pc s = Inr (pc', effs, s')"
      and s2: "s2 = s'\<lparr>t_threads := (t_threads s)[i := (fd, pc')], t_effects := t_effects s @ effs\<rparr>"
    by (auto simp: rbind_Inr_iff split: if_splits)
  define xs ys where "xs = take i (t_threads s)" and "ys = drop (Suc i) (t_threads s)"
  have ts: "t_threads s = xs @ (fd, pc) # ys" using i(1) by (metis id_take_nth_drop t xs_def ys_def)
  have ts2: "t_threads s2 = xs @ (fd, pc') # ys" using i(1) by (simp add: s2 xs_def ys_def upd_conv_take_nth_drop)
  have no: "\<not> conflict pc (snd t)" if "t \<in> set (xs @ ys)" for t
    using quiet that racing_split [of xs "(fd, pc)" ys] by (auto simp: ts)
  have ne: "fst t \<noteq> fd" if "t \<in> set (xs @ ys)" "snd t \<noteq> Finished" "0 \<le> fst t" for t
    using sim that in_unfinished [of t "xs @ ys"] i(2) by (auto simp: server_sim_def ts)
  have old: "thread_sim mc rcv a s (fd, pc)" "\<forall>t \<in> set (xs @ ys). snd t \<noteq> Finished \<longrightarrow> thread_sim mc rcv a s t"
    and wa: "world a = (server_view s, snd (world a))"
    and pend: "mset (pending a) = mset (unfinished xs @ fd # unfinished ys)"
    using sim i(2) by (auto simp: server_sim_def ts intro: prod_eqI)
  have left: "mset (remove1 fd (pending a)) = mset (unfinished xs @ unfinished ys)"
    using pend by (simp add: mset_remove1)
  have acc: "accepted a = rev (map fst (t_threads s))" and st: "fst (world a) = server_view s"
    and idle: "fd' < 0 \<Longrightarrow> on_fd fd' (t_effects s) = on_fd fd' (effects a) \<and> t_streams s fd' = snd (world a) fd'" for fd'
    using sim by (auto simp: server_sim_def)
  have others: "thread_sim mc rcv a' s2 t" if "t \<in> set (xs @ ys)" "snd t \<noteq> Finished"
    "fst t \<noteq> fd \<Longrightarrow> on_fd (fst t) (effects a') = on_fd (fst t) (effects a)
       \<and> snd (world a') (fst t) = snd (world a) (fst t)" for t a'
    unfolding s2 by (rule thread_sim_other [OF _ _ m no [OF that(1)]]) (use that old(2) ne in blast)+
  show ?thesis
  proof (cases "fd < 0")
    case True
    with old(1) have "pc = Receiving" by (simp add: thread_sim_def)
    from moves_failed [OF m [unfolded this] True, of "server_view s" "snd (world a)"]
    have fin: "pc' = Finished" "effs = []" "s' = s"
        "http_work mc (sock_rcv rcv) fd (world a) = Inr ([], world a)" by (simp_all flip: wa)
    let ?a = "a\<lparr>pending := remove1 fd (pending a)\<rparr>"
    have "fd \<in> set (pending a)" using pend by (metis in_set_conv_decomp set_mset_mset)
    from thread_step [where work = "http_work mc (sock_rcv rcv)", OF this fin(4)] have "default_step (http_work mc (sock_rcv rcv)) a ?a" by simp
    moreover have "server_sim mc rcv ?a s2"
      by (rule sim_update [OF sim ts ts2 i(2)])
        (use True fin left st idle others in \<open>auto simp: s2 server_view_def\<close>)
    ultimately show ?thesis by blast
  next
    case False
    then have pos: "0 \<le> fd" by simp
    from old(1) pos obtain es where mo: "fd \<in> t_open s" "manager_ok (t_manager s) pc"
        and pr: "progress mc rcv (t_routes s) fd pc es (snd (world a) fd) (t_streams s fd)"
        and es: "on_fd fd (t_effects s) = on_fd fd (effects a) @ es"
      by (auto simp: thread_sim_def)
    note own = moves_own [OF m]
    show ?thesis
    proof (cases "pc' = Finished")
      case True
      let ?w = "(snd (world a))(fd := t_streams s' fd)"
      let ?a = "a\<lparr>pending := remove1 fd (pending a), effects := effects a @ es @ effs, world := (server_view s', ?w)\<rparr>"
      have work: "http_work mc (sock_rcv rcv) fd (world a) = Inr (es @ effs, server_view s', ?w)"
        using moves_last [where w = "snd (world a)", OF m [unfolded True] i(2) pos pr mo(2)] by (simp flip: wa)
      have "fd \<in> set (pending a)" using pend by (metis in_set_conv_decomp set_mset_mset)
      from thread_step [where work = "http_work mc (sock_rcv rcv)", OF this work] have "default_step (http_work mc (sock_rcv rcv)) a ?a" .
      moreover have mine: "on_fd fd' es = (if fd' = fd then es else [])"
          "on_fd fd' effs = (if fd' = fd then effs else [])" for fd'
        using http_work_own [OF work] by (intro on_fd_own; simp)+
      moreover have "server_sim mc rcv ?a s2"
        by (rule sim_update [OF sim ts ts2 i(2)])
          (use True left others own es mine in \<open>auto simp: s2 server_view_def\<close>)
      ultimately show ?thesis by blast
    next
      case live: False
      note on = moves_on [OF m live pos pr mo(2)]
      have me: "thread_sim mc rcv a s2 (fd, pc')"
        using on own pos mo(1) es live on_fd_own [of effs fd fd] by (auto simp: thread_sim_def s2)
      have "server_sim mc rcv a s2"
        by (rule sim_update [OF sim ts ts2 i(2)])
          (use live pos st pend others own on me in \<open>auto simp: s2 server_view_def\<close>)
      then show ?thesis by blast
    qed
  qed
qed

lemma sim_run_all:
  assumes "server_sim mc rcv a s" and "default_reach (http_work mc (sock_rcv rcv)) w0 a"
    and "threaded_run mc rcv as s = Some (Inr s2)"
  shows "\<exists>a'. default_reach (http_work mc (sock_rcv rcv)) w0 a' \<and> server_sim mc rcv a' s2"
  using assms
proof (induction as arbitrary: a s)
  case (Cons act as)
  from Cons.prems(3) obtain s1 where one: "threaded_step mc rcv act s = Some (Inr s1)"
      and rest: "threaded_run mc rcv as s1 = Some (Inr s2)"
    by (auto split: option.splits sum.splits)
  have "\<exists>a1. default_reach (http_work mc (sock_rcv rcv)) w0 a1 \<and> server_sim mc rcv a1 s1"
  proof (cases act)
    case (Accept fd)
    with one have "threaded_step mc rcv (Accept fd) s = Some (Inr s1)" by simp
    note accepts = sim_accept [OF Cons.prems(1) this]
    have "default_step (http_work mc (sock_rcv rcv)) a
        (a\<lparr>accepted := fd # accepted a, pending := fd # pending a\<rparr>)" by (rule accept_step)
    then have "default_reach (http_work mc (sock_rcv rcv)) w0
        (a\<lparr>accepted := fd # accepted a, pending := fd # pending a\<rparr>)"
      by (rule default_reach.step [OF Cons.prems(2)])
    then show ?thesis using accepts by (intro exI conjI)
  next
    case (Run i)
    with one have "threaded_step mc rcv (Run i) s = Some (Inr s1)" by simp
    from sim_run [OF Cons.prems(1) this]
    obtain a1 where "a1 = a \<or> default_step (http_work mc (sock_rcv rcv)) a a1" and "server_sim mc rcv a1 s1" by auto
    then show ?thesis using Cons.prems(2) default_reach.step [OF Cons.prems(2)] by auto
  qed
  with Cons.IH rest show ?case by blast
qed auto

lemma no_effect_outside: "on_fd fd effs = [] \<longleftrightarrow> fd \<notin> effect_fd ` set effs"
  by (auto simp: on_fd_def filter_empty_conv)

text \<open>Once there is a manager no thread makes another.\<close>

fun making :: "handler_pc \<Rightarrow> bool" where
  "making (Get_New _ _) \<longleftrightarrow> True"
| "making _ \<longleftrightarrow> False"

definition managed :: "'s threaded_state \<Rightarrow> bool" where
  "managed s \<longleftrightarrow> t_manager s \<noteq> None \<and> (\<forall>t \<in> set (t_threads s). \<not> making (snd t))"

lemma managed_step:
  assumes "managed s" and "threaded_step mc rcv act s = Some (Inr s2)"
  shows "managed s2"
proof (cases act)
  case (Accept fd)
  with assms show ?thesis by (auto simp: managed_def split: if_splits)
next
  case (Run i)
  obtain fd pc where t: "t_threads s ! i = (fd, pc)" by fastforce
  with assms(2) Run obtain pc' effs s' where m: "thread_moves mc rcv fd pc s = Inr (pc', effs, s')"
      and s2: "s2 = s'\<lparr>t_threads := (t_threads s)[i := (fd, pc')], t_effects := t_effects s @ effs\<rparr>"
    by (auto simp: rbind_Inr_iff split: if_splits)
  have "t_manager s' \<noteq> None" using moves_own [OF m] assms(1) by (simp add: managed_def)
  moreover have "\<not> making pc'"
    using m assms(1) by (cases pc) (auto simp: managed_def thread_moves_def rbind_Inr_iff split: if_splits)
  ultimately show ?thesis
    using assms(1) set_update_subset_insert [of "t_threads s" i "(fd, pc')"] by (fastforce simp: managed_def s2)
qed

lemma managed_run: "managed s \<Longrightarrow> threaded_run mc rcv as s = Some (Inr s2) \<Longrightarrow> managed s2"
  by (induction as arbitrary: s) (auto dest: managed_step split: option.splits sum.splits)

fun is_inserting :: "handler_pc \<Rightarrow> bool" where
  "is_inserting (Inserting _) \<longleftrightarrow> True"
| "is_inserting _ \<longleftrightarrow> False"

definition inserting :: "(int \<times> handler_pc) list \<Rightarrow> int list" where
  "inserting ts = map fst (filter (\<lambda>t. is_inserting (snd t)) ts)"

lemma conflict_managed: "\<not> making p \<Longrightarrow> \<not> making q \<Longrightarrow> conflict p q \<longleftrightarrow> is_inserting p \<and> is_inserting q"
  by (cases p; cases q; simp add: conflict_def)

lemma racing_managed:
  "\<forall>t \<in> set ts. \<not> making (snd t) \<Longrightarrow> racing (map snd ts) \<longleftrightarrow> 2 \<le> length (inserting ts)"
proof (induction ts)
  case (Cons t ts)
  then have "list_ex (conflict (snd t)) (map snd ts) \<longleftrightarrow> is_inserting (snd t) \<and> inserting ts \<noteq> []"
    by (auto simp: list_ex_iff conflict_managed inserting_def filter_empty_conv)
  moreover have "inserting (t # ts) = (if is_inserting (snd t) then fst t # inserting ts else inserting ts)"
    by (simp add: inserting_def)
  ultimately show ?case using Cons by (cases "inserting ts") auto
qed (simp add: inserting_def)

section \<open>What a client sees\<close>

text \<open>
  A handler whose calls see their own connection alone: another connection's call does not change
  what a call finds, and a call does the same wherever it finds the same. The client lemma: in the
  interleaved server a connection that was accepted once and is done has got what the handler gives
  it in the initial state.
\<close>

locale isolated_handler = connection_handler +
  fixes view :: "int \<Rightarrow> 'a \<Rightarrow> 'c"
  assumes views_own: "work fd w = Inr (effs, w') \<Longrightarrow> fd' \<noteq> fd \<Longrightarrow> view fd' w' = view fd' w"
    and sees_own: "work fd w = Inr (effs, w') \<Longrightarrow> view fd v = view fd w \<Longrightarrow> kept v = kept w \<Longrightarrow>
           \<exists>v'. work fd v = Inr (effs, v')"
begin

definition served_alone :: "'a \<Rightarrow> 'a default_state \<Rightarrow> int \<Rightarrow> bool" where
  "served_alone w0 s fd \<longleftrightarrow>
     (fd \<notin> set (accepted s) \<or> count (mset (accepted s)) fd = 1 \<and> fd \<in> set (pending s) \<longrightarrow>
        view fd (world s) = view fd w0 \<and> on_fd fd (effects s) = [])
     \<and> (count (mset (accepted s)) fd = 1 \<and> fd \<notin> set (pending s) \<longrightarrow>
        (\<exists>w'. work fd w0 = Inr (on_fd fd (effects s), w')))"

lemma reach_served_alone:
  assumes "default_reach work w0 s"
  shows "served_alone w0 s fd \<and> count (mset (pending s)) fd \<le> count (mset (accepted s)) fd"
  using assms
proof (induction rule: default_reach.induct)
  case start
  then show ?case by (simp add: served_alone_def on_fd_def)
next
  case (step s s')
  have inv: "default_inv s" and kept: "kept (world s) = kept w0" using reach_confined [OF step(1)] by auto
  from step(2) show ?case
  proof (cases rule: default_stepE)
    case (accept fd')
    with step.IH inv show ?thesis
      by (cases "fd' = fd") (auto simp: served_alone_def default_inv_def count_eq_zero_iff)
  next
    case (thread fd' effs w')
    have own: "\<forall>e \<in> set effs. effect_fd e = fd'" using own_connection thread by blast
    show ?thesis
    proof (cases "fd' = fd")
      case False
      then have "view fd w' = view fd (world s)" using views_own [OF thread(3), of fd] by simp
      moreover have "on_fd fd effs = []" using on_fd_own [OF own] False by simp
      moreover have "fd \<in> set (remove1 fd' (pending s)) \<longleftrightarrow> fd \<in> set (pending s)" using False by simp
      ultimately show ?thesis using step.IH thread False by (auto simp: served_alone_def)
    next
      case True
      have "fd \<in> set (accepted s)" using True thread inv by (auto simp: default_inv_def)
      moreover have "fd \<notin> set (remove1 fd (pending s))" "view fd (world s) = view fd w0" "on_fd fd (effects s) = []"
        if "count (mset (accepted s)) fd = 1"
      proof -
        have "count (mset (pending s)) fd \<le> 1" using that step.IH by simp
        then have "count (mset (remove1 fd (pending s))) fd = 0" by simp
        then show "fd \<notin> set (remove1 fd (pending s))" by (metis count_mset_0_iff)
        show "view fd (world s) = view fd w0" "on_fd fd (effects s) = []"
          using that step.IH True thread by (simp_all add: served_alone_def)
      qed
      moreover have "on_fd fd effs = effs" using on_fd_own [OF own] True by simp
      moreover have "count (mset (pending s')) fd \<le> count (mset (accepted s')) fd"
        using step.IH thread True by auto
      ultimately show ?thesis using step.IH thread True sees_own [of fd "world s" effs w' w0] kept
        by (auto simp: served_alone_def)
    qed
  qed
qed

end

lemma http_work_views:
  assumes "http_work mc (sock_rcv rcv) fd w = Inr (effs, w')"
  shows "fd' \<noteq> fd \<Longrightarrow> snd w' fd' = snd w fd'"
  using assms
  by (auto simp: http_work_def handle_connection_request_def received_str_def sock_rcv_def Let_def rbind_Inr_iff
      split: if_splits prod.splits)

lemma http_work_sees:
  assumes "http_work mc (sock_rcv rcv) fd w = Inr (effs, w')" and "snd v fd = snd w fd"
    and "routes_map_org (fst v) = routes_map_org (fst w)"
  shows "\<exists>v'. http_work mc (sock_rcv rcv) fd v = Inr (effs, v')"
proof (cases "fd < 0")
  case True
  with assms(1) show ?thesis by (simp add: http_work_def handle_connection_request_def received_failed)
next
  case False
  then have pos: "0 \<le> fd" by simp
  from assms(1) obtain str x where str: "received_str rcv (snd w fd) = Inr (str, x)"
    by (auto simp: http_work_def handle_connection_request_def received_sock [OF pos] rbind_Inr_iff)
  show ?thesis
  proof (cases "str = []")
    case True
    then show ?thesis
      using assms str by (simp add: http_work_def handle_connection_request_def received_sock [OF pos])
  next
    case False
    with assms(1) str obtain q where "read_request mc str = Inr q"
      by (auto simp: http_work_def handle_connection_request_def received_sock [OF pos] rbind_Inr_iff)
    then have g: "got mc rcv q (snd w fd) x" using str False by (auto simp: got_def)
    let ?st = "\<lparr>routes_map_org = routes_map_org (fst w), websocket_descriptor = {}\<rparr>"
    have work: "http_work mc (sock_rcv rcv) fd u =
      (if handshake_key q = []
       then rbind (respond mc ?st q) (\<lambda>(response, closefd).
              Inr (Send fd (bytes_of response) # (if closefd then [Close fd] else []), fst u, (snd u)(fd := x)))
       else rbind (get_accept_key (byte_order mc) (hash_memory mc) (handshake_key q)) (\<lambda>accept_key.
              Inr ([Send fd (bytes_of (handshake_response accept_key))],
                   (fst u)\<lparr>websocket_descriptor := insert fd (websocket_descriptor (fst u))\<rparr>, (snd u)(fd := x))))"
      if "snd u fd = snd w fd" "routes_map_org (fst u) = routes_map_org (fst w)" for u
      using work_got [where w = "snd u" and st = "fst u", OF pos, of mc rcv q x] g that
        respond_routes [of mc "fst u" q] by simp
    show ?thesis
    proof (cases "handshake_key q = []")
      case True
      with assms(1) work [OF refl refl] show ?thesis
        using work [OF assms(2,3)] by (cases "respond mc ?st q") (simp_all add: case_prod_beta)
    next
      case False
      with assms(1) work [OF refl refl] show ?thesis
        using work [OF assms(2,3)]
        by (cases "get_accept_key (byte_order mc) (hash_memory mc) (handshake_key q)") simp_all
    qed
  qed
qed

interpretation isolated: isolated_handler "http_work mc (sock_rcv rcv)" "\<lambda>w. routes_map_org (fst w)" "\<lambda>fd w. snd w fd"
  for mc rcv
  by unfold_locales (use http_work_views http_work_sees in blast)+

lemma handle_got:
  assumes "got mc rcv q x x'"
  shows "handle_connection_request mc rcv fd st x =
    (if handshake_key q = []
     then rbind (respond mc st q) (\<lambda>(response, closefd).
            Inr (Send fd (bytes_of response) # (if closefd then [Close fd] else []), st, x'))
     else rbind (get_accept_key (byte_order mc) (hash_memory mc) (handshake_key q)) (\<lambda>accept_key.
            Inr ([Send fd (bytes_of (handshake_response accept_key))],
                 st\<lparr>websocket_descriptor := insert fd (websocket_descriptor st)\<rparr>, x')))"
proof -
  from assms obtain str where "received_str rcv x = Inr (str, x')" "str \<noteq> []" "read_request mc str = Inr q"
    by (auto simp: got_def)
  then show ?thesis
    by (cases "get_accept_key (byte_order mc) (hash_memory mc) (find_websocket_key (headers q))")
      (auto simp: handle_connection_request_def handshake_key_def Let_def add_new_connection_connection_def)
qed

lemma handle_sock:
  assumes "http_work mc (sock_rcv rcv) fd (st, w) = Inr (effs, z)" and "0 \<le> fd"
  shows "\<exists>st' x. handle_connection_request mc rcv fd st (w fd) = Inr (effs, st', x)"
proof -
  from assms obtain str x where str: "received_str rcv (w fd) = Inr (str, x)"
    by (auto simp: http_work_def handle_connection_request_def received_sock rbind_Inr_iff)
  show ?thesis
  proof (cases "str = []")
    case True
    then show ?thesis using assms str by (simp add: http_work_def handle_connection_request_def received_sock)
  next
    case False
    with assms str obtain q where "read_request mc str = Inr q"
      by (auto simp: http_work_def handle_connection_request_def received_sock rbind_Inr_iff)
    then have g: "got mc rcv q (w fd) x" using str False by (auto simp: got_def)
    note both = work_got [where w = w and st = st, OF assms(2) g] handle_got [OF g, of fd st]
    show ?thesis
    proof (cases "handshake_key q = []")
      case True
      with assms(1) both show ?thesis by (cases "respond mc st q") (auto simp: case_prod_beta)
    next
      case False
      with assms(1) both show ?thesis
        by (cases "get_accept_key (byte_order mc) (hash_memory mc) (handshake_key q)") simp_all
    qed
  qed
qed

lemma count_fst: "count (mset (map fst ts)) k = length (filter (\<lambda>t. fst t = k) ts)"
  by (induction ts) auto

lemma run_served_alone:
  assumes "threaded_run mc rcv as (threaded_init rts manager w) = Some (Inr s)"
    and "0 \<le> fd" and "filter (\<lambda>t. fst t = fd) (t_threads s) = [(fd, Finished)]"
  shows "\<exists>st' x. handle_connection_request mc rcv fd
           \<lparr>routes_map_org = rts, websocket_descriptor = registered manager\<rparr> (w fd)
         = Inr (on_fd fd (t_effects s), st', x)"
proof -
  let ?w0 = "(\<lparr>routes_map_org = rts, websocket_descriptor = registered manager\<rparr>, w)"
  from sim_run_all [OF sim_start default_reach.start assms(1)]
  obtain a where reach: "default_reach (http_work mc (sock_rcv rcv)) ?w0 a" and sim: "server_sim mc rcv a s" by blast
  have idle: "fd \<notin> set (unfinished (t_threads s))"
  proof
    assume "fd \<in> set (unfinished (t_threads s))"
    then obtain pc where "(fd, pc) \<in> set (filter (\<lambda>t. fst t = fd) (t_threads s))" "pc \<noteq> Finished"
      by (auto simp: unfinished_def)
    then show False unfolding assms(3) by simp
  qed
  have "accepted a = rev (map fst (t_threads s))" using sim by (simp add: server_sim_def)
  then have "count (mset (accepted a)) fd = length (filter (\<lambda>t. fst t = fd) (t_threads s))"
    using count_fst [of "t_threads s" fd] by simp
  then have "count (mset (accepted a)) fd = 1" using assms(3) by simp
  moreover have "set (pending a) = set (unfinished (t_threads s))"
    using sim by (metis server_sim_def set_mset_mset)
  ultimately obtain z where "http_work mc (sock_rcv rcv) fd ?w0 = Inr (on_fd fd (effects a), z)"
    using isolated.reach_served_alone [OF reach, of fd] idle by (auto simp: isolated.served_alone_def)
  moreover have "on_fd fd (effects a) = on_fd fd (t_effects s)" using sim idle by (simp add: server_sim_def)
  ultimately show ?thesis using handle_sock assms(2) by metis
qed

section \<open>Properties\<close>

text \<open>
  C8: The default server refines its atomic version: in every run of its threads in which no two of
  them race, and however they interleave, what the finished calls did is what the same handler does
  when every call happens at once, in some order: the same routes, the same descriptors registered,
  the same bytes sent and closes on every connection whose thread is done, and the same rest of its
  stream. Nothing is sent on, or closed, but a connection that was accepted.
\<close>

theorem threads_refine:
  assumes "threaded_run mc rcv as (threaded_init rts manager w) = Some (Inr s)"
  shows "(\<exists>a. default_reach (http_work mc (sock_rcv rcv))
              (\<lparr>routes_map_org = rts, websocket_descriptor = registered manager\<rparr>, w) a
      \<and> accepted a = rev (map fst (t_threads s)) \<and> mset (pending a) = mset (unfinished (t_threads s))
      \<and> fst (world a) = server_view s
      \<and> (\<forall>fd. fd \<notin> set (unfinished (t_threads s)) \<longrightarrow>
           on_fd fd (t_effects s) = on_fd fd (effects a) \<and> t_streams s fd = snd (world a) fd))
    \<and> effect_fd ` set (t_effects s) \<subseteq> fst ` set (t_threads s)"
proof -
  from sim_run_all [OF sim_start default_reach.start assms]
  obtain a where reach: "default_reach (http_work mc (sock_rcv rcv))
        (\<lparr>routes_map_org = rts, websocket_descriptor = registered manager\<rparr>, w) a"
    and sim: "server_sim mc rcv a s" by blast
  have "fd \<in> fst ` set (t_threads s)" if e: "fd \<in> effect_fd ` set (t_effects s)" for fd
  proof (cases "fd \<in> set (unfinished (t_threads s))")
    case True
    then show ?thesis by (auto simp: unfinished_def)
  next
    case False
    with sim have "on_fd fd (t_effects s) = on_fd fd (effects a)" by (simp add: server_sim_def)
    then have "fd \<in> effect_fd ` set (effects a)" using e no_effect_outside by metis
    then have "fd \<in> set (accepted a)" using http.reach_confined [OF reach] by (auto simp: default_inv_def)
    then show ?thesis using sim by (simp add: server_sim_def)
  qed
  with reach sim show ?thesis by (fastforce simp: server_sim_def)
qed

text \<open>
  C10: A client of the default server is served as if it were alone: in every run without a race,
  however the threads interleave, a connection that was accepted once and whose thread is done has
  been sent, byte for byte, what a single call of the handler sends for its input on the server as
  it was at the start, and has been closed exactly when that call closes it.
\<close>

theorem served_as_if_alone:
  assumes "threaded_run mc rcv as (threaded_init rts manager w) = Some (Inr s)"
    and "0 \<le> fd" and "filter (\<lambda>t. fst t = fd) (t_threads s) = [(fd, Finished)]"
  shows "\<exists>st' x. handle_connection_request mc rcv fd
           \<lparr>routes_map_org = rts, websocket_descriptor = registered manager\<rparr> (w fd)
         = Inr (on_fd fd (t_effects s), st', x)"
  using assms by (rule run_served_alone)

text \<open>
  C25: The first two requests race: when the process has no manager yet, and two connections each have
  a request to be read, the thread that is one step ahead is about to set the pointer that the other
  is about to test, and whichever of them goes on, the behaviour is undefined.
\<close>

theorem first_requests_race:
  assumes "received_str rcv (w a) = Inr (ra, xa)" and "ra \<noteq> []" and "read_request mc ra = Inr qa"
    and "received_str rcv (w b) = Inr (rb, xb)" and "rb \<noteq> []" and "read_request mc rb = Inr qb"
    and "0 \<le> a" and "0 \<le> b" and "a \<noteq> b" and "i < 2"
  shows "threaded_run mc rcv [Accept a, Accept b, Run 0, Run 1, Run 0, Run i] (threaded_init rts None w)
    = Some (Inl Undefined_Behaviour)"
proof -
  from \<open>i < 2\<close> have "i = 0 \<or> i = 1" by auto
  then show ?thesis using assms
    by (auto simp: threaded_init_def thread_moves_def received_sock conflict_def)
qed

text \<open>
  C30: With a manager from the start, only handshakes race: in every state that the server reaches, two
  threads race exactly when two of them are about to insert their descriptor into the set.
\<close>

theorem handshakes_alone_race:
  assumes "threaded_run mc rcv as (threaded_init rts (Some ws) w) = Some (Inr s)"
  shows "racing (map snd (t_threads s)) \<longleftrightarrow> 2 \<le> length (inserting (t_threads s))"
proof -
  have "managed (threaded_init rts (Some ws) w)" by (simp add: managed_def threaded_init_def)
  from managed_run [OF this assms] show ?thesis by (simp add: managed_def racing_managed)
qed

lemma projected_run: "map_option (map_sum id f) x = Some (Inr y) \<Longrightarrow> \<exists>s. x = Some (Inr s) \<and> f s = y"
  by (cases x) (auto simp: map_sum_def split: sum.splits)

text \<open>A client that asks for a page, the server of the other witnesses, and what it answers.\<close>

definition hello_text :: string where
  "hello_text = request_text ''GET'' ''/hello'' [(''Host'', ''h'')] []"

definition hello_request :: http_request where
  "hello_request = request_object hello_machine ''GET'' ''/hello'' [(''Host'', ''h'')] [] []"

definition hello_answer :: "byte list" where
  "hello_answer = bytes_of (response_text (set_body ''GET'' (http_response_new OK)))"

lemma hello_facts:
  "received_str recv [Rx_Data (bytes_of hello_text)] = Inr (hello_text, [])"
  "hello_text \<noteq> []" "read_request hello_machine hello_text = Inr hello_request"
  "\<not> is_websocket (headers hello_request)"
  "respond hello_machine \<lparr>routes_map_org = routes_map_org hello_state, websocket_descriptor = ws\<rparr> hello_request
     = Inr (response_text (set_body ''GET'' (http_response_new OK)), True)"
proof -
  have plain: "plain_request ''GET'' ''/hello'' [(''Host'', ''h'')] []" by (simp add: plain_simps)
  show "received_str recv [Rx_Data (bytes_of hello_text)] = Inr (hello_text, [])"
    unfolding hello_text_def by (rule received_plain [OF plain])
  show "hello_text \<noteq> []" by (simp add: hello_text_def request_text_def)
  show "read_request hello_machine hello_text = Inr hello_request"
    unfolding hello_text_def hello_request_def
    by (rule read_request_plain [OF plain]) (simp add: parse_url_params_def)
  show "\<not> is_websocket (headers hello_request)"
    by (simp add: hello_request_def request_object_def is_websocket_def umap_find_request_headers)
  show "respond hello_machine \<lparr>routes_map_org = routes_map_org hello_state, websocket_descriptor = ws\<rparr> hello_request
     = Inr (response_text (set_body ''GET'' (http_response_new OK)), True)"
    using respond_exact [of "\<lparr>routes_map_org = routes_map_org hello_state, websocket_descriptor = ws\<rparr>" hello_request
        "\<lambda>req. Inr (set_body (str_verb req) (http_response_new OK))"]
    by (simp add: hello_state_def add_route_handler_def umap_insert_def hello_request_def request_object_def
        request_path_def INVALID_HTTP_URI_def set_body_def http_response_new_def)
qed

text \<open>Connection 4 says nothing yet; connection 5 is served to the end.\<close>

definition hello_streams :: "int \<Rightarrow> rx_event list" where
  "hello_streams = (\<lambda>fd. [Rx_Data (bytes_of hello_text)])"

lemma hello_run:
  "\<exists>s. threaded_run hello_machine recv ([Accept 4, Accept 5] @ replicate 6 (Run 1))
       (threaded_init (routes_map_org hello_state) None hello_streams) = Some (Inr s)
     \<and> t_threads s = [(4, Receiving), (5, Finished)] \<and> t_effects s = [Send 5 hello_answer, Close 5]"
proof -
  have "map_option (map_sum id (\<lambda>s. (t_threads s, t_effects s)))
      (threaded_run hello_machine recv ([Accept 4, Accept 5] @ replicate 6 (Run 1))
        (threaded_init (routes_map_org hello_state) None hello_streams))
    = Some (Inr ([(4, Receiving), (5, Finished)], [Send 5 hello_answer, Close 5]))"
    by (simp add: numeral_eq_Suc threaded_init_def thread_moves_def received_sock hello_streams_def hello_facts
        conflict_def server_view_def hello_answer_def)
  from projected_run [OF this] show ?thesis by auto
qed

lemma hello_initial: "\<lparr>routes_map_org = routes_map_org hello_state, websocket_descriptor = registered None\<rparr> = hello_state"
  by (simp add: registered_def hello_state_def)

theorem threads_refine_witness:
  "\<exists>a. default_reach (http_work hello_machine (sock_rcv recv)) (hello_state, hello_streams) a
     \<and> pending a = [4] \<and> on_fd 5 (effects a) = [Send 5 hello_answer, Close 5]"
proof -
  from hello_run obtain s where
    run: "threaded_run hello_machine recv ([Accept 4, Accept 5] @ replicate 6 (Run 1))
       (threaded_init (routes_map_org hello_state) None hello_streams) = Some (Inr s)"
    and s: "t_threads s = [(4, Receiving), (5, Finished)]" "t_effects s = [Send 5 hello_answer, Close 5]" by blast
  from threads_refine [OF run, unfolded hello_initial] obtain a where
    "default_reach (http_work hello_machine (sock_rcv recv)) (hello_state, hello_streams) a"
    "pending a = [4]" "on_fd 5 (effects a) = on_fd 5 (t_effects s)"
    by (auto simp: s)
  moreover have "on_fd 5 (t_effects s) = [Send 5 hello_answer, Close 5]" by (simp add: s on_fd_def effect_fd_def)
  ultimately show ?thesis by auto
qed

theorem served_as_if_alone_witness:
  "\<exists>st' x. handle_connection_request hello_machine recv 5 hello_state (hello_streams 5)
     = Inr ([Send 5 hello_answer, Close 5], st', x)"
proof -
  from hello_run obtain s where
    run: "threaded_run hello_machine recv ([Accept 4, Accept 5] @ replicate 6 (Run 1))
       (threaded_init (routes_map_org hello_state) None hello_streams) = Some (Inr s)"
    and s: "t_threads s = [(4, Receiving), (5, Finished)]" "t_effects s = [Send 5 hello_answer, Close 5]" by blast
  have "on_fd 5 (t_effects s) = [Send 5 hello_answer, Close 5]" by (simp add: s on_fd_def effect_fd_def)
  then show ?thesis using served_as_if_alone [OF run, of 5, unfolded hello_initial] by (simp add: s)
qed

theorem first_requests_race_witness:
  "threaded_run hello_machine recv [Accept 4, Accept 5, Run 0, Run 1, Run 0, Run 1]
     (threaded_init (routes_map_org hello_state) None hello_streams) = Some (Inl Undefined_Behaviour)"
  using first_requests_race [of recv hello_streams 4 hello_text "[]" hello_machine hello_request 5 hello_text "[]"
      hello_request 1 "routes_map_org hello_state"] hello_facts(1-3)
  by (simp add: hello_streams_def)

text \<open>Two clients that ask for a handshake.\<close>

definition upgrade_kvs :: "(string \<times> string) list" where
  "upgrade_kvs = [(''Upgrade'', ''websocket''), (''Sec-WebSocket-Key'', ''k'')]"

definition upgrade_text :: string where
  "upgrade_text = request_text ''GET'' ''/chat'' upgrade_kvs []"

definition upgrade_request :: http_request where
  "upgrade_request = request_object hello_machine ''GET'' ''/chat'' upgrade_kvs [] []"

lemma upgrade_facts:
  "received_str recv [Rx_Data (bytes_of upgrade_text)] = Inr (upgrade_text, [])"
  "upgrade_text \<noteq> []" "read_request hello_machine upgrade_text = Inr upgrade_request"
  "is_websocket (headers upgrade_request)" "find_websocket_key (headers upgrade_request) = ''k''"
  "get_accept_key (byte_order hello_machine) (hash_memory hello_machine) ''k'' = Inr (accept_key ''k'')"
proof -
  have plain: "plain_request ''GET'' ''/chat'' upgrade_kvs []" by (simp add: plain_simps upgrade_kvs_def)
  show "received_str recv [Rx_Data (bytes_of upgrade_text)] = Inr (upgrade_text, [])"
    unfolding upgrade_text_def by (rule received_plain [OF plain])
  show "upgrade_text \<noteq> []" by (simp add: upgrade_text_def request_text_def)
  show "read_request hello_machine upgrade_text = Inr upgrade_request"
    unfolding upgrade_text_def upgrade_request_def
    by (rule read_request_plain [OF plain]) (simp add: parse_url_params_def)
  show "is_websocket (headers upgrade_request)"
    by (simp add: upgrade_request_def request_object_def is_websocket_def umap_find_request_headers upgrade_kvs_def)
  have "to_lower_case ''Sec-WebSocket-Key'' = ''sec-websocket-key''"
    and "to_lower_case ''Upgrade'' \<noteq> ''sec-websocket-key''" by code_simp+
  then show "find_websocket_key (headers upgrade_request) = ''k''"
    by (simp add: upgrade_request_def request_object_def request_headers_def upgrade_kvs_def umap_set_def)
  show "get_accept_key (byte_order hello_machine) (hash_memory hello_machine) ''k'' = Inr (accept_key ''k'')"
    by (rule get_accept_key_eq) (simp_all add: hello_machine_def)
qed

theorem handshakes_alone_race_witness:
  "\<exists>s. threaded_run hello_machine recv ([Accept 4, Accept 5] @ replicate 6 (Run 0) @ replicate 6 (Run 1))
       (threaded_init (routes_map_org hello_state) (Some {}) (\<lambda>fd. [Rx_Data (bytes_of upgrade_text)])) = Some (Inr s)
     \<and> inserting (t_threads s) = [4, 5] \<and> racing (map snd (t_threads s))"
proof -
  let ?as = "[Accept 4, Accept 5] @ replicate 6 (Run 0) @ replicate 6 (Run 1)"
  let ?s0 = "threaded_init (routes_map_org hello_state) (Some {}) (\<lambda>fd. [Rx_Data (bytes_of upgrade_text)])"
  have "map_option (map_sum id t_threads) (threaded_run hello_machine recv ?as ?s0)
    = Some (Inr [(4, Inserting upgrade_request), (5, Inserting upgrade_request)])"
    by (simp add: numeral_eq_Suc threaded_init_def thread_moves_def received_sock upgrade_facts conflict_def)
  from projected_run [OF this] obtain s where run: "threaded_run hello_machine recv ?as ?s0 = Some (Inr s)"
    and s: "t_threads s = [(4, Inserting upgrade_request), (5, Inserting upgrade_request)]"
    by auto
  from handshakes_alone_race [OF run] run show ?thesis by (simp add: s inserting_def)
qed

end
