(* ===== verification/Tcp_Progress.thy ===== *)
theory Tcp_Progress
  imports Tcp_Threads
begin

text \<open>
  That the threads of the default server (src/tcp_default_handler.cpp, src/http_handler.cpp) end:
  a bound on the steps of any run, and the way from any state of a server with a manager to one
  where every thread is done.
\<close>

section \<open>A bound\<close>

text \<open>The steps that a thread has still to take, at most.\<close>

fun rank :: "handler_pc \<Rightarrow> nat" where
  "rank Receiving = 9"
| "rank (Get_Test again _) = (if again then 5 else 8)"
| "rank (Get_New again _) = (if again then 4 else 7)"
| "rank (Get_Return again _) = (if again then 3 else 6)"
| "rank (Handshaking _) = 2"
| "rank (Inserting _) = 1"
| "rank (Responding _) = 2"
| "rank (Closing _) = 1"
| "rank Finished = 0"

definition still_to_do :: "(int \<times> handler_pc) list \<Rightarrow> nat" where
  "still_to_do ts = sum_list (map (\<lambda>t. rank (snd t)) ts)"

lemma moves_rank:
  "thread_moves mc rcv fd pc s = Inr (pc', effs, s') \<Longrightarrow> pc \<noteq> Finished \<Longrightarrow> rank pc' < rank pc"
  by (cases pc) (auto simp: thread_moves_def rbind_Inr_iff split: if_splits)

fun is_run :: "server_action \<Rightarrow> bool" where
  "is_run (Run _) \<longleftrightarrow> True"
| "is_run (Accept _) \<longleftrightarrow> False"

lemma step_rank:
  assumes "threaded_step mc rcv act s = Some (Inr s')"
  shows "still_to_do (t_threads s') + (if is_run act then 1 else 0)
    \<le> still_to_do (t_threads s) + (if is_run act then 0 else 9)"
proof (cases act)
  case (Accept fd)
  with assms show ?thesis by (auto simp: still_to_do_def split: if_splits)
next
  case (Run i)
  obtain fd pc where t: "t_threads s ! i = (fd, pc)" by fastforce
  with assms Run obtain pc' effs s1 where i: "i < length (t_threads s)" "pc \<noteq> Finished"
      and m: "thread_moves mc rcv fd pc s = Inr (pc', effs, s1)"
      and s': "t_threads s' = (t_threads s)[i := (fd, pc')]"
    by (auto simp: rbind_Inr_iff split: if_splits)
  have "still_to_do (t_threads s) = still_to_do (take i (t_threads s)) + rank pc + still_to_do (drop (Suc i) (t_threads s))"
    using i(1) t by (subst id_take_nth_drop [OF i(1)]) (simp add: still_to_do_def)
  moreover have "still_to_do (t_threads s') = still_to_do (take i (t_threads s)) + rank pc' + still_to_do (drop (Suc i) (t_threads s))"
    using i(1) by (simp add: s' upd_conv_take_nth_drop still_to_do_def)
  ultimately show ?thesis using moves_rank [OF m i(2)] Run by simp
qed

lemma run_rank:
  "threaded_run mc rcv as s = Some (Inr s') \<Longrightarrow>
     still_to_do (t_threads s') + length (filter is_run as)
     \<le> still_to_do (t_threads s) + 9 * length (filter (\<lambda>a. \<not> is_run a) as)"
proof (induction as arbitrary: s)
  case (Cons a as)
  from Cons.prems obtain s1 where one: "threaded_step mc rcv a s = Some (Inr s1)"
      and rest: "threaded_run mc rcv as s1 = Some (Inr s')"
    by (auto split: option.splits sum.splits)
  from Cons.IH [OF rest] step_rank [OF one] show ?case by (cases "is_run a") simp_all
qed simp

section \<open>The way to the end\<close>

text \<open>
  Streams on which no call of the handler faults. \<open>good\<close> describes them; what a read leaves of a good
  stream is good.
\<close>

definition faultless :: "machine \<Rightarrow> 's recv_fun \<Rightarrow> endpointcb routes \<Rightarrow> ('s \<Rightarrow> bool) \<Rightarrow> bool" where
  "faultless mc rcv rts good \<longleftrightarrow>
     (\<forall>x. good x \<longrightarrow> good (snd (snd (rcv default_max_buffer x)))
        \<and> (\<forall>fd st. routes_map_org st = rts \<longrightarrow> (\<exists>r. handle_connection_request mc rcv fd st x = Inr r)))"

text \<open>The rest of a call that has read the request \<open>q\<close> does not fault.\<close>

definition answers :: "machine \<Rightarrow> endpointcb routes \<Rightarrow> http_request \<Rightarrow> bool" where
  "answers mc rts q \<longleftrightarrow>
     (if handshake_key q = []
      then \<exists>r. respond mc \<lparr>routes_map_org = rts, websocket_descriptor = {}\<rparr> q = Inr r
      else \<exists>k. get_accept_key (byte_order mc) (hash_memory mc) (handshake_key q) = Inr k)"

fun on_course :: "machine \<Rightarrow> endpointcb routes \<Rightarrow> handler_pc \<Rightarrow> bool" where
  "on_course mc rts (Get_Test again q) \<longleftrightarrow> answers mc rts q \<and> (again \<longrightarrow> is_websocket (headers q))"
| "on_course mc rts (Get_New again q) \<longleftrightarrow> answers mc rts q \<and> (again \<longrightarrow> is_websocket (headers q))"
| "on_course mc rts (Get_Return again q) \<longleftrightarrow> answers mc rts q \<and> (again \<longrightarrow> is_websocket (headers q))"
| "on_course mc rts (Handshaking q) \<longleftrightarrow> answers mc rts q \<and> handshake_key q \<noteq> []"
| "on_course mc rts (Responding q) \<longleftrightarrow> answers mc rts q \<and> handshake_key q = []"
| "on_course mc rts _ \<longleftrightarrow> True"

definition healthy :: "machine \<Rightarrow> endpointcb routes \<Rightarrow> ('s \<Rightarrow> bool) \<Rightarrow> 's threaded_state \<Rightarrow> bool" where
  "healthy mc rts good s \<longleftrightarrow> t_routes s = rts \<and> (\<forall>fd. good (t_streams s fd))
     \<and> (\<forall>t \<in> set (t_threads s). on_course mc rts (snd t))"

lemma received_stream: "received_str rcv x = Inr (str, x') \<Longrightarrow> x' = snd (snd (rcv default_max_buffer x))"
  by (auto simp: received_str_def split: prod.splits if_splits)

lemma faultless_received:
  assumes "faultless mc rcv rts good" and "good x"
  shows "\<exists>str x'. received_str rcv x = Inr (str, x') \<and> good x'
    \<and> (str \<noteq> [] \<longrightarrow> (\<exists>q. read_request mc str = Inr q \<and> answers mc rts q))"
proof -
  let ?st = "\<lparr>routes_map_org = rts, websocket_descriptor = {}\<rparr>"
  obtain r where r: "handle_connection_request mc rcv 0 ?st x = Inr r"
    using assms unfolding faultless_def by fastforce
  then obtain str x' where str: "received_str rcv x = Inr (str, x')"
    by (auto simp: handle_connection_request_def rbind_Inr_iff)
  have "good x'" using assms received_stream [OF str] by (simp add: faultless_def)
  moreover have "\<exists>q. read_request mc str = Inr q \<and> answers mc rts q" if "str \<noteq> []"
  proof -
    from r str that obtain q where q: "read_request mc str = Inr q"
      by (auto simp: handle_connection_request_def rbind_Inr_iff)
    with str that have "got mc rcv q x x'" by (auto simp: got_def)
    from handle_got [OF this, of 0 ?st] r q show ?thesis
      by (cases "respond mc ?st q"; cases "get_accept_key (byte_order mc) (hash_memory mc) (handshake_key q)")
        (auto simp: answers_def split: if_splits)
  qed
  ultimately show ?thesis using str by blast
qed

lemma moves_on_course:
  assumes "faultless mc rcv rts good" and "t_routes s = rts" and "\<forall>fd. good (t_streams s fd)"
    and "on_course mc rts pc"
  shows "\<exists>pc' effs s'. thread_moves mc rcv fd pc s = Inr (pc', effs, s') \<and> on_course mc rts pc'
    \<and> t_routes s' = rts \<and> (\<forall>fd. good (t_streams s' fd))"
proof (cases pc)
  case Receiving
  show ?thesis
  proof (cases "fd < 0")
    case True
    with Receiving assms show ?thesis by (simp add: thread_moves_def received_failed)
  next
    case False
    then have pos: "0 \<le> fd" by simp
    from faultless_received [OF assms(1), of "t_streams s fd"] assms(3) obtain str x' where
      "received_str rcv (t_streams s fd) = Inr (str, x')" "good x'"
      and "str \<noteq> [] \<longrightarrow> (\<exists>q. read_request mc str = Inr q \<and> answers mc rts q)" by blast
    with Receiving assms show ?thesis
      by (cases "str = []") (auto simp: thread_moves_def received_sock [OF pos])
  qed
next
  case (Handshaking q)
  with assms(4) have "is_websocket (headers q)" "handshake_key q = find_websocket_key (headers q)"
    by (auto simp: handshake_key_def split: if_splits)
  with Handshaking assms show ?thesis by (auto simp: thread_moves_def answers_def)
next
  case (Responding q)
  with assms respond_routes [of mc "server_view s" q] show ?thesis
    by (auto simp: thread_moves_def answers_def server_view_def)
qed (use assms in \<open>auto simp: thread_moves_def handshake_key_def\<close>)

lemma healthy_run_step:
  assumes "faultless mc rcv rts good" and "healthy mc rts good s" and "managed s" and "i < length (t_threads s)"
    and "t_threads s ! i = (fd, pc)" and "pc \<noteq> Finished" and "\<not> racing (map snd (t_threads s))"
  shows "\<exists>s' pc'. threaded_step mc rcv (Run i) s = Some (Inr s') \<and> healthy mc rts good s' \<and> managed s'
    \<and> t_threads s' = (t_threads s)[i := (fd, pc')] \<and> rank pc' < rank pc"
proof -
  have "on_course mc rts pc"
    using assms(2) nth_mem [OF assms(4)] assms(5) by (fastforce simp: healthy_def)
  with moves_on_course [OF assms(1), of s pc fd] assms(2) obtain pc' effs s1 where
    m: "thread_moves mc rcv fd pc s = Inr (pc', effs, s1)" and pc': "on_course mc rts pc'"
    and s1: "t_routes s1 = rts" "\<forall>fd. good (t_streams s1 fd)"
    by (auto simp: healthy_def)
  let ?s' = "s1\<lparr>t_threads := (t_threads s)[i := (fd, pc')], t_effects := t_effects s @ effs\<rparr>"
  have step: "threaded_step mc rcv (Run i) s = Some (Inr ?s')" using assms(4-7) m by simp
  moreover have "healthy mc rts good ?s'"
    using assms(2) s1 pc' set_update_subset_insert [of "t_threads s" i "(fd, pc')"] by (auto simp: healthy_def)
  moreover have "managed ?s'" by (rule managed_step [OF assms(3) step])
  ultimately show ?thesis using moves_rank [OF m assms(6)] by auto
qed

lemma inserting_update:
  assumes "i < length ts" and "\<And>j. j < length ts \<Longrightarrow> j \<noteq> i \<Longrightarrow> \<not> is_inserting (snd (ts ! j))"
  shows "length (inserting ts) \<le> 1"
proof -
  let ?xs = "take i ts" and ?ys = "drop (Suc i) ts"
  have "\<not> is_inserting (snd t)" if "t \<in> set ?xs \<union> set ?ys" for t
    using that assms by (auto simp: in_set_conv_nth)
  then have "inserting ?xs = []" "inserting ?ys = []" by (auto simp: inserting_def filter_empty_conv)
  then show ?thesis
    by (subst id_take_nth_drop [OF assms(1)]) (simp add: inserting_def)
qed

text \<open>A thread runs to its end when no other is about to insert.\<close>

lemma run_thread:
  assumes "faultless mc rcv rts good"
  shows "healthy mc rts good s \<Longrightarrow> managed s \<Longrightarrow> i < length (t_threads s) \<Longrightarrow> t_threads s ! i = (fd, pc) \<Longrightarrow>
     (\<And>j. j < length (t_threads s) \<Longrightarrow> j \<noteq> i \<Longrightarrow> \<not> is_inserting (snd (t_threads s ! j))) \<Longrightarrow>
     \<exists>as s'. threaded_run mc rcv as s = Some (Inr s') \<and> healthy mc rts good s' \<and> managed s'
       \<and> t_threads s' = (t_threads s)[i := (fd, Finished)]"
proof (induction "rank pc" arbitrary: s pc rule: less_induct)
  case less
  show ?case
  proof (cases "pc = Finished")
    case True
    then have "t_threads s = (t_threads s)[i := (fd, Finished)]" using less.prems(4) by (metis list_update_id)
    then show ?thesis using less.prems(1,2) by (intro exI [of _ "[]"]) auto
  next
    case False
    have "\<not> racing (map snd (t_threads s))"
      using inserting_update [OF less.prems(3,5)] less.prems(2) racing_managed [of "t_threads s"]
      by (auto simp: managed_def)
    from healthy_run_step [OF assms less.prems(1-4) False this] obtain s1 pc1 where
      one: "threaded_step mc rcv (Run i) s = Some (Inr s1)" "healthy mc rts good s1" "managed s1"
      and s1: "t_threads s1 = (t_threads s)[i := (fd, pc1)]" and "rank pc1 < rank pc" by blast
    from less.hyps [OF this(5) one(2,3)] s1 less.prems(3,5) obtain as s' where
      "threaded_run mc rcv as s1 = Some (Inr s')" "healthy mc rts good s'" "managed s'"
      "t_threads s' = (t_threads s)[i := (fd, Finished)]" by fastforce
    then show ?thesis using one(1) by (intro exI [of _ "Run i # as"] exI [of _ s']) simp
  qed
qed

lemma threaded_run_append:
  "threaded_run mc rcv as s = Some (Inr s1) \<Longrightarrow> threaded_run mc rcv (as @ bs) s = threaded_run mc rcv bs s1"
  by (induction as arbitrary: s) (auto split: option.splits sum.splits)

definition finish :: "nat \<Rightarrow> (int \<times> handler_pc) list \<Rightarrow> (int \<times> handler_pc) list" where
  "finish n ts = map (\<lambda>t. (fst t, Finished)) (take n ts) @ drop n ts"

lemma finish_Suc: "n < length ts \<Longrightarrow> (finish n ts)[n := (fst (ts ! n), Finished)] = finish (Suc n) ts"
  by (simp add: finish_def take_Suc_conv_app_nth list_update_append Cons_nth_drop_Suc [symmetric])

lemma run_threads:
  assumes "faultless mc rcv rts good" and "healthy mc rts good s" and "managed s"
    and "\<forall>t \<in> set (t_threads s). \<not> is_inserting (snd t)"
  shows "n \<le> length (t_threads s) \<Longrightarrow>
    \<exists>as s'. threaded_run mc rcv as s = Some (Inr s') \<and> healthy mc rts good s' \<and> managed s'
      \<and> t_threads s' = finish n (t_threads s)"
proof (induction n)
  case 0
  then show ?case using assms by (intro exI [of _ "[]"]) (auto simp: finish_def)
next
  case (Suc n)
  then obtain as s1 where one: "threaded_run mc rcv as s = Some (Inr s1)" "healthy mc rts good s1" "managed s1"
      and s1: "t_threads s1 = finish n (t_threads s)" by auto
  have n: "n < length (t_threads s)" using Suc.prems by simp
  have at_n: "t_threads s1 ! n = (fst (t_threads s ! n), snd (t_threads s ! n))"
    using n by (simp add: s1 finish_def nth_append)
  have "set (t_threads s1) \<subseteq> (\<lambda>t. (fst t, Finished)) ` set (t_threads s) \<union> set (t_threads s)"
    unfolding s1 finish_def by (auto dest: in_set_takeD in_set_dropD)
  then have "\<not> is_inserting (snd (t_threads s1 ! j))" if "j < length (t_threads s1)" for j
    using assms(4) nth_mem [OF that] by fastforce
  then obtain bs s2 where "threaded_run mc rcv bs s1 = Some (Inr s2)" "healthy mc rts good s2" "managed s2"
      "t_threads s2 = (t_threads s1)[n := (fst (t_threads s ! n), Finished)]"
    using run_thread [OF assms(1) one(2,3), of n, OF _ at_n] n by (auto simp: s1 finish_def)
  with one(1) finish_Suc [OF n] s1 show ?case
    by (intro exI [of _ "as @ bs"] exI [of _ s2]) (simp add: threaded_run_append)
qed

lemma run_to_end:
  assumes "faultless mc rcv rts good" and "healthy mc rts good s" and "managed s" and "length (inserting (t_threads s)) \<le> 1"
  shows "\<exists>as s'. threaded_run mc rcv as s = Some (Inr s') \<and> unfinished (t_threads s') = []
    \<and> map fst (t_threads s') = map fst (t_threads s)"
proof -
  have "\<exists>as s1. threaded_run mc rcv as s = Some (Inr s1) \<and> healthy mc rts good s1 \<and> managed s1
      \<and> map fst (t_threads s1) = map fst (t_threads s) \<and> (\<forall>t \<in> set (t_threads s1). \<not> is_inserting (snd t))"
  proof (cases "\<forall>t \<in> set (t_threads s). \<not> is_inserting (snd t)")
    case True
    then show ?thesis using assms(2,3) by (intro exI [of _ "[]"]) auto
  next
    case False
    then obtain xs t ys where ts: "t_threads s = xs @ t # ys" and t: "is_inserting (snd t)"
      by (meson split_list)
    with assms(4) have "inserting xs = []" "inserting ys = []" by (auto simp: inserting_def)
    then have rest: "\<not> is_inserting (snd u)" if "u \<in> set xs \<union> set ys" for u
      using that by (auto simp: inserting_def filter_empty_conv)
    have "\<not> is_inserting (snd (t_threads s ! j))" if "j < length (t_threads s)" "j \<noteq> length xs" for j
    proof -
      have "t_threads s ! j \<in> set xs \<union> set ys"
        using that by (auto simp: ts nth_append nth_Cons split: nat.splits)
      then show ?thesis by (rule rest)
    qed
    from run_thread [OF assms(1-3), of "length xs" "fst t" "snd t", OF _ _ this] obtain as s1 where
      "threaded_run mc rcv as s = Some (Inr s1)" "healthy mc rts good s1" "managed s1"
      "t_threads s1 = xs @ (fst t, Finished) # ys" by (auto simp: ts)
    with rest show ?thesis by (intro exI [of _ as] exI [of _ s1]) (auto simp: ts)
  qed
  then obtain as s1 where one: "threaded_run mc rcv as s = Some (Inr s1)" "healthy mc rts good s1" "managed s1"
      "map fst (t_threads s1) = map fst (t_threads s)" "\<forall>t \<in> set (t_threads s1). \<not> is_inserting (snd t)" by blast
  from run_threads [OF assms(1) one(2,3,5) order_refl] obtain bs s2 where
    two: "threaded_run mc rcv bs s1 = Some (Inr s2)" "t_threads s2 = finish (length (t_threads s1)) (t_threads s1)" by blast
  have "unfinished (t_threads s2) = []" "map fst (t_threads s2) = map fst (t_threads s1)"
    by (auto simp: two(2) finish_def unfinished_def filter_empty_conv)
  then show ?thesis using one two by (intro exI [of _ "as @ bs"] exI [of _ s2]) (simp add: threaded_run_append)
qed

lemma healthy_step:
  assumes "faultless mc rcv rts good" and "healthy mc rts good s" and "managed s"
    and "threaded_step mc rcv act s = Some (Inr s')"
  shows "healthy mc rts good s'"
proof (cases act)
  case (Accept fd)
  with assms(2,4) show ?thesis by (auto simp: healthy_def split: if_splits)
next
  case (Run i)
  obtain fd pc where t: "t_threads s ! i = (fd, pc)" by fastforce
  with assms(4) Run have "i < length (t_threads s)" "pc \<noteq> Finished" "\<not> racing (map snd (t_threads s))"
    by (auto split: if_splits)
  from healthy_run_step [OF assms(1-3) this(1) t this(2,3)] assms(4) Run show ?thesis by auto
qed

lemma healthy_run:
  assumes "faultless mc rcv rts good"
  shows "healthy mc rts good s \<Longrightarrow> managed s \<Longrightarrow> threaded_run mc rcv as s = Some (Inr s') \<Longrightarrow>
    healthy mc rts good s' \<and> managed s'"
proof (induction as arbitrary: s)
  case (Cons a as)
  from Cons.prems(3) obtain s1 where one: "threaded_step mc rcv a s = Some (Inr s1)"
      and rest: "threaded_run mc rcv as s1 = Some (Inr s')"
    by (auto split: option.splits sum.splits)
  from Cons.IH [OF healthy_step [OF assms Cons.prems(1,2) one] managed_step [OF Cons.prems(2) one] rest] show ?case .
qed simp

lemma run_finishes:
  assumes "faultless mc rcv rts good" and "\<And>fd. good (w fd)"
    and "threaded_run mc rcv as (threaded_init rts (Some ws) w) = Some (Inr s)"
    and "\<not> racing (map snd (t_threads s))"
  shows "\<exists>bs s'. threaded_run mc rcv bs s = Some (Inr s') \<and> unfinished (t_threads s') = []
      \<and> map fst (t_threads s') = map fst (t_threads s)"
proof -
  have "healthy mc rts good (threaded_init rts (Some ws) w)" "managed (threaded_init rts (Some ws) w)"
    using assms(2) by (simp_all add: healthy_def managed_def threaded_init_def)
  from healthy_run [OF assms(1) this assms(3)] have s: "healthy mc rts good s" "managed s" by auto
  then have "length (inserting (t_threads s)) \<le> 1"
    using assms(4) racing_managed [of "t_threads s"] by (auto simp: managed_def)
  from run_to_end [OF assms(1) s this] show ?thesis .
qed

section \<open>Properties\<close>

text \<open>
  C11: The threads of the default server come to an end: when the manager exists from the start and no
  call of the handler faults on its input, then from every state that is reached and in which no two
  threads race, there is a way on, without a race and without a fault, to a state in which every
  thread is done; and no run at all takes more than nine steps for each connection it accepts.
\<close>

theorem threads_finish:
  assumes "faultless mc rcv rts good" and "\<And>fd. good (w fd)"
    and "threaded_run mc rcv as (threaded_init rts (Some ws) w) = Some (Inr s)"
    and "\<not> racing (map snd (t_threads s))"
  shows "(\<exists>bs s'. threaded_run mc rcv bs s = Some (Inr s') \<and> unfinished (t_threads s') = []
      \<and> map fst (t_threads s') = map fst (t_threads s))
    \<and> length (filter is_run as) \<le> 9 * length (filter (\<lambda>a. \<not> is_run a) as)"
  using run_finishes [OF assms] run_rank [OF assms(3)] by (simp add: threaded_init_def still_to_do_def)

lemma hello_faultless:
  "faultless hello_machine recv (routes_map_org hello_state) (\<lambda>x. x = [] \<or> x = [Rx_Data (bytes_of hello_text)])"
proof -
  have 1: "snd (snd (recv default_max_buffer [Rx_Data (bytes_of hello_text)])) = []"
    using received_stream [OF hello_facts(1)] by simp
  have 2: "\<exists>r. handle_connection_request hello_machine recv fd st [Rx_Data (bytes_of hello_text)] = Inr r"
    if "routes_map_org st = routes_map_org hello_state" for fd st
  proof -
    have "got hello_machine recv hello_request [Rx_Data (bytes_of hello_text)] []"
      using hello_facts(1-3) by (auto simp: got_def)
    from handle_got [OF this, of fd st] show ?thesis
      using hello_facts(4) hello_facts(5) [of "{}"] respond_routes [of hello_machine st hello_request] that
      by (simp add: handshake_key_def)
  qed
  have "\<exists>r. handle_connection_request hello_machine recv fd st [] = Inr r" for fd st
    by (simp add: handle_connection_request_def received_str_def)
  with 1 2 show ?thesis by (auto simp: faultless_def)
qed

theorem threads_finish_witness:
  "\<exists>s bs s'. threaded_run hello_machine recv [Accept 4, Accept 5, Run 0, Run 1, Run 0]
        (threaded_init (routes_map_org hello_state) (Some {}) hello_streams) = Some (Inr s)
     \<and> threaded_run hello_machine recv bs s = Some (Inr s') \<and> unfinished (t_threads s') = []"
proof -
  let ?as = "[Accept 4, Accept 5, Run 0, Run 1, Run 0]"
  let ?s0 = "threaded_init (routes_map_org hello_state) (Some {}) hello_streams"
  have "map_option (map_sum id t_threads) (threaded_run hello_machine recv ?as ?s0)
    = Some (Inr [(4, Get_Return False hello_request), (5, Get_Test False hello_request)])"
    by (simp add: threaded_init_def thread_moves_def received_sock hello_streams_def hello_facts conflict_def)
  from projected_run [OF this] obtain s where run: "threaded_run hello_machine recv ?as ?s0 = Some (Inr s)"
    and s: "t_threads s = [(4, Get_Return False hello_request), (5, Get_Test False hello_request)]" by blast
  have "\<not> racing (map snd (t_threads s))" by (simp add: s conflict_def)
  from threads_finish [OF hello_faultless _ run this] run show ?thesis by (auto simp: hello_streams_def)
qed

end
