(* ===== verification/Ns_Isolated.thy ===== *)
theory Ns_Isolated
  imports Tcp_Threads Ns_Server
begin

text \<open>
  The older server (src/http/simple_server_http.cpp) under its own threads, a call at a time: its
  handler keeps to its connection in the sense of \<open>isolated_handler\<close>, as the newer one does, so that
  its clients too are served as if each were alone.
\<close>

section \<open>Lemmas\<close>

text \<open>What a call does to the network does not depend on the WebSockets there are.\<close>

lemma handshake_any:
  "handle_websocket_handshake mc q con ws = Inr (effs, ws') \<Longrightarrow>
     \<exists>v'. handle_websocket_handshake mc q con v = Inr (effs, v')"
  by (auto simp: handle_websocket_handshake_def create_new_ws_connection_def Let_def rbind_Inr_iff split: if_splits)

lemma process_any:
  assumes "ns_process mc srv con str ws = Inr (effs, ws')"
  shows "\<exists>v'. ns_process mc srv con str v = Inr (effs, v')"
proof -
  from assms obtain http_verb target url_str hs params where
    parts: "ns_extract_http_verb str = Inr http_verb" "ns_extract_url_with_query_params str = Inr target"
      "ns_extract_url str = Inr url_str" "ns_parse_headers str = Inr hs" "ns_parse_url_params target = Inr params"
    by (auto simp: ns_process_def Let_def rbind_Inr_iff)
  show ?thesis
  proof (cases "is_websocket_request hs")
    case True
    with assms parts handshake_any show ?thesis by (fastforce simp: ns_process_def Let_def)
  next
    case False
    let ?request = "\<lparr>requestVerb = parseRequestVerb str, req_url = url_str, req_headers = hs,
      req_query_params = params, req_body = ns_extract_body str\<rparr>"
    from assms parts False obtain it response where
      "ns_query_endpoint_from_map (regex mc) url_str (ns_routes_map srv) = Inr it"
      "(if fst it = INVALID_HTTP_URI then Inr (echo_response (echo_page http_verb url_str target hs params))
        else case snd it of None \<Rightarrow> Inl Bad_Function_Call
             | Some cb \<Rightarrow> rbind (cb ?request) (\<lambda>res. Inr (buildResponse res))) = Inr response"
      "effs = [Send con (bytes_of response), Close con]"
      by (auto simp: ns_process_def Let_def rbind_Inr_iff)
    with parts False show ?thesis by (intro exI [of _ v]) (simp add: ns_process_def Let_def)
  qed
qed

lemma ns_views:
  "ns_work mc (sock_rcv rcv) srv fd w = Inr (effs, w') \<Longrightarrow> fd' \<noteq> fd \<Longrightarrow> snd w' fd' = snd w fd'"
  by (auto simp: ns_work_def ns_handle_connection_request_def sock_rcv_def rbind_Inr_iff split: if_splits prod.splits)

lemma ns_sees:
  assumes "ns_work mc (sock_rcv rcv) srv fd w = Inr (effs, w')" and "snd v fd = snd w fd"
  shows "\<exists>v'. ns_work mc (sock_rcv rcv) srv fd v = Inr (effs, v')"
proof (cases "fd < 0")
  case True
  with assms(1) show ?thesis by (simp add: ns_work_def ns_handle_connection_request_def sock_rcv_def)
next
  case False
  obtain n d x where r: "rcv ns_default_max_buffer (snd w fd) = (n, d, x)"
    by (cases "rcv ns_default_max_buffer (snd w fd)")
  show ?thesis
  proof (cases "n > 0")
    case True
    with assms(1) False r obtain ws' where
      ok: "\<not> (length d = ns_default_max_buffer \<and> 0 \<notin> set d)"
        "ns_process mc srv fd (c_str (string_of d)) (fst w) = Inr (effs, ws')"
      by (auto simp: ns_work_def ns_handle_connection_request_def sock_rcv_def rbind_Inr_iff split: if_splits)
    from process_any [OF ok(2), of "fst v"] obtain v' where
      "ns_process mc srv fd (c_str (string_of d)) (fst v) = Inr (effs, v')" by blast
    with True False r ok(1) assms(2) show ?thesis
      by (auto simp: ns_work_def ns_handle_connection_request_def sock_rcv_def)
  next
    case nothing: False
    with False r assms show ?thesis by (simp add: ns_work_def ns_handle_connection_request_def sock_rcv_def)
  qed
qed

interpretation ns_isolated: isolated_handler "ns_work mc (sock_rcv rcv) srv" "\<lambda>w. event_fd (fst w)" "\<lambda>fd w. snd w fd"
  for mc rcv srv
  by unfold_locales (use ns_views ns_sees in blast)+

lemma ns_handle_sock:
  assumes "ns_work mc (sock_rcv rcv) srv fd (ws, w) = Inr (effs, z)" and "0 \<le> fd"
  shows "\<exists>ws' x. ns_handle_connection_request mc rcv srv fd ws (w fd) = Inr (effs, ws', x)"
proof -
  obtain n d x where "rcv ns_default_max_buffer (w fd) = (n, d, x)"
    by (cases "rcv ns_default_max_buffer (w fd)")
  with assms show ?thesis
    by (auto simp: ns_work_def ns_handle_connection_request_def sock_rcv_def rbind_Inr_iff split: if_splits)
qed

text \<open>
  Inputs on which no call faults: whatever descriptor and WebSockets there are, a call on a good stream
  returns, and what it leaves of the stream is good.
\<close>

definition ns_faultless :: "machine \<Rightarrow> 's recv_fun \<Rightarrow> ns_http_server \<Rightarrow> ('s \<Rightarrow> bool) \<Rightarrow> bool" where
  "ns_faultless mc rcv srv good \<longleftrightarrow>
     (\<forall>x. good x \<longrightarrow> (\<forall>fd ws. \<exists>effs ws' x'.
        ns_handle_connection_request mc rcv srv fd ws x = Inr (effs, ws', x') \<and> good x'))"

lemma ns_work_good:
  assumes "ns_faultless mc rcv srv good" and "\<forall>fd. good (snd v fd)"
  shows "\<exists>effs v'. ns_work mc (sock_rcv rcv) srv fd v = Inr (effs, v') \<and> (\<forall>fd. good (snd v' fd))"
proof (cases "fd < 0")
  case True
  with assms(2) show ?thesis by (simp add: ns_work_def ns_handle_connection_request_def sock_rcv_def)
next
  case False
  have "\<exists>effs ws' x'. ns_handle_connection_request mc rcv srv fd (fst v) (snd v fd) = Inr (effs, ws', x') \<and> good x'"
    using assms by (auto simp: ns_faultless_def)
  then obtain effs ws' x' where r: "ns_handle_connection_request mc rcv srv fd (fst v) (snd v fd) = Inr (effs, ws', x')"
    "good x'" by blast
  obtain n d x where "rcv ns_default_max_buffer (snd v fd) = (n, d, x)"
    by (cases "rcv ns_default_max_buffer (snd v fd)")
  with r False have "ns_work mc (sock_rcv rcv) srv fd v = Inr (effs, ws', (snd v)(fd := x'))"
    by (auto simp: ns_work_def ns_handle_connection_request_def sock_rcv_def rbind_Inr_iff split: if_splits)
  then show ?thesis using r(2) assms(2) by simp
qed

lemma ns_reach_good:
  assumes "ns_faultless mc rcv srv good" and "\<forall>fd. good (w fd)"
    and "default_reach (ns_work mc (sock_rcv rcv) srv) (ws, w) s"
  shows "\<forall>fd. good (snd (world s) fd)"
  using assms(3)
proof (induction rule: default_reach.induct)
  case (step s s')
  from step.hyps(2) show ?case
  proof (cases rule: default_step.cases)
    case (thread_step fd effs v')
    with ns_work_good [OF assms(1) step.IH, of fd] show ?thesis by auto
  qed (use step.IH in auto)
qed (use assms(2) in simp)

lemma ns_drain:
  assumes total: "ns_faultless mc rcv srv good" "\<forall>fd. good (w fd)"
    and "default_reach (ns_work mc (sock_rcv rcv) srv) (ws, w) s"
  shows "\<exists>s'. (default_step (ns_work mc (sock_rcv rcv) srv))\<^sup>*\<^sup>* s s'
    \<and> default_reach (ns_work mc (sock_rcv rcv) srv) (ws, w) s' \<and> pending s' = [] \<and> accepted s' = accepted s"
  using assms(3)
proof (induction "length (pending s)" arbitrary: s)
  case (Suc n)
  let ?work = "ns_work mc (sock_rcv rcv) srv"
  from Suc obtain fd fds where p: "pending s = fd # fds" by (cases "pending s") auto
  obtain effs w' where w: "?work fd (world s) = Inr (effs, w')"
    using ns_work_good [OF total(1) ns_reach_good [OF total Suc.prems]] by blast
  let ?s = "s\<lparr>pending := remove1 fd (pending s), effects := effects s @ effs, world := w'\<rparr>"
  have st: "default_step ?work s ?s" by (rule thread_step) (use p w in simp_all)
  then have "default_reach ?work (ws, w) ?s" by (rule default_reach.step [OF Suc.prems])
  moreover have "n = length (pending ?s)" using Suc.hyps(2) p by simp
  ultimately obtain s' where "(default_step ?work)\<^sup>*\<^sup>* ?s s'" "default_reach ?work (ws, w) s'"
      "pending s' = []" "accepted s' = accepted ?s"
    using Suc.hyps(1) by blast
  with st show ?case by (auto intro: converse_rtranclp_into_rtranclp)
qed auto

lemma hello_ns_faultless:
  "ns_faultless hello_machine recv hello_server (\<lambda>x. x = [] \<or> x = [Rx_Data (bytes_of hello_text)])"
proof -
  have host: "to_lower_case ''Host'' \<noteq> ''sec-websocket-key''" by code_simp
  have "ns_handle_connection_request hello_machine recv hello_server fd ws [Rx_Data (bytes_of hello_text)]
      = Inr ([Send fd (bytes_of (buildResponse ((Response_new OK)\<lparr>rs_body := ''/hello''\<rparr>))), Close fd], ws, [])" for fd ws
    unfolding hello_text_def
    by (rule ns_served [where params = "[]" and cb = "\<lambda>req. Inr ((Response_new OK)\<lparr>rs_body := req_url req\<rparr>)"])
      (simp_all add: plain_simps parse_url_params_def hello_server_def ns_add_route_handler_def http_server_new_def
        request_path_def INVALID_HTTP_URI_def ns_request_object_def no_websocket_key_def host)
  then show ?thesis
    by (auto simp: ns_faultless_def ns_handle_connection_request_def)
qed

section \<open>Properties\<close>

text \<open>
  C21: A client of the older server is served as if it were alone: however its threads interleave, a
  connection that was accepted once and whose thread is done has been sent, and closed, exactly as by
  a single call of the handler for its input on the server as it was at the start.
\<close>

theorem ns_served_as_if_alone:
  assumes "default_reach (ns_work mc (sock_rcv rcv) srv) (ws, w) s"
    and "0 \<le> fd" and "count (mset (accepted s)) fd = 1" and "fd \<notin> set (pending s)"
  shows "\<exists>ws' x. ns_handle_connection_request mc rcv srv fd ws (w fd) = Inr (on_fd fd (effects s), ws', x)"
proof -
  from ns_isolated.reach_served_alone [OF assms(1), of fd] assms(3,4)
  obtain z where "ns_work mc (sock_rcv rcv) srv fd (ws, w) = Inr (on_fd fd (effects s), z)"
    by (auto simp: ns_isolated.served_alone_def)
  from ns_handle_sock [OF this assms(2)] show ?thesis .
qed

theorem ns_served_as_if_alone_witness:
  "\<exists>ws' x. ns_handle_connection_request hello_machine recv hello_server 4 (websocket_connection_manager_new 3) [Rx_Close]
     = Inr ([Close 4], ws', x)"
proof -
  let ?work = "ns_work hello_machine (sock_rcv recv) hello_server"
  let ?w = "(websocket_connection_manager_new 3, \<lambda>fd :: int. [Rx_Close])"
  let ?s0 = "\<lparr>accepted = [], pending = [], effects = [], world = ?w\<rparr>"
  let ?s1 = "?s0\<lparr>accepted := [4], pending := [4]\<rparr>"
  let ?s2 = "?s1\<lparr>pending := [], effects := [Close 4]\<rparr>"
  have "default_step ?work ?s0 ?s1" using accept_step [of ?work ?s0 4] by simp
  moreover have "?work 4 ?w = Inr ([Close 4], ?w)"
    by (simp add: ns_work_def ns_handle_connection_request_def sock_rcv_def fun_upd_idem)
  then have "default_step ?work ?s1 ?s2" using thread_step [of 4 ?s1 ?work "[Close 4]" ?w] by simp
  ultimately have "default_reach ?work ?w ?s2" by (meson default_reach.start default_reach.step)
  from ns_served_as_if_alone [OF this, of 4] show ?thesis by (simp add: on_fd_def effect_fd_def)
qed

text \<open>
  C22: Every accepted connection can be served: when the inputs of the clients are such that no call
  faults, the server can go from any state it reaches, without accepting anything more, to one where
  no thread is left, and there every accepted connection has been closed or has become a WebSocket.
\<close>

theorem ns_all_served:
  assumes "ns_faultless mc rcv srv good" and "\<forall>fd. good (w fd)"
    and "default_reach (ns_work mc (sock_rcv rcv) srv) (ws, w) s"
  shows "\<exists>s'. (default_step (ns_work mc (sock_rcv rcv) srv))\<^sup>*\<^sup>* s s' \<and> pending s' = [] \<and> accepted s' = accepted s
    \<and> (\<forall>fd \<in> set (accepted s). Close fd \<in> set (effects s') \<or> fd \<in> pfd ` set (ws_poll_fds (fst (world s'))))"
proof -
  from ns_drain [OF assms] obtain s' where s': "(default_step (ns_work mc (sock_rcv rcv) srv))\<^sup>*\<^sup>* s s'"
      "default_reach (ns_work mc (sock_rcv rcv) srv) (ws, w) s'" "pending s' = []" "accepted s' = accepted s" by blast
  from ns_reach_settled [OF s'(2)] s' show ?thesis by (intro exI [of _ s']) simp
qed

text \<open>Two clients whose requests have not been read yet.\<close>

theorem ns_all_served_witness:
  "\<exists>s'. (default_step (ns_work hello_machine (sock_rcv recv) hello_server))\<^sup>*\<^sup>*
      \<lparr>accepted = [5, 4], pending = [5, 4], effects = [], world = (websocket_connection_manager_new 3, hello_streams)\<rparr> s'
    \<and> pending s' = []
    \<and> (\<forall>fd \<in> {4, 5}. Close fd \<in> set (effects s') \<or> fd \<in> pfd ` set (ws_poll_fds (fst (world s'))))"
proof -
  let ?work = "ns_work hello_machine (sock_rcv recv) hello_server"
  let ?w = "(websocket_connection_manager_new 3, hello_streams)"
  let ?s0 = "\<lparr>accepted = [], pending = [], effects = [], world = ?w\<rparr>"
  let ?s1 = "?s0\<lparr>accepted := [4], pending := [4]\<rparr>"
  let ?s2 = "?s0\<lparr>accepted := [5, 4], pending := [5, 4]\<rparr>"
  have "default_step ?work ?s0 ?s1" using accept_step [of ?work ?s0 4] by simp
  moreover have "default_step ?work ?s1 ?s2" using accept_step [of ?work ?s1 5] by simp
  ultimately have "default_reach ?work ?w ?s2" by (meson default_reach.start default_reach.step)
  moreover have "\<forall>fd. hello_streams fd = [] \<or> hello_streams fd = [Rx_Data (bytes_of hello_text)]"
    by (simp add: hello_streams_def)
  ultimately obtain s' where "(default_step ?work)\<^sup>*\<^sup>* ?s2 s'" "pending s' = []"
    "\<forall>fd \<in> set (accepted ?s2). Close fd \<in> set (effects s') \<or> fd \<in> pfd ` set (ws_poll_fds (fst (world s')))"
    using ns_all_served [OF hello_ns_faultless, of hello_streams _ ?s2] by blast
  then show ?thesis by (intro exI [of _ s']) simp
qed

end
