(* ===== verification/Proxy.thy ===== *)
theory Proxy
  imports Tcp_Threads
begin

text \<open>
  experiments/epoll_select.cpp: a proxy. The main thread accepts clients, waits until one has data,
  connects to a backend server and hands both descriptors to a thread, which copies what arrives on
  either to the other until one of them ends.
\<close>

section \<open>The forwarding thread\<close>

definition BUFFER_SIZE :: nat where "BUFFER_SIZE = 1024"

text \<open>An \<open>fd_set\<close> has bits for the descriptors below 1024; \<open>FD_SET\<close> of another is undefined.\<close>

definition FD_SETSIZE :: int where "FD_SETSIZE = 1024"

text \<open>What \<open>select\<close> answers: its result, and which descriptors it leaves in the set.\<close>

record select_answer =
  activity :: int
  readable :: "int \<Rightarrow> bool"

text \<open>
  One direction: when the descriptor is readable, read a piece and send it. The flag tells whether
  the stream has ended.
\<close>

definition forward_piece ::
  "(int \<Rightarrow> 'w recv_fun) \<Rightarrow> select_answer \<Rightarrow> int \<Rightarrow> int \<Rightarrow> 'w \<Rightarrow> bool \<times> net_effect list \<times> 'w" where
  "forward_piece rd sel from_fd to_fd w =
     (if \<not> readable sel from_fd then (False, [], w)
      else case rd from_fd BUFFER_SIZE w of (bytesRead, buffer, w') \<Rightarrow>
        if bytesRead \<le> 0 then (True, [], w')
        else (False, [Send to_fd (take (nat bytesRead) buffer)], w'))"

text \<open>
  \<open>forwardData\<close>, for the answers that \<open>select\<close> gives one after the other: the effects, the world, and
  whether the call has returned. When \<open>select\<close> fails the loop goes on.
\<close>

fun forwardData ::
  "(int \<Rightarrow> 'w recv_fun) \<Rightarrow> int \<Rightarrow> int \<Rightarrow> select_answer list \<Rightarrow> 'w \<Rightarrow> (net_effect list \<times> 'w \<times> bool) result" where
  "forwardData rd clientSocket backendSocket [] w = Inr ([], w, False)"
| "forwardData rd clientSocket backendSocket (sel # sels) w =
     (let close_both = [Close clientSocket, Close backendSocket] in
      if \<not> (0 \<le> clientSocket \<and> clientSocket < FD_SETSIZE \<and> 0 \<le> backendSocket \<and> backendSocket < FD_SETSIZE)
      then Inl Undefined_Behaviour
      else if activity sel \<le> 0 then forwardData rd clientSocket backendSocket sels w
      else
        (case forward_piece rd sel clientSocket backendSocket w of (ended, effs, w) \<Rightarrow>
           if ended then Inr (close_both, w, True)
           else
             (case forward_piece rd sel backendSocket clientSocket w of (ended, effs', w) \<Rightarrow>
                if ended then Inr (effs @ close_both, w, True)
                else rbind (forwardData rd clientSocket backendSocket sels w) (\<lambda>(effs'', w, returned).
                       Inr (effs @ effs' @ effs'', w, returned)))))"

section \<open>The main loop\<close>

text \<open>
  The start: no result is looked at, the loop runs with whatever descriptors the calls give.
\<close>

definition proxy_create_server :: "setup_os \<Rightarrow> int \<times> int \<times> sys_call list" where
  "proxy_create_server os =
     (let masterSocket = socket_result os; epollFd = epoll_create_result os in
      (masterSocket, epollFd,
       [Sys_Socket, Sys_Bind masterSocket 8080, Sys_Listen masterSocket SOMAXCONN,
        Sys_Set_Nonblocking masterSocket, Sys_Epoll_Create, Sys_Epoll_Add epollFd masterSocket]))"

text \<open>
  The address of a backend server in \<open>backendServers\<close>; \<open>operator[]\<close> of a key that is not there
  inserts an empty address.
\<close>

definition backendServers :: "string \<Rightarrow> (string \<times> int) option" where
  "backendServers = [''PROTOCOL1'' \<mapsto> (''127.0.0.1'', 9001), ''PROTOCOL2'' \<mapsto> (''127.0.0.1'', 9002)]"

definition backend_of :: "string \<Rightarrow> string \<times> int" where
  "backend_of protocol = (case backendServers protocol of None \<Rightarrow> ([], 0) | Some a \<Rightarrow> a)"

text \<open>
  The state of the main thread: the descriptors that epoll watches beside the listening one, the
  clients accepted, the sockets made for backends, the threads started (client, backend), the connections asked for, what was
  closed. The answers to the calls of one event: \<open>accept\<close>, \<open>socket\<close> and \<open>connect\<close>.
\<close>

record proxy_state =
  watched :: "int list"
  clients :: "int list"
  backends :: "int list"
  forwarders :: "(int \<times> int) list"
  connects :: "(string \<times> int) list"
  shut :: "int list"

definition proxy_start :: proxy_state where
  "proxy_start = \<lparr>watched = [], clients = [], backends = [], forwarders = [], connects = [], shut = []\<rparr>"

record proxy_answers =
  accept_result :: int
  backend_result :: int
  connect_result :: int

text \<open>
  One entry of \<open>events\<close>. The data is looked at with \<open>MSG_PEEK\<close>, which takes nothing from the stream; the
  protocol is always the first. \<open>epoll_ctl\<close> of the descriptor \<open>-1\<close> does nothing.
\<close>

definition proxy_event ::
  "(int \<Rightarrow> 'w recv_fun) \<Rightarrow> int \<Rightarrow> proxy_answers \<Rightarrow> 'w \<Rightarrow> int \<Rightarrow> proxy_state \<Rightarrow> proxy_state" where
  "proxy_event rcv masterSocket an w fd s =
     (if fd = masterSocket then
        (let clientSocket = accept_result an in
         if clientSocket < 0 then s
         else s\<lparr>watched := watched s @ [clientSocket], clients := clients s @ [clientSocket]\<rparr>)
      else
        (case rcv fd BUFFER_SIZE w of (bytesPeeked, _, _) \<Rightarrow>
           if bytesPeeked > 0 then
             (let protocol = ''PROTOCOL1''; backend = backend_of protocol; backendSocket = backend_result an;
                  s = s\<lparr>backends := backends s @ [backendSocket], connects := connects s @ [backend]\<rparr>;
                  s = (if connect_result an = 0 then s\<lparr>forwarders := forwarders s @ [(fd, backendSocket)]\<rparr>
                       else s\<lparr>shut := shut s @ [fd, backendSocket]\<rparr>)
              in s\<lparr>watched := remove1 fd (watched s)\<rparr>)
           else s\<lparr>shut := shut s @ [fd], watched := remove1 fd (watched s)\<rparr>))"

fun proxy_events ::
  "(int \<Rightarrow> 'w recv_fun) \<Rightarrow> int \<Rightarrow> 'w \<Rightarrow> (int \<times> proxy_answers) list \<Rightarrow> proxy_state \<Rightarrow> proxy_state" where
  "proxy_events rcv masterSocket w [] s = s"
| "proxy_events rcv masterSocket w ((fd, an) # evs) s =
     proxy_events rcv masterSocket w evs (proxy_event rcv masterSocket an w fd s)"

text \<open>
  The endless loop, for the batches of events that \<open>epoll_wait\<close> returns and the world at each of them.
\<close>

fun proxy_main ::
  "(int \<Rightarrow> 'w recv_fun) \<Rightarrow> int \<Rightarrow> ('w \<times> (int \<times> proxy_answers) list) list \<Rightarrow> proxy_state \<Rightarrow> proxy_state" where
  "proxy_main rcv masterSocket [] s = s"
| "proxy_main rcv masterSocket ((w, evs) # batches) s =
     proxy_main rcv masterSocket batches (proxy_events rcv masterSocket w evs s)"

section \<open>Lemmas\<close>

text \<open>The bytes that a list of effects sends on a descriptor, and what it closes.\<close>

definition sent_on :: "int \<Rightarrow> net_effect list \<Rightarrow> byte list" where
  "sent_on fd effs = concat (map (\<lambda>e. case e of Send f d \<Rightarrow> if f = fd then d else [] | Close _ \<Rightarrow> []) effs)"

definition closed_by :: "net_effect list \<Rightarrow> int list" where
  "closed_by effs = concat (map (\<lambda>e. case e of Send _ _ \<Rightarrow> [] | Close f \<Rightarrow> [f]) effs)"

lemma sent_on_simps [simp]:
  "sent_on fd [] = []" "sent_on fd (e # es) = (case e of Send f d \<Rightarrow> if f = fd then d else [] | Close _ \<Rightarrow> []) @ sent_on fd es"
  "sent_on fd (xs @ ys) = sent_on fd xs @ sent_on fd ys"
  by (simp_all add: sent_on_def)

lemma closed_by_simps [simp]:
  "closed_by [] = []" "closed_by (e # es) = (case e of Send _ _ \<Rightarrow> [] | Close f \<Rightarrow> [f]) @ closed_by es"
  "closed_by (xs @ ys) = closed_by xs @ closed_by ys"
  by (simp_all add: closed_by_def)

context byte_source
begin

lemma forward_piece_source:
  assumes "forward_piece (sock_rcv rcv) sel x y w = (ended, effs, w')" and "0 \<le> x"
  shows "(if ended then effs = [] else pending (w x) = sent_on y effs @ pending (w' x))
    \<and> closed_by effs = [] \<and> effect_fd ` set effs \<subseteq> {y} \<and> (\<forall>fd. fd \<noteq> x \<longrightarrow> w' fd = w fd)
    \<and> (\<forall>fd. fd \<noteq> y \<longrightarrow> sent_on fd effs = [])"
proof -
  obtain n d z where r: "rcv BUFFER_SIZE (w x) = (n, d, z)" by (cases "rcv BUFFER_SIZE (w x)")
  then show ?thesis
    using assms recv_delivers [OF r] by (auto simp: forward_piece_def sock_rcv_def effect_fd_def split: if_splits)
qed

text \<open>What either side has sent goes to the other, in order and nothing else; both ends are closed at the end.\<close>

lemma forwarded:
  assumes "forwardData (sock_rcv rcv) c b sels w = Inr (effs, w', returned)" and "c \<noteq> b"
  shows "(\<exists>x y. pending (w c) = sent_on b effs @ x \<and> pending (w b) = sent_on c effs @ y
      \<and> (\<not> returned \<longrightarrow> x = pending (w' c) \<and> y = pending (w' b)))
    \<and> closed_by effs = (if returned then [c, b] else [])
    \<and> effect_fd ` set effs \<subseteq> {c, b} \<and> (\<forall>fd. fd \<noteq> c \<longrightarrow> fd \<noteq> b \<longrightarrow> w' fd = w fd)"
  using assms
proof (induction sels arbitrary: w effs)
  case (Cons sel sels)
  have pos: "0 \<le> c" "0 \<le> b" using Cons.prems(1) by (simp_all add: Let_def split: if_splits)
  obtain e1 f1 w1 where one: "forward_piece (sock_rcv rcv) sel c b w = (e1, f1, w1)"
    by (cases "forward_piece (sock_rcv rcv) sel c b w")
  obtain e2 f2 w2 where two: "forward_piece (sock_rcv rcv) sel b c w1 = (e2, f2, w2)"
    by (cases "forward_piece (sock_rcv rcv) sel b c w1")
  note p = forward_piece_source [OF one pos(1)] forward_piece_source [OF two pos(2)]
  consider "activity sel \<le> 0" | "0 < activity sel" "e1" | "0 < activity sel" "\<not> e1" "e2"
    | "0 < activity sel" "\<not> e1" "\<not> e2" by linarith
  then show ?case
  proof cases
    case 1
    with Cons.prems have "forwardData (sock_rcv rcv) c b sels w = Inr (effs, w', returned)"
      by (simp add: Let_def split: if_splits)
    from Cons.IH [OF this \<open>c \<noteq> b\<close>] show ?thesis .
  next
    case 2
    with Cons.prems one have "effs = [Close c, Close b]" "w' = w1" "returned" by (simp_all add: Let_def split: if_splits)
    with p(1) 2 show ?thesis by (simp add: effect_fd_def)
  next
    case 3
    with Cons.prems one two have "effs = f1 @ [Close c, Close b]" "w' = w2" "returned"
      by (simp_all add: Let_def split: if_splits)
    moreover have "pending (w c) = sent_on b f1 @ pending (w1 c)" "sent_on c f1 = []" "closed_by f1 = []"
      "effect_fd ` set f1 \<subseteq> {b}" "\<forall>fd. fd \<noteq> c \<longrightarrow> fd \<noteq> b \<longrightarrow> w2 fd = w fd"
      using p 3 \<open>c \<noteq> b\<close> by simp_all
    ultimately show ?thesis by (auto simp: effect_fd_def)
  next
    case 4
    with Cons.prems one two obtain f3 where rest: "forwardData (sock_rcv rcv) c b sels w2 = Inr (f3, w', returned)"
        and effs: "effs = f1 @ f2 @ f3"
      by (auto simp: Let_def rbind_Inr_iff split: if_splits)
    from Cons.IH [OF rest \<open>c \<noteq> b\<close>] obtain x y where
      "pending (w2 c) = sent_on b f3 @ x" "pending (w2 b) = sent_on c f3 @ y"
      "\<not> returned \<longrightarrow> x = pending (w' c) \<and> y = pending (w' b)"
      "closed_by f3 = (if returned then [c, b] else [])" "effect_fd ` set f3 \<subseteq> {c, b}"
      "\<forall>fd. fd \<noteq> c \<longrightarrow> fd \<noteq> b \<longrightarrow> w' fd = w2 fd" by blast
    moreover have "pending (w c) = sent_on b f1 @ pending (w2 c)" "pending (w b) = sent_on c f2 @ pending (w2 b)"
      "sent_on b f2 = []" "sent_on c f1 = []" "closed_by f1 = []" "closed_by f2 = []"
      "effect_fd ` set f1 \<subseteq> {b}" "effect_fd ` set f2 \<subseteq> {c}"
      "\<forall>fd. fd \<noteq> c \<longrightarrow> fd \<noteq> b \<longrightarrow> w2 fd = w fd"
      using p 4 \<open>c \<noteq> b\<close> by auto
    ultimately show ?thesis unfolding effs by auto
  qed
qed auto

end

text \<open>What \<open>epoll_wait\<close> reports: the listening socket, or a descriptor that is watched.\<close>

fun reported :: "(int \<Rightarrow> 'w recv_fun) \<Rightarrow> int \<Rightarrow> 'w \<Rightarrow> (int \<times> proxy_answers) list \<Rightarrow> proxy_state \<Rightarrow> bool" where
  "reported rcv ms w [] s \<longleftrightarrow> True"
| "reported rcv ms w ((fd, an) # evs) s \<longleftrightarrow>
     (fd = ms \<or> fd \<in> set (watched s)) \<and> reported rcv ms w evs (proxy_event rcv ms an w fd s)"

fun all_reported ::
  "(int \<Rightarrow> 'w recv_fun) \<Rightarrow> int \<Rightarrow> ('w \<times> (int \<times> proxy_answers) list) list \<Rightarrow> proxy_state \<Rightarrow> bool" where
  "all_reported rcv ms [] s \<longleftrightarrow> True"
| "all_reported rcv ms ((w, evs) # batches) s \<longleftrightarrow>
     reported rcv ms w evs s \<and> all_reported rcv ms batches (proxy_events rcv ms w evs s)"

text \<open>Every descriptor that the main thread has made is watched, with a thread, or closed.\<close>

definition proxy_inv :: "proxy_state \<Rightarrow> bool" where
  "proxy_inv s \<longleftrightarrow>
     mset (clients s) + mset (backends s) =
       mset (watched s) + mset (concat (map (\<lambda>(c, b). [c, b]) (forwarders s))) + mset (shut s)
     \<and> set (connects s) \<subseteq> {(''127.0.0.1'', 9001)} \<and> length (connects s) = length (backends s)"

lemma proxy_inv_event:
  assumes "proxy_inv s" and "fd = ms \<or> fd \<in> set (watched s)"
  shows "proxy_inv (proxy_event rcv ms an w fd s)"
proof (cases "fd = ms")
  case True
  with assms(1) show ?thesis by (simp add: proxy_inv_def proxy_event_def Let_def)
next
  case False
  with assms(2) have "mset (watched s) = add_mset fd (mset (remove1 fd (watched s)))" by simp
  with assms(1) False show ?thesis
    by (auto simp: proxy_inv_def proxy_event_def Let_def backend_of_def backendServers_def split: prod.splits
        simp del: mset_remove1)
qed

lemma proxy_inv_events: "proxy_inv s \<Longrightarrow> reported rcv ms w evs s \<Longrightarrow> proxy_inv (proxy_events rcv ms w evs s)"
  by (induction rcv ms w evs s rule: proxy_events.induct) (auto intro: proxy_inv_event)

lemma proxy_inv_main: "proxy_inv s \<Longrightarrow> all_reported rcv ms batches s \<Longrightarrow> proxy_inv (proxy_main rcv ms batches s)"
  by (induction rcv ms batches s rule: proxy_main.induct) (auto intro: proxy_inv_events)

text \<open>A client that sends pieces of at most 1024 bytes and ends, while the backend is silent.\<close>

lemma forward_all:
  assumes "\<forall>d \<in> set ds. d \<noteq> [] \<and> length d \<le> 1024" and "0 \<le> c" "c < 1024" "0 \<le> b" "b < 1024" "c \<noteq> b"
    and "w c = map Rx_Data ds @ [Rx_Close]" and "length ds < n"
  shows "forwardData (sock_rcv recv) c b (replicate n \<lparr>activity = 1, readable = (\<lambda>fd. fd = c)\<rparr>) w
    = Inr (map (Send b) ds @ [Close c, Close b], w(c := [Rx_Close]), True)"
  using assms
proof (induction ds arbitrary: w n)
  case Nil
  then obtain m where "n = Suc m" by (cases n) auto
  with Nil show ?case by (simp add: forward_piece_def sock_rcv_def FD_SETSIZE_def BUFFER_SIZE_def Let_def fun_upd_def)
next
  case (Cons d ds)
  then obtain m where m: "n = Suc m" "length ds < m" by (cases n) auto
  let ?w = "w(c := map Rx_Data ds @ [Rx_Close])"
  have "forward_piece (sock_rcv recv) \<lparr>activity = 1, readable = (\<lambda>fd. fd = c)\<rparr> c b w = (False, [Send b d], ?w)"
    using Cons.prems by (simp add: forward_piece_def sock_rcv_def BUFFER_SIZE_def)
  moreover have "forward_piece (sock_rcv recv) \<lparr>activity = 1, readable = (\<lambda>fd. fd = c)\<rparr> b c ?w = (False, [], ?w)"
    using Cons.prems(6) by (simp add: forward_piece_def)
  ultimately show ?case using Cons.IH [of ?w m] Cons.prems m by (simp add: FD_SETSIZE_def Let_def fun_upd_def fun_eq_iff)
qed

section \<open>Properties\<close>

text \<open>
  C27: The proxy's thread copies: whatever \<open>select\<close> answers and however the streams are cut, what the
  backend is sent is what the client has sent, in order, from the first byte on (looking at the data
  has not taken it), and the other way round, without anything left out between the pieces; no other
  connection is touched, and when the thread ends it has closed both, each once.
\<close>

theorem proxy_copies:
  assumes "forwardData (sock_rcv recv) c b sels w = Inr (effs, w', returned)" and "c \<noteq> b"
  shows "(\<exists>x y. rx_bytes (w c) = sent_on b effs @ x \<and> rx_bytes (w b) = sent_on c effs @ y
      \<and> (\<not> returned \<longrightarrow> x = rx_bytes (w' c) \<and> y = rx_bytes (w' b)))
    \<and> closed_by effs = (if returned then [c, b] else [])
    \<and> effect_fd ` set effs \<subseteq> {c, b} \<and> (\<forall>fd. fd \<noteq> c \<longrightarrow> fd \<noteq> b \<longrightarrow> w' fd = w fd)"
  by (rule rx.forwarded [OF assms])

theorem proxy_copies_witness:
  "\<exists>effs w'. forwardData (sock_rcv recv) 5 6 (replicate 3 \<lparr>activity = 1, readable = (\<lambda>fd. fd = 5)\<rparr>)
       (\<lambda>fd. map Rx_Data [[1, 2], [3]] @ [Rx_Close]) = Inr (effs, w', True)
     \<and> closed_by effs = [5, 6] \<and> (\<exists>x. [1, 2, 3] = sent_on 6 effs @ x)"
proof -
  let ?w = "\<lambda>fd :: int. map Rx_Data [[1, 2], [3]] @ [Rx_Close]"
  have run: "forwardData (sock_rcv recv) 5 6 (replicate 3 \<lparr>activity = 1, readable = (\<lambda>fd. fd = 5)\<rparr>) ?w
      = Inr (map (Send 6) [[1, 2], [3]] @ [Close 5, Close 6], ?w(5 := [Rx_Close]), True)"
    by (rule forward_all) simp_all
  from proxy_copies [OF run] run show ?thesis by auto
qed

text \<open>
  The proxy loses no descriptor: over every run of the main loop, each client accepted and each
  socket made for a backend is still watched, is with a forwarding thread, or has been closed, exactly
  once; and every connection asked for goes to the first of the two backends.
\<close>

theorem proxy_settles:
  assumes "all_reported rcv masterSocket batches proxy_start"
  shows "mset (clients (proxy_main rcv masterSocket batches proxy_start))
      + mset (backends (proxy_main rcv masterSocket batches proxy_start))
    = mset (watched (proxy_main rcv masterSocket batches proxy_start))
      + mset (concat (map (\<lambda>(c, b). [c, b]) (forwarders (proxy_main rcv masterSocket batches proxy_start))))
      + mset (shut (proxy_main rcv masterSocket batches proxy_start))
    \<and> set (connects (proxy_main rcv masterSocket batches proxy_start)) \<subseteq> {(''127.0.0.1'', 9001)}"
  using proxy_inv_main [OF _ assms] by (simp add: proxy_inv_def proxy_start_def)

definition sample_batches :: "((int \<Rightarrow> rx_event list) \<times> (int \<times> proxy_answers) list) list" where
  "sample_batches =
     (let an = \<lparr>accept_result = 5, backend_result = 6, connect_result = 0\<rparr> in
      [(\<lambda>fd. [], [(3, an), (3, an\<lparr>accept_result := 7\<rparr>)]),
       (\<lambda>fd. if fd = 5 then [Rx_Data [1]] else [Rx_Close], [(7, an), (5, an)])])"

theorem proxy_settles_witness:
  "mset [5, 7] + mset [6 :: int] = mset [] + mset [5, 6] + mset [7]
   \<and> clients (proxy_main (sock_rcv recv) 3 sample_batches proxy_start) = [5, 7]
   \<and> forwarders (proxy_main (sock_rcv recv) 3 sample_batches proxy_start) = [(5, 6)]"
proof -
  note calc = sample_batches_def proxy_event_def proxy_start_def sock_rcv_def BUFFER_SIZE_def Let_def
  have "all_reported (sock_rcv recv) 3 sample_batches proxy_start" by (simp add: calc)
  from proxy_settles [OF this] show ?thesis by (simp add: calc)
qed

end
