(* ===== verification/Fd_Passing.thy ===== *)
theory Fd_Passing
  imports Proxy
begin

text \<open>
  The pair of programs in experiments that pass connections from one process to another: the master,
  experiments/pass_client.cpp, accepts clients on a port and sends their descriptors through a UNIX
  socket; the backend, experiments/pass_master_server.cpp, takes one descriptor from each connection
  to that socket and answers its client. The results of the system calls are arguments.
\<close>

section \<open>The start\<close>

datatype start_call =
    Inet_Socket
  | Inet_Bind int "16 word"
  | Listen_On int              \<comment> \<open>with the backlog \<open>SOMAXCONN\<close>\<close>
  | Unix_Socket
  | Unix_Bind int string
  | Unix_Connect int string
  | Unlink string

definition UNIX_SOCKET_PATH :: string where
  "UNIX_SOCKET_PATH = ''/tmp/master_to_backend.sock''"

text \<open>No result of these calls is looked at; \<open>m\<close> and \<open>u\<close> are the sockets that were made.\<close>

definition pass_master_start :: "int \<Rightarrow> int \<Rightarrow> start_call list" where
  "pass_master_start m u =
     [Inet_Socket, Inet_Bind m 8080, Listen_On m, Unix_Socket, Unix_Connect u UNIX_SOCKET_PATH]"

definition pass_backend_start :: "int \<Rightarrow> start_call list" where
  "pass_backend_start u =
     [Unix_Socket, Unlink UNIX_SOCKET_PATH, Unix_Bind u UNIX_SOCKET_PATH, Listen_On u]"

section \<open>The master\<close>

datatype master_call =
    Pass_Fd int             \<comment> \<open>\<open>sendmsg\<close> with the descriptor as control message\<close>
  | Close_Fd int

text \<open>\<open>send_fd\<close> writes a message when \<open>sendmsg\<close> fails, and the loop goes on.\<close>

definition send_fd :: "int \<Rightarrow> master_call list" where
  "send_fd fd_to_send = [Pass_Fd fd_to_send]"

fun pass_master :: "int list \<Rightarrow> master_call list" where
  "pass_master [] = []"
| "pass_master (client_fd # accepts) = send_fd client_fd @ [Close_Fd client_fd] @ pass_master accepts"

section \<open>The backend\<close>

text \<open>
  What \<open>recvmsg\<close> gives: its result, and the descriptor in the first control message, if there is one.
  \<open>recv_fd\<close> does not look whether there is: it reads through the null pointer of \<open>CMSG_FIRSTHDR\<close>.
\<close>

record recv_answer =
  recv_result :: int
  control_fd :: "int option"

definition recv_fd :: "recv_answer \<Rightarrow> int result" where
  "recv_fd an =
     (if recv_result an < 0 then Inr (-1)
      else case control_fd an of None \<Rightarrow> Inl Undefined_Behaviour | Some fd \<Rightarrow> Inr fd)"

definition backend_answer :: string where
  "backend_answer = ''Handled by Backend'' @ [LF]"

definition backend_turn ::
  "(int \<Rightarrow> 'w recv_fun) \<Rightarrow> int \<Rightarrow> recv_answer \<Rightarrow> 'w \<Rightarrow> (net_effect list \<times> 'w) result" where
  "backend_turn rd conn an w =
     rbind (recv_fd an) (\<lambda>client_fd.
       if client_fd \<ge> 0 then
         (case rd client_fd 1024 w of (bytesRead, _, w) \<Rightarrow>
            Inr ((if bytesRead > 0 then [Send client_fd (bytes_of backend_answer)] else [])
                 @ [Close client_fd, Close conn], w))
       else Inr ([Close conn], w))"

fun pass_backend ::
  "(int \<Rightarrow> 'w recv_fun) \<Rightarrow> (int \<times> recv_answer) list \<Rightarrow> 'w \<Rightarrow> (net_effect list \<times> 'w) result" where
  "pass_backend rd [] w = Inr ([], w)"
| "pass_backend rd ((conn, an) # turns) w =
     rbind (backend_turn rd conn an w) (\<lambda>(effs, w).
     rbind (pass_backend rd turns w) (\<lambda>(effs', w). Inr (effs @ effs', w)))"

section \<open>Lemmas\<close>

text \<open>The master keeps nothing: every client is passed on, then closed, once and in order.\<close>

lemma master_passes:
  "filter (\<lambda>c. case c of Pass_Fd _ \<Rightarrow> True | _ \<Rightarrow> False) (pass_master accepts) = map Pass_Fd accepts"
  "filter (\<lambda>c. case c of Close_Fd _ \<Rightarrow> True | _ \<Rightarrow> False) (pass_master accepts) = map Close_Fd accepts"
  by (induction accepts) (simp_all add: send_fd_def)

text \<open>The descriptors that the backend takes, one of each connection whose message arrives.\<close>

definition taken :: "(int \<times> recv_answer) list \<Rightarrow> int list" where
  "taken turns = concat (map (\<lambda>(conn, an). case recv_fd an of Inr fd \<Rightarrow> if 0 \<le> fd then [fd] else [] | Inl _ \<Rightarrow> []) turns)"

text \<open>It closes all that it takes and every connection, and sends on nothing else.\<close>

lemma backend_closes:
  "pass_backend rd turns w = Inr (effs, w') \<Longrightarrow>
     mset (closed_by effs) = mset (taken turns) + mset (map fst turns)
     \<and> (\<forall>fd. fd \<notin> set (taken turns) \<longrightarrow> sent_on fd effs = [])"
proof (induction rd turns w arbitrary: effs rule: pass_backend.induct)
  case (2 rd conn an turns w)
  from 2(2) obtain e1 w1 e2 where one: "backend_turn rd conn an w = Inr (e1, w1)"
      and rest: "pass_backend rd turns w1 = Inr (e2, w')" and effs: "effs = e1 @ e2"
    by (auto simp: rbind_Inr_iff)
  from one have "mset (closed_by e1) = mset (taken [(conn, an)]) + {#conn#}
      \<and> (\<forall>fd. fd \<notin> set (taken [(conn, an)]) \<longrightarrow> sent_on fd e1 = [])"
    by (auto simp: backend_turn_def rbind_Inr_iff taken_def split: if_splits prod.splits)
  moreover have "taken ((conn, an) # turns) = taken [(conn, an)] @ taken turns" by (simp add: taken_def)
  ultimately show ?case using 2(1) [OF rest] by (simp add: effs)
qed (simp add: taken_def)

text \<open>A connection that ends without a message stops the backend.\<close>

lemma backend_null:
  assumes "0 \<le> recv_result an" and "control_fd an = None"
  shows "pass_backend rd ((conn, an) # turns) w = Inl Undefined_Behaviour"
  using assms by (simp add: backend_turn_def recv_fd_def)

end
