(* ===== verification/Repo_Tests.thy ===== *)
theory Repo_Tests
  imports Variant Ns_Websocket Http_Response
begin

text \<open>
  The tests of the repository (test and tests), as definitions over the model, and what becomes of
  them: all that compute hold in the model, and the one that lists a directory cannot pass.
\<close>

section \<open>The tests\<close>

text \<open>test/string_utils_test.cpp\<close>

definition replace_all_test :: bool where
  "replace_all_test \<longleftrightarrow> replace_all (''HOLA'' @ CRLF @ ''PEREZ'') CRLF '' '' = Some ''HOLA PEREZ''"

definition lowercase_test1 :: bool where
  "lowercase_test1 \<longleftrightarrow> to_lower_case ''HOLA'' = ''hola''"

definition replace_all_and_lowercase_test :: bool where
  "replace_all_and_lowercase_test \<longleftrightarrow>
     map_option to_lower_case (replace_all (''HOLA'' @ CRLF @ ''PEREZ'') CRLF '' '') = Some ''hola perez''"

text \<open>
  test/variant_test.cpp: a value is converted to a temporary variant, which is assigned. \<open>cp1\<close>, \<open>cp2\<close>
  and \<open>cp3\<close> copy an \<open>int\<close>, a \<open>double\<close> and a string.
\<close>

definition variant_test1 :: "(int \<Rightarrow> int option) \<Rightarrow> ('d \<Rightarrow> 'd option) \<Rightarrow> (string \<Rightarrow> string option) \<Rightarrow> bool" where
  "variant_test1 cp1 cp2 cp3 \<longleftrightarrow>
     (case Variant_T1 cp1 1 of
        None \<Rightarrow> False
      | Some v \<Rightarrow> (case variant_assign cp1 cp2 cp3 False Variant_new v of
          (var, _, e) \<Rightarrow> e = None \<and> is_type True False False var))"

definition variant_test2 :: "(int \<Rightarrow> int option) \<Rightarrow> ('d \<Rightarrow> 'd option) \<Rightarrow> (string \<Rightarrow> string option) \<Rightarrow> bool" where
  "variant_test2 cp1 cp2 cp3 \<longleftrightarrow>
     (case Variant_T3 cp3 ''1'' of
        None \<Rightarrow> False
      | Some v \<Rightarrow> (case variant_assign cp1 cp2 cp3 False Variant_new v of
          (var, _, e) \<Rightarrow> e = None \<and> \<not> is_type True False False var))"

text \<open>test/io_utils_test.cpp; \<open>dirs\<close> are the directories of the machine.\<close>

definition list_dir_test :: "directories \<Rightarrow> bool" where
  "list_dir_test dirs \<longleftrightarrow>
     (case list_dir dirs ''/home/neon/Documents/projects/simple_server/src/'' of
        Inl _ \<Rightarrow> False
      | Inr dir \<Rightarrow> length dir = 2)"

text \<open>tests/main_test.cpp\<close>

definition websocket_test :: bool where
  "websocket_test \<longleftrightarrow> to_lower_case_str ''UpperCase'' = ''uppercase''"

definition test_headers :: "string umap" where
  "test_headers = umap_set ''Sec-WebSocket-Key'' ''key1'' []"

definition websocket_test0 :: bool where
  "websocket_test0 \<longleftrightarrow> ns_find_websocket_key test_headers = ''key1''"

definition websocket_test1 :: bool where
  "websocket_test1 \<longleftrightarrow> True = is_websocket_request test_headers"

definition websocket_test2 :: bool where
  "websocket_test2 \<longleftrightarrow> False \<noteq> is_websocket_request test_headers"

section \<open>The results\<close>

lemma replaced_text: "replace_all (''HOLA'' @ CRLF @ ''PEREZ'') CRLF '' '' = Some ''HOLA PEREZ''"
proof -
  have "replaced CRLF '' '' (''HOLA'' @ CRLF @ ''PEREZ'') = ''HOLA PEREZ''" by code_simp
  moreover have "CRLF \<noteq> []" by code_simp
  ultimately show ?thesis
    using replace_loop_eq [of CRLF "'' ''" "[]" "''HOLA'' @ CRLF @ ''PEREZ''"] by (simp add: replace_all_def)
qed

lemma string_tests: "replace_all_test" "lowercase_test1" "replace_all_and_lowercase_test" "websocket_test"
proof -
  show "replace_all_test" unfolding replace_all_test_def by (rule replaced_text)
  have "to_lower_case ''HOLA PEREZ'' = ''hola perez''" by code_simp
  then show "replace_all_and_lowercase_test"
    unfolding replace_all_and_lowercase_test_def replaced_text by simp
qed code_simp+

lemma websocket_tests: "websocket_test0" "websocket_test1" "websocket_test2"
  by code_simp+

text \<open>The tests of the variant pass when copies do not throw.\<close>

lemma variant_tests:
  assumes "\<And>x. cp1 x = Some x" and "\<And>s. cp3 s = Some s"
  shows "variant_test1 cp1 cp2 cp3" "variant_test2 cp1 cp2 cp3"
  using assms
  by (simp_all add: variant_test1_def variant_test2_def Variant_T1_def Variant_T3_def variant_assign_def
      Variant_new_def destroy_def construct_from_def is_type_def)

text \<open>
  No directory has two entries for \<open>list_dir\<close>: what it lists is one path, nothing, or undefined.
\<close>

lemma list_dir_test_fails: "\<not> list_dir_test dirs"
  by (auto simp: list_dir_test_def list_dir_def split: option.splits)

end
