(* ===== verification/Logging.thy ===== *)
theory Logging
  imports Http_Server
begin

text \<open>
  The log (includes/logger.h): the function \<open>log\<close> with its two buffers, the macros, and the calls that
  answering a request makes (src/http_handler.cpp, includes/io_utils.h). The other theories leave the
  log out.
\<close>

section \<open>sprintf\<close>

text \<open>
  The arguments that the calls of the program pass, by their types (after promotion): a pointer to an
  object and an object of a class, \<open>std::string\<close> or \<open>std::function\<close>, are among them. \<open>size_t\<close> is the
  \<open>unsigned long\<close> of a 64-bit Linux.
\<close>

datatype log_arg =
    Arg_Int int
  | Arg_UInt nat
  | Arg_Long int
  | Arg_Size nat
  | Arg_Str string
  | Arg_Pointer
  | Arg_Object

text \<open>
  What the formats of the program are made of: characters, the conversions \<open>%d\<close>, \<open>%ld\<close>, \<open>%s\<close> and
  \<open>%x\<close>, \<open>%%\<close>, and a \<open>%\<close> in front of a line break, which is no conversion. Of a format with any
  other directive the model says nothing: its result is \<open>None\<close>, here and below.
\<close>

datatype directive = Text char | Conv_d | Conv_ld | Conv_s | Conv_x | No_Conversion

fun directives :: "string \<Rightarrow> directive list option" where
  "directives [] = Some []"
| "directives (c # cs) =
     (if c \<noteq> CHR ''%'' then map_option (\<lambda>ds. Text c # ds) (directives cs)
      else case cs of
          [] \<Rightarrow> None
        | d # cs' \<Rightarrow>
            if d = CHR ''%'' then map_option (\<lambda>ds. Text d # ds) (directives cs')
            else if d = CHR ''d'' then map_option (\<lambda>ds. Conv_d # ds) (directives cs')
            else if d = CHR ''s'' then map_option (\<lambda>ds. Conv_s # ds) (directives cs')
            else if d = CHR ''x'' then map_option (\<lambda>ds. Conv_x # ds) (directives cs')
            else if d = LF then map_option (\<lambda>ds. No_Conversion # ds) (directives cs')
            else if d = CHR ''l'' \<and> prefix ''d'' cs'
            then map_option (\<lambda>ds. Conv_ld # ds) (directives (drop 1 cs'))
            else None)"

text \<open>
  The text of an argument under a conversion: of the type that the conversion asks for, or of the
  type that differs from it in its sign only, when the value has the same meaning in both; every
  other argument is undefined.
\<close>

fun nat_to_hex :: "nat \<Rightarrow> string" where
  "nat_to_hex n = (if n < 16 then [''0123456789abcdef'' ! n] else nat_to_hex (n div 16) @ [''0123456789abcdef'' ! (n mod 16)])"

declare nat_to_hex.simps [simp del]

fun converted :: "directive \<Rightarrow> log_arg \<Rightarrow> string result" where
  "converted Conv_d (Arg_Int i) = Inr (int_to_string i)"
| "converted Conv_d (Arg_UInt n) = (if n < 2 ^ 31 then Inr (nat_to_string n) else Inl Undefined_Behaviour)"
| "converted Conv_ld (Arg_Long i) = Inr (int_to_string i)"
| "converted Conv_ld (Arg_Size n) = (if n < 2 ^ 63 then Inr (nat_to_string n) else Inl Undefined_Behaviour)"
| "converted Conv_x (Arg_UInt n) = Inr (nat_to_hex n)"
| "converted Conv_x (Arg_Int i) = (if 0 \<le> i then Inr (nat_to_hex (nat i)) else Inl Undefined_Behaviour)"
| "converted Conv_s (Arg_Str s) = Inr (c_str s)"
| "converted _ _ = Inl Undefined_Behaviour"

text \<open>Arguments that are left over are ignored, one that is missing is undefined.\<close>

fun render :: "directive list \<Rightarrow> log_arg list \<Rightarrow> string result" where
  "render [] args = Inr []"
| "render (Text c # ds) args = rbind (render ds args) (\<lambda>t. Inr (c # t))"
| "render (No_Conversion # ds) args = Inl Undefined_Behaviour"
| "render (d # ds) [] = Inl Undefined_Behaviour"
| "render (d # ds) (a # args) = rbind (converted d a) (\<lambda>t. rbind (render ds args) (\<lambda>u. Inr (t @ u)))"

definition sprintf :: "string \<Rightarrow> log_arg list \<Rightarrow> string result option" where
  "sprintf fmt args = map_option (\<lambda>ds. render ds args) (directives fmt)"

text \<open>Into a buffer of \<open>n\<close> bytes, with the NUL at the end.\<close>

definition sprintf_buffer :: "nat \<Rightarrow> string \<Rightarrow> log_arg list \<Rightarrow> string result option" where
  "sprintf_buffer n fmt args =
     map_option (\<lambda>r. rbind r (\<lambda>t. if length t < n then Inr t else Inl Undefined_Behaviour)) (sprintf fmt args)"

section \<open>log\<close>

datatype TextColor =
    TEXT_COLOR_BLACK | TEXT_COLOR_RED | TEXT_COLOR_GREEN | TEXT_COLOR_YELLOW
  | TEXT_COLOR_BLUE | TEXT_COLOR_MAGENTA | TEXT_COLOR_CYAN | TEXT_COLOR_WHITE
  | TEXT_COLOR_BRIGHT_BLACK | TEXT_COLOR_BRIGHT_RED | TEXT_COLOR_BRIGHT_GREEN | TEXT_COLOR_BRIGHT_YELLOW
  | TEXT_COLOR_BRIGHT_BLUE | TEXT_COLOR_BRIGHT_MAGENTA | TEXT_COLOR_BRIGHT_CYAN | TEXT_COLOR_BRIGHT_WHITE
  | TEXT_COLOR_COUNT

abbreviation ESC :: char where "ESC \<equiv> CHR 0x1B"

text \<open>The entry of \<open>TextColorTable\<close>; the last constant counts the others and has none.\<close>

fun TextColorTable :: "TextColor \<Rightarrow> string result" where
  "TextColorTable TEXT_COLOR_BLACK = Inr (ESC # ''[30m'')"
| "TextColorTable TEXT_COLOR_RED = Inr (ESC # ''[31m'')"
| "TextColorTable TEXT_COLOR_GREEN = Inr (ESC # ''[32m'')"
| "TextColorTable TEXT_COLOR_YELLOW = Inr (ESC # ''[33m'')"
| "TextColorTable TEXT_COLOR_BLUE = Inr (ESC # ''[34m'')"
| "TextColorTable TEXT_COLOR_MAGENTA = Inr (ESC # ''[35m'')"
| "TextColorTable TEXT_COLOR_CYAN = Inr (ESC # ''[36m'')"
| "TextColorTable TEXT_COLOR_WHITE = Inr (ESC # ''[37m'')"
| "TextColorTable TEXT_COLOR_BRIGHT_BLACK = Inr (ESC # ''[90m'')"
| "TextColorTable TEXT_COLOR_BRIGHT_RED = Inr (ESC # ''[91m'')"
| "TextColorTable TEXT_COLOR_BRIGHT_GREEN = Inr (ESC # ''[92m'')"
| "TextColorTable TEXT_COLOR_BRIGHT_YELLOW = Inr (ESC # ''[93m'')"
| "TextColorTable TEXT_COLOR_BRIGHT_BLUE = Inr (ESC # ''[94m'')"
| "TextColorTable TEXT_COLOR_BRIGHT_MAGENTA = Inr (ESC # ''[95m'')"
| "TextColorTable TEXT_COLOR_BRIGHT_CYAN = Inr (ESC # ''[96m'')"
| "TextColorTable TEXT_COLOR_BRIGHT_WHITE = Inr (ESC # ''[97m'')"
| "TextColorTable TEXT_COLOR_COUNT = Inl Undefined_Behaviour"

definition reset_color :: string where "reset_color = ESC # ''[0m''"

text \<open>The line that \<open>puts\<close> writes: the message is printed into the format of the second call.\<close>

datatype log_call = Log string string TextColor "log_arg list"

fun log_line :: "log_call \<Rightarrow> string result option" where
  "log_line (Log pre msg textColor args) =
     (case TextColorTable textColor of
        Inl e \<Rightarrow> Some (Inl e)
      | Inr color \<Rightarrow>
          (case sprintf_buffer 8192 (''%s %s %s '' @ reset_color) [Arg_Str color, Arg_Str pre, Arg_Str msg] of
             None \<Rightarrow> None
           | Some (Inl e) \<Rightarrow> Some (Inl e)
           | Some (Inr formatBuffer) \<Rightarrow>
               map_option (\<lambda>r. rbind r (\<lambda>textBuffer. Inr (textBuffer @ [LF]))) (sprintf_buffer 8912 formatBuffer args)))"

definition SM_TRACE :: "string \<Rightarrow> log_arg list \<Rightarrow> log_call" where
  "SM_TRACE msg args = Log ''TRACE: '' msg TEXT_COLOR_GREEN args"

definition SM_WARN :: "string \<Rightarrow> log_arg list \<Rightarrow> log_call" where
  "SM_WARN msg args = Log ''WARN: '' msg TEXT_COLOR_YELLOW args"

definition SM_ERROR :: "string \<Rightarrow> log_arg list \<Rightarrow> log_call" where
  "SM_ERROR msg args = Log ''ERROR: '' msg TEXT_COLOR_RED args"

definition SM_INFO :: "string \<Rightarrow> log_arg list \<Rightarrow> log_call" where
  "SM_INFO msg args = Log ''ERROR: '' msg TEXT_COLOR_MAGENTA args"

section \<open>The calls that a request makes\<close>

text \<open>\<open>query_endpoint_from_map\<close>: the calls of the search for a route, in the order of its branches.\<close>

fun regex_logs :: "regex_match \<Rightarrow> string \<Rightarrow> 'cb routes \<Rightarrow> log_call list" where
  "regex_logs rx uri [] = []"
| "regex_logs rx uri ((k, cb) # m) =
     SM_TRACE ''try regex %s on URI'' [Arg_Str k, Arg_Str uri]
       # (if rx k uri = Some False then regex_logs rx uri m else [])"

definition not_found_log :: "string \<Rightarrow> nat \<Rightarrow> log_call" where
  "not_found_log uri n =
     SM_TRACE ''URI %s  not found, returning default, routes map length: %d'' [Arg_Str uri, Arg_Size n]"

definition search_logs :: "regex_match \<Rightarrow> 'cb routes \<Rightarrow> string \<Rightarrow> log_call list" where
  "search_logs rx table uri =
     (if length uri = 1 \<and> uri = ''/'' then []
      else case umap_find table uri of
             Some cb \<Rightarrow> [SM_TRACE ''URI %s found'' [Arg_Str uri]]
           | None \<Rightarrow>
               regex_logs rx uri table @
               (case regex_route rx uri table of
                  Inr None \<Rightarrow>
                    (case pattern_route (split_words uri CHR ''/'') table of
                       Inr None \<Rightarrow> [not_found_log uri (length table)]
                     | _ \<Rightarrow> [])
                | _ \<Rightarrow> []))"

text \<open>
  \<open>handle_connection_request\<close>, from the text of the request on. A fault ends the calls where it
  happens: all of the parsing comes before the verb and the path are logged.
\<close>

definition closing_log :: "bool \<Rightarrow> log_call" where
  "closing_log closefd = SM_WARN (if closefd then ''Closing the socket'' else ''not Closing the socket'') []"

definition reply_logs :: "machine \<Rightarrow> http_state \<Rightarrow> http_request \<Rightarrow> log_call list" where
  "reply_logs mc st request =
     search_logs (regex mc) (routes_map_org st) (url request) @
     (case query_endpoint_from_map (regex mc) (routes_map_org st) (url request) of
        Inl _ \<Rightarrow> []
      | Inr it \<Rightarrow>
          SM_INFO ''find of endpoint %s'' [Arg_Str (fst it)] #
          (case respond mc st request of Inl _ \<Rightarrow> [] | Inr (_, closefd) \<Rightarrow> [closing_log closefd]))"

definition request_logs :: "machine \<Rightarrow> int \<Rightarrow> http_state \<Rightarrow> string \<Rightarrow> log_call list" where
  "request_logs mc connection st str_request =
     SM_ERROR ''retrieve content length[%d]'' [Arg_Int (if str_request = [] then 1 else 0)] #
     (if str_request = [] then [closing_log False]
      else case read_request mc str_request of
             Inl _ \<Rightarrow> []
           | Inr request \<Rightarrow>
               [SM_INFO ''http verb %s'' [Arg_Str (str_verb request)],
                SM_INFO ''http url endpoint %s'' [Arg_Str (url request)]] @
               (if is_websocket (headers request)
                then (case add_new_connection_connection (byte_order mc) (hash_memory mc) connection
                             (headers request) (url request) (websocket_descriptor st) of
                        Inl _ \<Rightarrow> []
                      | Inr (ok, _) \<Rightarrow> if ok then [SM_INFO ''NEW WEBSOCKET CLIENT'' []] else reply_logs mc st request)
                else reply_logs mc st request))"

text \<open>\<open>create_server\<close> of the default server logs the results of its calls, which are \<open>int\<close>s.\<close>

definition default_setup_logs :: "int \<Rightarrow> int \<Rightarrow> int \<Rightarrow> int \<Rightarrow> log_call list" where
  "default_setup_logs bound listening reuse_address reuse_port =
     [SM_WARN ''bind result=>%ld'' [Arg_Int bound],
      SM_WARN ''listen result=>%ld'' [Arg_Int listening],
      SM_WARN ''setsockopt SO_REUSEADDR result=>%ld'' [Arg_Int reuse_address],
      SM_WARN ''setsockopt SO_REUSEPORT result=>%ld'' [Arg_Int reuse_port]]"

text \<open>
  The whole of \<open>handle_connection_request\<close>: \<open>received_str\<close> logs what \<open>recv\<close> returned, before anything
  else is done.
\<close>

definition received_log :: "int \<Rightarrow> log_call" where
  "received_log l = SM_WARN ''RECEIVED FROM SERVER:2-> %ld'' [Arg_Int l]"

definition connection_logs :: "machine \<Rightarrow> 's recv_fun \<Rightarrow> int \<Rightarrow> http_state \<Rightarrow> 's \<Rightarrow> log_call list" where
  "connection_logs mc rcv connection st s =
     received_log (fst (rcv default_max_buffer s)) #
     (case received_str rcv s of
        Inl _ \<Rightarrow> []
      | Inr (str_request, _) \<Rightarrow> request_logs mc connection st str_request)"

section \<open>The other calls\<close>

text \<open>
  \<open>http_server::get\<close> and \<open>add_route_handler\<close>; \<open>handle_incomming_connection\<close> of the default server, without
  a handler and with one; the poll server; the entries that the epoll server reports; the manager.
\<close>

definition instance_log :: log_call where
  "instance_log = SM_WARN ''Creating a new instance of http_server %x'' [Arg_Pointer]"

definition route_log :: "string \<Rightarrow> nat \<Rightarrow> log_call" where
  "route_log uri n =
     SM_INFO ''Adding a route [%s] with memory address [%x] route map length: %ld'' [Arg_Str uri, Arg_Object, Arg_Size n]"

definition incomming_logs :: "bool \<Rightarrow> int \<Rightarrow> string \<Rightarrow> log_call list" where
  "incomming_logs settled c buffer =
     (if \<not> settled
      then [SM_ERROR ''there is not cb settle for handling incomming connections'' [],
            SM_WARN (''Received payload length: %ld and buffer %'' @ LF # ''%s'' @ [LF]) [Arg_Int c, Arg_Str buffer]]
      else [SM_WARN ''calling the address fn=>%x'' [Arg_Object]])"

definition poll_accept_logs :: "int \<Rightarrow> log_call list" where
  "poll_accept_logs new_connection =
     [SM_ERROR ''SOCKET input data to be read'' [], SM_WARN ''new connection fd=>%ld'' [Arg_Int new_connection]]"

definition poll_gone_log :: "int \<Rightarrow> int \<Rightarrow> log_call" where
  "poll_gone_log client_fd server = SM_INFO ''Client disconnected fd: %ld, serverfd %ld'' [Arg_Int client_fd, Arg_Int server]"

definition poll_removed_log :: "int \<Rightarrow> log_call" where
  "poll_removed_log fd = SM_WARN ''[-] Socket removed: %ld'' [Arg_Int fd]"

definition epoll_event_logs :: "bool \<Rightarrow> bool \<Rightarrow> bool \<Rightarrow> bool \<Rightarrow> log_call list" where
  "epoll_event_logs pollin pollhub pollerror pollout =
     [SM_TRACE ''POLLIN %d'' [Arg_Int (of_bool pollin)], SM_TRACE ''POLl HUb %d'' [Arg_Int (of_bool pollhub)],
      SM_TRACE ''POLL error %d'' [Arg_Int (of_bool pollerror)], SM_TRACE ''POLL out %d'' [Arg_Int (of_bool pollout)]]"

definition is_websocket_logs :: "int \<Rightarrow> int set \<Rightarrow> log_call list" where
  "is_websocket_logs fd descriptors =
     (if fd \<in> descriptors then []
      else [SM_INFO ''not websocket %ld, because this descriptor is not in the list'' [Arg_Int fd]])"

definition notify_log :: "int \<Rightarrow> int set \<Rightarrow> log_call" where
  "notify_log fd descriptors =
     (if fd \<in> descriptors then SM_INFO ''websocket notify %ld'' [Arg_Int fd]
      else SM_INFO ''websocket not notify %ld, because this descriptor is not in the list'' [Arg_Int fd])"

section \<open>Formats and the types of their arguments\<close>

fun accepts :: "directive \<Rightarrow> log_arg \<Rightarrow> bool" where
  "accepts Conv_d a \<longleftrightarrow> (case a of Arg_Int _ \<Rightarrow> True | Arg_UInt n \<Rightarrow> n < 2 ^ 31 | _ \<Rightarrow> False)"
| "accepts Conv_ld a \<longleftrightarrow> (case a of Arg_Long _ \<Rightarrow> True | Arg_Size n \<Rightarrow> n < 2 ^ 63 | _ \<Rightarrow> False)"
| "accepts Conv_x a \<longleftrightarrow> (case a of Arg_UInt _ \<Rightarrow> True | Arg_Int i \<Rightarrow> 0 \<le> i | _ \<Rightarrow> False)"
| "accepts Conv_s a \<longleftrightarrow> (case a of Arg_Str _ \<Rightarrow> True | _ \<Rightarrow> False)"
| "accepts _ a \<longleftrightarrow> False"

text \<open>Every conversion has an argument of its own that it accepts.\<close>

definition conversions :: "directive list \<Rightarrow> directive list" where
  "conversions ds = filter (\<lambda>d. case d of Text _ \<Rightarrow> False | _ \<Rightarrow> True) ds"

definition well_typed :: "directive list \<Rightarrow> log_arg list \<Rightarrow> bool" where
  "well_typed ds args \<longleftrightarrow> list_all2 accepts (conversions ds) (take (length (conversions ds)) args)"

text \<open>A call that writes its line, one that is undefined, and a request that the routes are searched for.\<close>

definition written :: "log_call \<Rightarrow> bool" where
  "written call \<longleftrightarrow> (case log_line call of Some (Inr _) \<Rightarrow> True | _ \<Rightarrow> False)"

definition undefined_call :: "log_call \<Rightarrow> bool" where
  "undefined_call call \<longleftrightarrow> log_line call = Some (Inl Undefined_Behaviour)"

definition reply_wanted :: "machine \<Rightarrow> int \<Rightarrow> http_state \<Rightarrow> http_request \<Rightarrow> bool" where
  "reply_wanted mc connection st request \<longleftrightarrow>
     \<not> is_websocket (headers request) \<or>
     (case add_new_connection_connection (byte_order mc) (hash_memory mc) connection
             (headers request) (url request) (websocket_descriptor st) of
        Inl _ \<Rightarrow> False
      | Inr (ok, _) \<Rightarrow> \<not> ok)"

text \<open>A search that tries the patterns and finds nothing.\<close>

definition unmatched :: "regex_match \<Rightarrow> 'cb routes \<Rightarrow> string \<Rightarrow> bool" where
  "unmatched rx table uri \<longleftrightarrow>
     uri \<noteq> ''/'' \<and> (case query_endpoint_from_map rx table uri of Inr (_, None) \<Rightarrow> True | _ \<Rightarrow> False)"

definition unmatched_logs :: "machine \<Rightarrow> int \<Rightarrow> http_state \<Rightarrow> string \<Rightarrow> log_call list" where
  "unmatched_logs mc connection st str_request =
     (case read_request mc str_request of
        Inl _ \<Rightarrow> []
      | Inr request \<Rightarrow>
          if str_request \<noteq> [] \<and> reply_wanted mc connection st request
             \<and> unmatched (regex mc) (routes_map_org st) (url request)
          then [not_found_log (url request) (length (routes_map_org st))] else [])"

section \<open>Lemmas\<close>

lemma rbind_case: "rbind m f = (case m of Inl e \<Rightarrow> Inl e | Inr x \<Rightarrow> f x)"
  by (cases m) auto

lemma directives_literal:
  "CHR ''%'' \<notin> set lit \<Longrightarrow> directives (lit @ fmt) = map_option (\<lambda>ds. map Text lit @ ds) (directives fmt)"
  by (cases "directives fmt"; induction lit) auto

lemma directives_plain: "CHR ''%'' \<notin> set lit \<Longrightarrow> directives lit = Some (map Text lit)"
  using directives_literal [of lit "[]"] by simp

lemma directives_append:
  "directives fmt = Some ds \<Longrightarrow> CHR ''%'' \<notin> set lit \<Longrightarrow> directives (fmt @ lit) = Some (ds @ map Text lit)"
proof (induction fmt arbitrary: ds rule: length_induct)
  case (1 fmt)
  have IH: "length f < length fmt \<Longrightarrow> directives f = Some ds \<Longrightarrow> directives (f @ lit) = Some (ds @ map Text lit)" for f ds
    using 1 by blast
  consider "fmt = []" | c cs where "fmt = c # cs" "c \<noteq> CHR ''%''" | "fmt = ''%''"
    | d cs where "fmt = CHR ''%'' # d # cs" by (metis list.exhaust)
  then show ?case
  proof cases
    case 4
    have "prefix ''d'' cs \<Longrightarrow> prefix ''d'' (cs @ lit) \<and> drop 1 (cs @ lit) = drop 1 cs @ lit" by (cases cs) auto
    then show ?thesis using 1(2) 4 IH [of cs] IH [of "drop 1 cs"] by (auto split: if_splits)
  qed (use 1 IH in \<open>auto simp: directives_plain\<close>)
qed

lemma render_append: "render (ds @ map Text lit) args = rbind (render ds args) (\<lambda>t. Inr (t @ lit))"
proof (induction ds args rule: render.induct)
  case (1 args)
  show ?case by (induction lit) auto
qed (auto simp: rbind_case split: sum.splits)

lemma render_prepend: "render (map Text lit @ ds) args = rbind (render ds args) (\<lambda>t. Inr (lit @ t))"
  by (induction lit) (auto simp: rbind_case split: sum.splits)

lemma converted_undefined: "converted d a = Inl e \<Longrightarrow> e = Undefined_Behaviour"
  by (cases "(d, a)" rule: converted.cases) (auto split: if_splits)

lemma render_undefined: "render ds args = Inl e \<Longrightarrow> e = Undefined_Behaviour"
  by (induction ds args rule: render.induct) (auto simp: rbind_Inl_iff dest: converted_undefined)

lemma converted_accepts: "(\<exists>t. converted d a = Inr t) \<longleftrightarrow> accepts d a"
  by (cases d; cases a) auto

lemma render_well_typed: "(\<exists>t. render ds args = Inr t) \<longleftrightarrow> well_typed ds args"
proof (induction ds arbitrary: args)
  case (Cons d ds)
  have step: "(\<exists>t. render (d # ds) args = Inr t) \<longleftrightarrow> well_typed (d # ds) args"
    if "conversions (d # ds) = d # conversions ds" "d \<noteq> No_Conversion"
      "\<And>a rest. render (d # ds) (a # rest) = rbind (converted d a) (\<lambda>t. rbind (render ds rest) (\<lambda>u. Inr (t @ u)))"
      "render (d # ds) [] = Inl Undefined_Behaviour"
  proof (cases args)
    case Nil
    then show ?thesis using that by (simp add: well_typed_def)
  next
    case (Cons a rest)
    have "(\<exists>t. render (d # ds) args = Inr t) \<longleftrightarrow> accepts d a \<and> well_typed ds rest"
      using Cons.IH [of rest] converted_accepts [of d a] by (auto simp: Cons that(3) rbind_Inr_iff)
    then show ?thesis using that by (simp add: Cons well_typed_def)
  qed
  show ?case
  proof (cases d)
    case (Text c)
    then show ?thesis using Cons.IH [of args] by (auto simp: well_typed_def conversions_def rbind_Inr_iff)
  next
    case No_Conversion
    then show ?thesis by (cases args) (simp_all add: well_typed_def conversions_def)
  qed (rule step; simp add: conversions_def)+
qed (simp add: well_typed_def conversions_def)

lemma color_bytes:
  assumes "c \<noteq> TEXT_COLOR_COUNT"
  obtains col where "TextColorTable c = Inr col" "CHR ''%'' \<notin> set col" "NUL \<notin> set col" "length col = 5"
  using assms by (cases c) auto

lemma reset_color_bytes [simp]:
  "NUL \<notin> set reset_color" "CHR ''%'' \<notin> set reset_color" "length reset_color = 4"
  by (simp_all add: reset_color_def)

lemma format_directives:
  "directives (''%s %s %s '' @ lit) =
     map_option (\<lambda>ds. [Conv_s, Text CHR '' '', Conv_s, Text CHR '' '', Conv_s, Text CHR '' ''] @ ds) (directives lit)"
  by (cases "directives lit") simp_all

lemma log_line_eq:
  assumes "TextColorTable c = Inr col" and "CHR ''%'' \<notin> set pre" "NUL \<notin> set pre" "NUL \<notin> set msg"
    and "length pre + length msg < 8180" and "directives msg = Some ds"
  shows "log_line (Log pre msg c args) = Some (
     rbind (render ds args) (\<lambda>t. if length pre + length t < 8900
       then Inr (col @ CHR '' '' # pre @ CHR '' '' # t @ CHR '' '' # reset_color @ [LF]) else Inl Undefined_Behaviour))"
proof -
  have "c \<noteq> TEXT_COLOR_COUNT" using assms(1) by auto
  with assms(1) have col: "CHR ''%'' \<notin> set col" "NUL \<notin> set col" "length col = 5"
    using color_bytes [of c] by auto
  let ?f = "col @ CHR '' '' # pre @ CHR '' '' # msg @ CHR '' '' # reset_color"
  have r: "render (map Text reset_color) [] = Inr reset_color"
    using render_append [of "[]" reset_color "[]"] by simp
  have "sprintf (''%s %s %s '' @ reset_color) [Arg_Str col, Arg_Str pre, Arg_Str msg] = Some (Inr ?f)"
    using assms col unfolding sprintf_def format_directives directives_plain [OF reset_color_bytes(2)]
    by (simp add: r)
  then have f: "sprintf_buffer 8192 (''%s %s %s '' @ reset_color) [Arg_Str col, Arg_Str pre, Arg_Str msg] = Some (Inr ?f)"
    using assms col by (simp add: sprintf_buffer_def)
  have "CHR ''%'' \<notin> set (col @ CHR '' '' # pre @ '' '')" "CHR ''%'' \<notin> set (CHR '' '' # reset_color)"
    using assms col by simp_all
  from directives_literal [OF this(1), of "msg @ CHR '' '' # reset_color"] directives_append [OF assms(6) this(2)]
  have "directives ?f = Some (map Text (col @ CHR '' '' # pre @ '' '') @ ds @ map Text (CHR '' '' # reset_color))"
    by simp
  then have g: "sprintf ?f args = Some (rbind (render ds args)
      (\<lambda>t. Inr (col @ CHR '' '' # pre @ CHR '' '' # t @ CHR '' '' # reset_color)))"
    unfolding sprintf_def
    by (simp only: option.map render_prepend render_append) (simp add: rbind_case split: sum.splits)
  show ?thesis unfolding log_line.simps assms(1) f sum.case option.case
    unfolding sprintf_buffer_def g
    using col by (simp add: rbind_case split: sum.splits)
qed

lemma written_Log:
  assumes "c \<noteq> TEXT_COLOR_COUNT" "CHR ''%'' \<notin> set pre" "NUL \<notin> set pre" "NUL \<notin> set msg"
    and "length pre + length msg < 8180" and "directives msg = Some ds"
  shows "written (Log pre msg c args) \<longleftrightarrow> (\<exists>t. render ds args = Inr t \<and> length pre + length t < 8900)"
    and "\<not> written (Log pre msg c args) \<Longrightarrow> undefined_call (Log pre msg c args)"
proof -
  obtain col where col: "TextColorTable c = Inr col" using color_bytes [OF assms(1)] by blast
  show "written (Log pre msg c args) \<longleftrightarrow> (\<exists>t. render ds args = Inr t \<and> length pre + length t < 8900)"
    using log_line_eq [OF col assms(2-), of args]
    by (cases "render ds args") (simp_all add: written_def)
  show "\<not> written (Log pre msg c args) \<Longrightarrow> undefined_call (Log pre msg c args)"
    using log_line_eq [OF col assms(2-), of args] render_undefined [of ds args]
    by (cases "render ds args") (auto simp: written_def undefined_call_def split: if_splits)
qed

lemma written_macros:
  assumes "NUL \<notin> set msg" and "length msg < 8172" and "directives msg = Some ds"
  shows "written (SM_TRACE msg args) \<longleftrightarrow> (\<exists>t. render ds args = Inr t \<and> length t < 8893)"
    and "written (SM_WARN msg args) \<longleftrightarrow> (\<exists>t. render ds args = Inr t \<and> length t < 8894)"
    and "written (SM_ERROR msg args) \<longleftrightarrow> (\<exists>t. render ds args = Inr t \<and> length t < 8893)"
    and "written (SM_INFO msg args) \<longleftrightarrow> (\<exists>t. render ds args = Inr t \<and> length t < 8893)"
  using assms by (auto simp: SM_TRACE_def SM_WARN_def SM_ERROR_def SM_INFO_def written_Log)

lemma undefined_macros:
  assumes "NUL \<notin> set msg" and "length msg < 8172"
    and "case directives msg of None \<Rightarrow> False | Some ds \<Rightarrow> \<not> well_typed ds args"
  shows "undefined_call (SM_TRACE msg args)" "undefined_call (SM_WARN msg args)"
    "undefined_call (SM_ERROR msg args)" "undefined_call (SM_INFO msg args)"
proof -
  from assms(3) obtain ds where ds: "directives msg = Some ds" "\<not> (\<exists>t. render ds args = Inr t)"
    by (auto simp: render_well_typed split: option.splits)
  note d = written_Log(2) [OF _ _ _ assms(1) _ ds(1)]
  show "undefined_call (SM_TRACE msg args)" "undefined_call (SM_WARN msg args)"
    "undefined_call (SM_ERROR msg args)" "undefined_call (SM_INFO msg args)"
    using assms(2) ds(2)
    by (auto simp: SM_TRACE_def SM_WARN_def SM_ERROR_def SM_INFO_def written_Log(1) [OF _ _ _ assms(1) _ ds(1)] intro!: d)
qed

lemma not_written: "undefined_call call \<Longrightarrow> \<not> written call"
  by (simp add: undefined_call_def written_def)

lemma received_undefined: "undefined_call (received_log l)"
  unfolding received_log_def by (rule undefined_macros) (simp_all add: well_typed_def conversions_def)

lemma setup_undefined: "call \<in> set (default_setup_logs a b c d) \<Longrightarrow> undefined_call call"
  by (auto simp: default_setup_logs_def well_typed_def conversions_def undefined_macros)

text \<open>
  Of the calls with a length or a descriptor none is typed as its format: they pass an \<open>int\<close> for
  \<open>%ld\<close>, and a pointer or an object for \<open>%x\<close>; one more has a \<open>%\<close> before a line break.
\<close>

lemma mistyped_calls:
  "undefined_call instance_log" "undefined_call (route_log uri n)"
  "\<exists>call \<in> set (incomming_logs settled l buffer). undefined_call call"
  "\<exists>call \<in> set (poll_accept_logs fd). undefined_call call"
  "undefined_call (poll_gone_log fd server)" "undefined_call (poll_removed_log fd)"
  "fd \<notin> ws \<Longrightarrow> \<exists>call \<in> set (is_websocket_logs fd ws). undefined_call call"
  "undefined_call (notify_log fd ws)"
  by (auto simp: instance_log_def route_log_def incomming_logs_def poll_accept_logs_def poll_gone_log_def
      poll_removed_log_def is_websocket_logs_def notify_log_def undefined_macros well_typed_def conversions_def)

lemma epoll_event_written: "call \<in> set (epoll_event_logs a b c d) \<Longrightarrow> written call"
  by (auto simp: epoll_event_logs_def written_macros int_to_string_def nat_to_string.simps)

lemma length_c_str: "length (c_str s) \<le> length s"
  using c_str_prefix prefix_length_le by blast

lemma regex_logs_written:
  "\<forall>k \<in> fst ` set m. length k \<le> 4096 \<Longrightarrow> call \<in> set (regex_logs rx uri m) \<Longrightarrow> written call"
proof (induction m)
  case (Cons kv m)
  obtain k cb where kv: "kv = (k, cb)" by (cases kv)
  have "length (c_str k) \<le> 4096" using Cons.prems(1) kv length_c_str [of k] by simp
  then have "written (SM_TRACE ''try regex %s on URI'' [Arg_Str k, Arg_Str uri])"
    by (simp add: written_macros)
  then show ?case using Cons kv by (auto split: if_splits)
qed simp

lemma not_found_undefined: "undefined_call (not_found_log uri n)"
  unfolding not_found_log_def by (rule undefined_macros) (simp_all add: well_typed_def conversions_def)

lemma filter_written: "\<forall>call \<in> set calls. written call \<Longrightarrow> filter (\<lambda>call. \<not> written call) calls = []"
  by (auto simp: filter_empty_conv)

lemma search_logs_unwritten:
  assumes "\<forall>k \<in> fst ` set m. length k \<le> 4096" and "length uri \<le> 4096"
  shows "filter (\<lambda>call. \<not> written call) (search_logs rx m uri)
    = (if unmatched rx m uri then [not_found_log uri (length m)] else [])"
proof -
  have "length (c_str uri) \<le> 4096" using assms(2) length_c_str [of uri] by simp
  then have "written (SM_TRACE ''URI %s found'' [Arg_Str uri])" by (simp add: written_macros)
  moreover have "filter (\<lambda>call. \<not> written call) (regex_logs rx uri m) = []"
    using regex_logs_written [OF assms(1)] by (auto intro: filter_written)
  ultimately show ?thesis
    by (auto simp: search_logs_def unmatched_def query_endpoint_from_map_def Let_def not_written [OF not_found_undefined]
        rbind_case split: option.splits sum.splits prod.splits)
qed

lemma read_request_lengths:
  assumes "read_request mc str = Inr request"
  shows "length (str_verb request) \<le> length str" and "length (url request) \<le> length str"
proof -
  have sub: "substr s a n = Inr t \<Longrightarrow> length t \<le> length s" for s t a n
    by (auto simp: substr_def split: if_splits)
  from assms obtain v u where v: "extract_http_verb str = Inr v" "str_verb request = v"
    and u: "extract_url str = Inr u" "url request = u"
    by (auto simp: read_request_def Let_def rbind_Inr_iff)
  from v sub show "length (str_verb request) \<le> length str" by (auto simp: extract_http_verb_def)
  obtain w where "extract_url_with_query_params str = Inr w" "u = takeWhile (\<lambda>c. c \<noteq> CHR ''?'') w"
    using u(1) by (auto simp: extract_url_cut rbind_Inr_iff)
  then show "length (url request) \<le> length str"
    using u(2) sub length_takeWhile_le [of "\<lambda>c. c \<noteq> CHR ''?''" w] order_trans
    by (fastforce simp: extract_url_with_query_params_def Let_def)
qed

lemma query_key:
  assumes "query_endpoint_from_map rx m uri = Inr it"
  shows "fst it \<in> fst ` set m \<or> fst it = INVALID_HTTP_URI \<or> fst it = uri"
proof -
  have r: "regex_route rx uri m = Inr (Some it) \<Longrightarrow> fst it \<in> fst ` set m" for it
    by (induction m) (auto split: option.splits if_splits)
  have f: "List.find P m = Some it \<Longrightarrow> fst it \<in> fst ` set m" for P it
    by (auto simp: find_Some_iff)
  consider "uri = ''/''" | cb where "uri \<noteq> ''/''" "umap_find m uri = Some cb"
    | "uri \<noteq> ''/''" "umap_find m uri = None" by (cases "umap_find m uri") auto
  then show ?thesis
  proof cases
    case 3
    then obtain x where x: "regex_route rx uri m = Inr x"
      using assms by (auto simp: query_endpoint_from_map_def Let_def rbind_Inr_iff split: if_splits)
    show ?thesis
    proof (cases x)
      case (Some kv)
      then show ?thesis using 3 x assms r [of kv]
        by (force simp: query_endpoint_from_map_def Let_def split: if_splits prod.splits)
    next
      case None
      then show ?thesis using 3 x assms f
        by (auto simp: query_endpoint_from_map_def Let_def pattern_route_eq split: if_splits prod.splits option.splits)
    qed
  qed (use assms f in \<open>auto simp: query_endpoint_from_map_def Let_def split: option.splits prod.splits\<close>)
qed

lemma request_calls_written:
  assumes "length (c_str s) \<le> 4096"
  shows "written (SM_ERROR ''retrieve content length[%d]'' [Arg_Int (of_bool b)])"
    and "written (SM_INFO ''http verb %s'' [Arg_Str s])"
    and "written (SM_INFO ''http url endpoint %s'' [Arg_Str s])"
    and "written (SM_INFO ''find of endpoint %s'' [Arg_Str s])"
    and "written (SM_INFO ''NEW WEBSOCKET CLIENT'' [])" and "written (closing_log closefd)"
  using assms by (simp_all add: written_macros closing_log_def int_to_string_def nat_to_string.simps)

lemma reply_logs_unwritten:
  assumes "\<forall>k \<in> fst ` set (routes_map_org st). length k \<le> 4096" and "length (url request) \<le> 4096"
  shows "filter (\<lambda>call. \<not> written call) (reply_logs mc st request)
    = (if unmatched (regex mc) (routes_map_org st) (url request)
       then [not_found_log (url request) (length (routes_map_org st))] else [])"
proof -
  have "written (SM_INFO ''find of endpoint %s'' [Arg_Str (fst it)])"
    if "query_endpoint_from_map (regex mc) (routes_map_org st) (url request) = Inr it" for it
  proof (rule request_calls_written)
    have "length (fst it) \<le> 4096" using query_key [OF that] assms by (auto simp: INVALID_HTTP_URI_def)
    then show "length (c_str (fst it)) \<le> 4096" using length_c_str [of "fst it"] by simp
  qed
  moreover have "\<And>closefd. written (closing_log closefd)"
    by (rule request_calls_written(6) [of "[]"]) (simp add: c_str_def)
  ultimately show ?thesis
    using search_logs_unwritten [OF assms, of "regex mc"]
    by (cases "query_endpoint_from_map (regex mc) (routes_map_org st) (url request)"; cases "respond mc st request")
      (auto simp: reply_logs_def)
qed

lemma request_logs_unwritten:
  assumes "length str_request < default_max_buffer"
    and "\<forall>k \<in> fst ` set (routes_map_org st). length k \<le> 4096"
  shows "filter (\<lambda>call. \<not> written call) (request_logs mc connection st str_request)
    = unmatched_logs mc connection st str_request"
proof (cases "str_request = []")
  case True
  then show ?thesis
    using request_calls_written(1) [of "[]" True] request_calls_written(6) [of "[]"]
    by (simp add: request_logs_def unmatched_logs_def c_str_def split: sum.split)
next
  case False
  show ?thesis
  proof (cases "read_request mc str_request")
    case (Inl e)
    then show ?thesis using False request_calls_written(1) [of "[]" False]
      by (simp add: request_logs_def unmatched_logs_def c_str_def)
  next
    case (Inr request)
    have "length (str_verb request) \<le> 4096" and u: "length (url request) \<le> 4096"
      using read_request_lengths [OF Inr] assms(1) by (simp_all add: default_max_buffer_def)
    then have c: "length (c_str (str_verb request)) \<le> 4096" "length (c_str (url request)) \<le> 4096"
      using length_c_str le_trans by blast+
    note calls = request_calls_written(1) [OF c(1), of False] request_calls_written(2) [OF c(1)]
      request_calls_written(3) [OF c(2)] request_calls_written(5) [OF c(1)]
    show ?thesis
      using calls reply_logs_unwritten [OF assms(2) u, of mc] False Inr
      by (auto simp: request_logs_def unmatched_logs_def reply_wanted_def split: sum.splits prod.splits)
  qed
qed

lemma received_short:
  assumes "received_str rcv s = Inr (str, s')" and "rcv default_max_buffer s = (l, data, s'')"
    and "length data \<le> default_max_buffer"
  shows "length str < default_max_buffer"
proof -
  have "length (c_str t) < length t" if "NUL \<in> set t" for t
    using that by (induction t) (auto simp: c_str_def)
  moreover have "NUL \<in> set (string_of data)" if "0 \<in> set data"
    using image_eqI [OF _ that, of NUL char_of_byte] by (simp add: string_of_def char_of_byte_def char_of_def)
  moreover have "length (string_of data) = length data" by (simp add: string_of_def)
  ultimately show ?thesis
    using assms length_c_str [of "string_of data"]
    by (fastforce simp: received_str_def default_max_buffer_def split: if_splits)
qed

section \<open>Properties\<close>

text \<open>
  C32: Logging is typed by its format: for a message of the directives that the program uses, a call
  whose arguments are accepted by the conversions of the message, one each, writes one line, the
  message rendered between the color with the prefix and the reset code, when that line fits the
  buffer of 8912 bytes; every other call with such a message is undefined.
\<close>

theorem log_typed:
  assumes "directives msg = Some ds" and "textColor \<noteq> TEXT_COLOR_COUNT"
    and "CHR ''%'' \<notin> set pre" and "NUL \<notin> set pre" and "NUL \<notin> set msg"
    and "length pre + length msg < 8180"
  shows "if well_typed ds args
     then \<exists>color t. TextColorTable textColor = Inr color \<and> render ds args = Inr t
       \<and> log_line (Log pre msg textColor args) =
           Some (if length pre + length t < 8900
                 then Inr (color @ CHR '' '' # pre @ CHR '' '' # t @ CHR '' '' # reset_color @ [LF])
                 else Inl Undefined_Behaviour)
     else log_line (Log pre msg textColor args) = Some (Inl Undefined_Behaviour)"
proof -
  obtain col where col: "TextColorTable textColor = Inr col" using color_bytes [OF assms(2)] by blast
  show ?thesis
    using log_line_eq [OF col assms(3-6) assms(1), of args] col render_well_typed [of ds args] render_undefined [of ds args]
    by (cases "render ds args") auto
qed

theorem log_typed_witness:
  "log_line (Log ''ERROR: '' ''find %s'' TEXT_COLOR_RED [Arg_Str ''/a'']) =
     Some (Inr (ESC # ''[31m ERROR:  find /a '' @ ESC # ''[0m'' @ [LF]))
   \<and> log_line (Log ''ERROR: '' ''find %s'' TEXT_COLOR_RED [Arg_Size 3]) = Some (Inl Undefined_Behaviour)"
  using log_typed [of "''find %s''" _ TEXT_COLOR_RED "''ERROR: ''" "[Arg_Str ''/a'']"]
    log_typed [of "''find %s''" _ TEXT_COLOR_RED "''ERROR: ''" "[Arg_Size 3]"]
  by (simp add: reset_color_def well_typed_def conversions_def)

text \<open>
  C31: What a call of the request handler logs: the first call of the log, with the result of
  \<open>recv\<close>, is undefined for every request (an \<open>int\<close> for \<open>%ld\<close>); of all the others, whatever the
  request is and with route keys of at most 4096 characters, each writes its line within the buffers, with one exception: when the routes are
  searched and none is found, the call that says so is undefined (a \<open>size_t\<close> for \<open>%d\<close>).
\<close>

theorem connection_logged:
  assumes "rcv default_max_buffer s = (l, data, s')" and "length data \<le> default_max_buffer"
    and "\<forall>k \<in> fst ` set (routes_map_org st). length k \<le> 4096"
  shows "filter (\<lambda>call. \<not> written call) (connection_logs mc rcv connection st s) =
     received_log l # (case received_str rcv s of
        Inl _ \<Rightarrow> []
      | Inr (str_request, _) \<Rightarrow> unmatched_logs mc connection st str_request)
   \<and> undefined_call (received_log l) \<and> undefined_call (not_found_log uri n)"
proof -
  have "filter (\<lambda>call. \<not> written call) (request_logs mc connection st str) = unmatched_logs mc connection st str"
    if "received_str rcv s = Inr (str, s2)" for str s2
    using request_logs_unwritten [OF received_short [OF that assms(1,2)] assms(3)] .
  then show ?thesis
    using assms(1) received_undefined not_found_undefined not_written [OF received_undefined]
    by (auto simp: connection_logs_def split: sum.splits)
qed

theorem connection_logged_witness:
  "filter (\<lambda>call. \<not> written call)
     (connection_logs hello_machine recv 5 hello_state
        [Rx_Data (bytes_of (request_text ''GET'' ''/nowhere'' [(''Host'', ''h'')] []))])
   = [received_log (int (length (request_text ''GET'' ''/nowhere'' [(''Host'', ''h'')] []))), not_found_log ''/nowhere'' 1]"
proof -
  let ?t = "request_text ''GET'' ''/nowhere'' [(''Host'', ''h'')] []"
  let ?q = "request_object hello_machine ''GET'' ''/nowhere'' [(''Host'', ''h'')] [] []"
  have plain: "plain_request ''GET'' ''/nowhere'' [(''Host'', ''h'')] []" by (simp add: plain_simps)
  have t: "?t \<noteq> []" "length ?t < default_max_buffer" by (simp_all add: plain_simps)
  have q: "read_request hello_machine ?t = Inr ?q"
    by (rule read_request_plain [OF plain]) (simp add: parse_url_params_def)
  have w: "reply_wanted hello_machine 5 hello_state ?q"
    by (simp add: reply_wanted_def request_object_def is_websocket_def umap_find_request_headers)
  have table: "routes_map_org hello_state = [(''/hello'', \<lambda>req. Inr (set_body (str_verb req) (http_response_new OK)))]"
    by (simp add: hello_state_def add_route_handler_def umap_insert_def umap_set_def umap_find_def)
  have "\<not> path_matches ''/hello'' ''/nowhere''" by code_simp
  then have "query_endpoint_from_map (regex hello_machine) (routes_map_org hello_state) ''/nowhere'' =
      Inr (INVALID_HTTP_URI, None)"
    by (simp add: query_endpoint_from_map_def pattern_route_eq table hello_machine_def umap_find_def
        del: pattern_route.simps)
  then have "unmatched (regex hello_machine) (routes_map_org hello_state) (url ?q)" "url ?q = ''/nowhere''"
    by (simp_all add: unmatched_def request_object_def request_path_def)
  then have u: "unmatched_logs hello_machine 5 hello_state ?t = [not_found_log ''/nowhere'' 1]"
    using q w t(1) by (simp add: unmatched_logs_def table)
  have "recv default_max_buffer [Rx_Data (bytes_of ?t)] = (int (length ?t), bytes_of ?t, [])"
    using t by (simp add: bytes_of_def)
  from connection_logged [where mc = hello_machine and st = hello_state and connection = 5 and rcv = recv
      and s = "[Rx_Data (bytes_of ?t)]", OF this]
  show ?thesis using t(2) received_plain [OF plain, of "[]"] u by (simp add: table bytes_of_def)
qed

end
