(* ===== verification/Clients.thy ===== *)
theory Clients
  imports Tcp_Progress
begin

text \<open>
  The clients of the default server (src/tcp_default_handler.cpp with src/http_handler.cpp and
  src/websocket_handler.cpp), as a specification: what each of them sends, and what it is to get. That
  the threads of the server give it to them is shown from the calls of the handler on their own.
\<close>

section \<open>What a client sends and expects\<close>

text \<open>A request by its parts: verb, target, header fields, content.\<close>

datatype client_request = Client_Request string string "(string \<times> string) list" string

fun client_input :: "client_request \<Rightarrow> rx_event" where
  "client_input (Client_Request verb target kvs content) = Rx_Data (bytes_of (request_text verb target kvs content))"

definition websocket_keys :: "(string \<times> string) list \<Rightarrow> string list" where
  "websocket_keys kvs = map snd (filter (\<lambda>(k, v). to_lower_case k = ''sec-websocket-key'') kvs)"

text \<open>The response of the handler that is registered for the path.\<close>

definition page_response :: "machine \<Rightarrow> endpointcb routes \<Rightarrow> client_request \<Rightarrow> http_response option" where
  "page_response mc rts c =
     (case c of Client_Request verb target kvs content \<Rightarrow>
        (case (parse_url_params target, umap_find rts (request_path target)) of
           (Inr params, Some cb) \<Rightarrow>
             (case cb (request_object mc verb target kvs params content) of Inl _ \<Rightarrow> None | Inr res \<Rightarrow> Some res)
         | _ \<Rightarrow> None))"

text \<open>
  Requests for a registered path, and handshakes with one key. All of them are well-formed and fit
  the buffer of the server.
\<close>

definition client_ok :: "machine \<Rightarrow> endpointcb routes \<Rightarrow> client_request \<Rightarrow> bool" where
  "client_ok mc rts c \<longleftrightarrow>
     (case c of Client_Request verb target kvs content \<Rightarrow>
        plain_request verb target kvs content
        \<and> (if ''Upgrade'' \<in> fst ` set kvs
           then (case parse_url_params target of Inl _ \<Rightarrow> False | Inr _ \<Rightarrow> True)
                \<and> length (websocket_keys kvs) = 1 \<and> hd (websocket_keys kvs) \<noteq> []
           else request_path target \<noteq> INVALID_HTTP_URI \<and> page_response mc rts c \<noteq> None))"

definition client_answer :: "machine \<Rightarrow> endpointcb routes \<Rightarrow> int \<Rightarrow> client_request \<Rightarrow> net_effect list" where
  "client_answer mc rts fd c =
     (case c of Client_Request verb target kvs content \<Rightarrow>
        if ''Upgrade'' \<in> fst ` set kvs
        then [Send fd (bytes_of (handshake_response (accept_key (hd (websocket_keys kvs)))))]
        else (case page_response mc rts c of
                None \<Rightarrow> []
              | Some res \<Rightarrow> Send fd (bytes_of (response_text res)) # (if close_fd res then [Close fd] else [])))"

text \<open>The answer to the first request of a connection; the server reads no second one.\<close>

fun first_answer :: "machine \<Rightarrow> endpointcb routes \<Rightarrow> int \<Rightarrow> client_request list \<Rightarrow> net_effect list" where
  "first_answer mc rts fd [] = []"
| "first_answer mc rts fd (c # cs) = client_answer mc rts fd c"

section \<open>A call of the handler\<close>

lemma page_responseD:
  assumes "page_response mc rts (Client_Request verb target kvs content) = Some res"
  obtains params cb where "parse_url_params target = Inr params" "umap_find rts (request_path target) = Some cb"
    "cb (request_object mc verb target kvs params content) = Inr res"
  using assms by (auto simp: page_response_def split: sum.splits option.splits)

lemma websocket_key_unique:
  assumes "length (websocket_keys kvs) = 1"
  obtains k where "map_of (rev kvs) k = Some (hd (websocket_keys kvs))" "to_lower_case k = ''sec-websocket-key''"
    "\<And>k'. k' \<in> fst ` set kvs \<Longrightarrow> to_lower_case k' = ''sec-websocket-key'' \<Longrightarrow> k' = k"
proof -
  let ?P = "\<lambda>(k, v). to_lower_case k = ''sec-websocket-key''"
  from assms obtain kv where f: "filter ?P kvs = [kv]"
    by (auto simp: websocket_keys_def length_Suc_conv)
  obtain k v where kv: "kv = (k, v)" by (cases kv)
  have mem: "x \<in> set kvs \<Longrightarrow> ?P x \<Longrightarrow> x = (k, v)" for x
  proof -
    assume "x \<in> set kvs" "?P x"
    then have "x \<in> set (filter ?P kvs)" by simp
    then show "x = (k, v)" unfolding f kv by simp
  qed
  have "(k, v) \<in> set (filter ?P kvs)" unfolding f kv by simp
  then have k: "(k, v) \<in> set kvs" "to_lower_case k = ''sec-websocket-key''" by auto
  then obtain v' where "map_of (rev kvs) k = Some v'"
    by (metis map_of_eq_None_iff not_None_eq fst_conv image_eqI set_rev)
  moreover from this have "v' = v" using mem [of "(k, v')"] map_of_SomeD [of "rev kvs" k v'] k(2) by simp
  moreover have "hd (websocket_keys kvs) = v" by (simp add: websocket_keys_def f kv)
  ultimately show ?thesis using that [of k] k(2) mem by fastforce
qed

lemma client_served:
  assumes "client_ok mc rts c" and "umap_ok rts" and "length (Message_Block (hash_memory mc)) = 64"
    and "routes_map_org st = rts"
  shows "\<exists>st'. handle_connection_request mc recv fd st (client_input c # es) = Inr (client_answer mc rts fd c, st', es)"
proof -
  obtain verb target kvs content where c: "c = Client_Request verb target kvs content" by (cases c)
  show ?thesis
  proof (cases "''Upgrade'' \<in> fst ` set kvs")
    case True
    with assms(1) c obtain params where p: "plain_request verb target kvs content" "parse_url_params target = Inr params"
      and k: "length (websocket_keys kvs) = 1" "hd (websocket_keys kvs) \<noteq> []"
      by (auto simp: client_ok_def split: sum.splits)
    from k(1) obtain k where "map_of (rev kvs) k = Some (hd (websocket_keys kvs))"
      "to_lower_case k = ''sec-websocket-key''"
      "\<And>k'. k' \<in> fst ` set kvs \<Longrightarrow> to_lower_case k' = ''sec-websocket-key'' \<Longrightarrow> k' = k"
      by (rule websocket_key_unique) blast
    from upgrade_answer [OF p True this k(2) assms(3)] show ?thesis
      using True by (simp add: c client_answer_def)
  next
    case False
    with assms(1) c obtain res where p: "plain_request verb target kvs content"
      and r: "page_response mc rts c = Some res" and "request_path target \<noteq> INVALID_HTTP_URI"
      by (auto simp: client_ok_def)
    from page_responseD [OF r [unfolded c]] obtain params cb where
      "parse_url_params target = Inr params" "umap_find rts (request_path target) = Some cb"
      "cb (request_object mc verb target kvs params content) = Inr res" .
    with request_answer [OF p _ False, of params st cb mc res fd es] assms(2,4)
      \<open>request_path target \<noteq> INVALID_HTTP_URI\<close> False r
    show ?thesis by (simp add: c client_answer_def)
  qed
qed

lemma silent_served: "handle_connection_request mc recv fd st [] = Inr ([], st, [])"
  by (simp add: handle_connection_request_def received_str_def)

text \<open>No call faults on such clients, so that the threads come to their end.\<close>

lemma clients_faultless:
  assumes "umap_ok rts" and "length (Message_Block (hash_memory mc)) = 64"
  shows "faultless mc recv rts (\<lambda>x. \<exists>cs. x = map client_input cs \<and> (\<forall>c \<in> set cs. client_ok mc rts c))"
proof -
  have rest: "snd (snd (recv default_max_buffer (client_input c # es))) = es" if "client_ok mc rts c" for c es
  proof -
    obtain verb target kvs content where c: "c = Client_Request verb target kvs content" by (cases c)
    with that have "plain_request verb target kvs content" by (simp add: client_ok_def)
    from received_stream [OF received_plain [OF this, of es]] show ?thesis by (simp add: c)
  qed
  have "(\<exists>cs'. snd (snd (recv default_max_buffer (map client_input cs))) = map client_input cs'
        \<and> (\<forall>c \<in> set cs'. client_ok mc rts c))
      \<and> (\<forall>fd st. routes_map_org st = rts \<longrightarrow> (\<exists>r. handle_connection_request mc recv fd st (map client_input cs) = Inr r))"
    if "\<forall>c \<in> set cs. client_ok mc rts c" for cs
  proof (cases cs)
    case Nil
    then show ?thesis by (auto simp: silent_served intro: exI [of _ "[]"])
  next
    case (Cons c cs')
    with that rest client_served [of mc rts c] assms show ?thesis by fastforce
  qed
  then show ?thesis by (auto simp: faultless_def)
qed

section \<open>All of them\<close>

lemma first_answer_alone:
  assumes "\<forall>c \<in> set cs. client_ok mc rts c" and "umap_ok rts" and "length (Message_Block (hash_memory mc)) = 64"
    and "routes_map_org st = rts"
    and "handle_connection_request mc recv fd st (map client_input cs) = Inr (effs, st', x)"
  shows "effs = first_answer mc rts fd cs"
  using assms client_served [OF _ assms(2-4), of "hd cs" fd "map client_input (tl cs)"]
  by (cases cs) (auto simp: silent_served)

lemma done_once:
  assumes "unfinished ts = []" and "count_list (map fst ts) fd = 1"
  shows "filter (\<lambda>t. fst t = fd) ts = [(fd, Finished)]"
proof -
  have "length (filter (\<lambda>t. fst t = fd) ts) = 1"
    using assms(2) by (simp add: count_list_eq_length_filter filter_map o_def eq_commute)
  then obtain t where t: "filter (\<lambda>t. fst t = fd) ts = [t]" by (auto simp: length_Suc_conv)
  then have "t \<in> set (filter (\<lambda>t. fst t = fd) ts)" by simp
  then have "fst t = fd" "snd t = Finished"
    using assms(1) by (auto simp: unfinished_def filter_empty_conv)
  with t show ?thesis by (cases t) simp
qed

section \<open>Properties\<close>

text \<open>
  C9: The clients of the default server get their answers. Let each client send well-formed requests,
  for a registered path or for a handshake, and let the manager exist from the start. From every
  state that is reached, whatever the interleaving, and in which no two threads race, there is a way
  on to a state in which every thread is done; and in each such state every client that was
  accepted once has been sent exactly the answer to its request, the text of the response of the
  handler of its path, with the close that the response asks for, or 101 with the accept value for
  its key; and nothing when it has sent nothing.
\<close>

theorem clients_answered:
  assumes "umap_ok rts" and "length (Message_Block (hash_memory mc)) = 64"
    and "\<forall>fd. \<forall>c \<in> set (scripts fd). client_ok mc rts c"
    and "threaded_run mc recv as (threaded_init rts (Some ws) (\<lambda>fd. map client_input (scripts fd))) = Some (Inr s)"
    and "\<not> racing (map snd (t_threads s))"
  shows "(\<exists>bs s'. threaded_run mc recv bs s = Some (Inr s') \<and> unfinished (t_threads s') = []
      \<and> map fst (t_threads s') = map fst (t_threads s))
    \<and> (\<forall>bs s' fd. threaded_run mc recv bs s = Some (Inr s') \<and> unfinished (t_threads s') = []
        \<and> 0 \<le> fd \<and> count_list (map fst (t_threads s')) fd = 1
      \<longrightarrow> on_fd fd (t_effects s') = first_answer mc rts fd (scripts fd))"
proof (intro conjI allI impI)
  show "\<exists>bs s'. threaded_run mc recv bs s = Some (Inr s') \<and> unfinished (t_threads s') = []
      \<and> map fst (t_threads s') = map fst (t_threads s)"
    by (rule run_finishes [OF clients_faultless [OF assms(1,2)] _ assms(4,5)]) (use assms(3) in blast)
next
  fix bs s' fd
  assume a: "threaded_run mc recv bs s = Some (Inr s') \<and> unfinished (t_threads s') = []
    \<and> 0 \<le> fd \<and> count_list (map fst (t_threads s')) fd = 1"
  then have "threaded_run mc recv (as @ bs) (threaded_init rts (Some ws) (\<lambda>fd. map client_input (scripts fd))) = Some (Inr s')"
    using assms(4) by (simp add: threaded_run_append)
  from run_served_alone [OF this, of fd] done_once [of "t_threads s'" fd] a obtain st' x where
    "handle_connection_request mc recv fd \<lparr>routes_map_org = rts, websocket_descriptor = registered (Some ws)\<rparr>
       (map client_input (scripts fd)) = Inr (on_fd fd (t_effects s'), st', x)" by blast
  from first_answer_alone [OF _ assms(1,2) _ this] show "on_fd fd (t_effects s') = first_answer mc rts fd (scripts fd)"
    using assms(3) by simp
qed

definition hello_client :: client_request where
  "hello_client = Client_Request ''GET'' ''/hello'' [(''Host'', ''h'')] []"

definition upgrade_client :: client_request where
  "upgrade_client = Client_Request ''GET'' ''/chat'' upgrade_kvs []"

definition two_scripts :: "int \<Rightarrow> client_request list" where
  "two_scripts fd = (if fd = 4 then [hello_client] else if fd = 5 then [upgrade_client] else [])"

lemma two_clients:
  "client_ok hello_machine (routes_map_org hello_state) hello_client"
  "client_ok hello_machine (routes_map_org hello_state) upgrade_client"
  "client_answer hello_machine (routes_map_org hello_state) 4 hello_client = [Send 4 hello_answer, Close 4]"
  "client_answer hello_machine (routes_map_org hello_state) 5 upgrade_client
     = [Send 5 (bytes_of (handshake_response (accept_key ''k'')))]"
proof -
  have "page_response hello_machine (routes_map_org hello_state) hello_client = Some (set_body ''GET'' (http_response_new OK))"
    by (simp add: page_response_def hello_client_def parse_url_params_def hello_state_def add_route_handler_def
        umap_insert_def request_path_def request_object_def)
  then show "client_ok hello_machine (routes_map_org hello_state) hello_client"
    "client_answer hello_machine (routes_map_org hello_state) 4 hello_client = [Send 4 hello_answer, Close 4]"
    by (simp_all add: client_ok_def client_answer_def hello_client_def plain_simps request_path_def INVALID_HTTP_URI_def
        hello_answer_def set_body_def http_response_new_def)
  have "websocket_keys upgrade_kvs = [''k'']" by code_simp
  moreover have "plain_request ''GET'' ''/chat'' upgrade_kvs []" by (simp add: plain_simps upgrade_kvs_def)
  ultimately show "client_ok hello_machine (routes_map_org hello_state) upgrade_client"
    "client_answer hello_machine (routes_map_org hello_state) 5 upgrade_client
     = [Send 5 (bytes_of (handshake_response (accept_key ''k'')))]"
    by (simp_all add: client_ok_def client_answer_def upgrade_client_def parse_url_params_def) (simp_all add: upgrade_kvs_def)
qed

theorem clients_answered_witness:
  "\<exists>s bs s'. threaded_run hello_machine recv [Accept 4, Accept 5]
        (threaded_init (routes_map_org hello_state) (Some {}) (\<lambda>fd. map client_input (two_scripts fd))) = Some (Inr s)
     \<and> threaded_run hello_machine recv bs s = Some (Inr s')
     \<and> on_fd 4 (t_effects s') = [Send 4 hello_answer, Close 4]
     \<and> on_fd 5 (t_effects s') = [Send 5 (bytes_of (handshake_response (accept_key ''k'')))]"
proof -
  let ?s0 = "threaded_init (routes_map_org hello_state) (Some {}) (\<lambda>fd. map client_input (two_scripts fd))"
  have "map_option (map_sum id t_threads) (threaded_run hello_machine recv [Accept 4, Accept 5] ?s0)
    = Some (Inr [(4, Receiving), (5, Receiving)])"
    by (simp add: threaded_init_def)
  from projected_run [OF this] obtain s where run: "threaded_run hello_machine recv [Accept 4, Accept 5] ?s0 = Some (Inr s)"
    and s: "t_threads s = [(4, Receiving), (5, Receiving)]" by blast
  have ok: "\<forall>fd. \<forall>c \<in> set (two_scripts fd). client_ok hello_machine (routes_map_org hello_state) c"
    using two_clients(1,2) by (simp add: two_scripts_def)
  have "umap_ok (routes_map_org hello_state)" "length (Message_Block (hash_memory hello_machine)) = 64"
    by (simp_all add: hello_state_def hello_machine_def add_route_handler_def umap_insert_def)
  note all = clients_answered [OF this ok run]
  have "\<not> racing (map snd (t_threads s))" by (simp add: s conflict_def)
  from all [OF this] obtain bs s' where e: "threaded_run hello_machine recv bs s = Some (Inr s')"
      "unfinished (t_threads s') = []" "map fst (t_threads s') = [4, 5]"
    and ans: "\<And>fd. 0 \<le> fd \<and> count_list [4, 5] fd = 1 \<Longrightarrow>
      on_fd fd (t_effects s') = first_answer hello_machine (routes_map_org hello_state) fd (two_scripts fd)"
    by (auto simp: s)
  have "on_fd 4 (t_effects s') = [Send 4 hello_answer, Close 4]"
    "on_fd 5 (t_effects s') = [Send 5 (bytes_of (handshake_response (accept_key ''k'')))]"
    using ans [of 4] ans [of 5] two_clients(3,4) by (simp_all add: two_scripts_def)
  with run e(1) show ?thesis by blast
qed

end
