(* ===== verification/Spec2Isabelle.thy ===== *)
theory Spec2Isabelle
  imports System Tcp_Epoll Programs Variant Cppws Ns_Ws_Race Tcp_Progress Ns_Isolated Fd_Passing Repo_Tests Logging
    Clients
begin

text \<open>
  A development for simple_server, a C++ library for HTTP and WebSocket servers.

  \<^bold>\<open>The program.\<close> A TCP server (one of three implementations of \<open>tcp_handler\<close>) accepts
  connections and calls a handler, usually \<open>http_server::handle_connection_request\<close>. The HTTP
  server reads one request, takes it apart, and either makes the connection a WebSocket
  (\<open>websocket_manager\<close>) or looks a handler up in its table of routes and sends the text of the
  response. When a WebSocket has data, the poll server calls the manager, which reads a frame and
  relays its message to every WebSocket. The handshake needs SHA-1 and Base64.

  \<^bold>\<open>The theories\<close>, from the bottom up, and the code they model (paths of the repository):
  \<^item> \<open>Cpp_Base\<close>: what the code uses of \<open>std::string\<close>, of conversions between \<open>int\<close> and \<open>size_t\<close>,
    and of faults. An exception that nothing catches and an access outside an object are results
    (\<open>fault\<close>), so that every early exit of the code is a branch of the model.
  \<^item> \<open>Cpp_Map\<close>: \<open>std::unordered_map<std::string, V>\<close>: the locale \<open>string_map\<close> and association lists
    whose order is the order of iteration. \<open>Codec\<close>: the contract of an encoder with its decoder.
    \<open>Cpp_Socket\<close>: \<open>recv\<close>, as the locale \<open>byte_source\<close> and as a list of events.
  \<^item> \<open>Sha1\<close> (src/SHA1.cpp, includes/SHA1.h): the record of the members, one definition per member
    function. \<open>Sha1_Spec\<close>: the standard. \<open>Sha1_Eval\<close>: its evaluation inside the logic, for known
    answers. \<open>Sha1_Refine\<close>: the class implements it, an interpretation of the locale
    \<open>stream_hash\<close> of \<open>Hash_Interface\<close>.
  \<^item> \<open>Base64\<close>, \<open>Ws_Accept\<close>, \<open>Ws_Frame\<close>, \<open>Ws_Manager\<close> (src/websocket_handler.cpp): the encoders,
    the answer to a challenge, frames, and the manager. The manager's state is the set of
    descriptors; its calls return the list of sends they make.
  \<^item> \<open>String_Utils\<close> (includes/string_utils.h), \<open>Http_Response\<close>, \<open>Http_Request\<close>, \<open>Routing\<close> and
    \<open>Http_Server\<close> (src/http_handler.cpp, includes/http_handler.h, includes/io_utils.h): the class
    \<open>http_response\<close> and its text, the parsers, the table of routes, and the request handler over
    the state of the two singletons (\<open>http_state\<close>). \<open>Http_Client\<close>: what a client reads out of a
    response, as specification.
  \<^item> \<open>Tcp_Setup\<close>, \<open>Tcp_Poll\<close>, \<open>Tcp_Epoll\<close>, \<open>Tcp_Default\<close> (src/tcp_*_handler.cpp): setup and event
    loops. The answers of the operating system are arguments; the calls made are the result. The
    server that starts threads is a step relation, over any handler that keeps to its connection
    (locale \<open>connection_handler\<close>). \<open>Tcp_Threads\<close>: the same server with the HTTP server, one access to
    a shared object at a time; \<open>Tcp_Progress\<close>: that its threads end. \<open>Clients\<close>:
    what its clients send and are to get, as specification.
  \<^item> \<open>System\<close>: the poll server with the HTTP server and the WebSocket manager in one world. The locale
    \<open>recv_embed\<close> carries what is known of one socket over to a socket of that world.
  \<^item> \<open>Ns_Base\<close> (src/base/simple_server_utils.cpp and the headers in includes/simple_server/base),
    \<open>Ns_Sha1\<close> (src/base/simple_server_sha1.cpp), \<open>Ns_Frame\<close> and \<open>Ns_Websocket\<close>
    (src/websocket/simple_server_websocket_connection.cpp), \<open>Ns_Connection\<close>
    (src/http/simple_server_http_connection.cpp, includes/simple_server/http) and \<open>Ns_Server\<close>
    (src/http/simple_server_http.cpp): the older generation of the library, in the namespace
    \<open>simple_server\<close>. It has copies of much of the newer code; these are modelled from its own files,
    loops included, with the prefix \<open>ns_\<close>, and shown to be equal to the newer ones; only constants and types
    that have the same text are shared. Its servers are different.
    \<open>Ns_Ws_Race\<close>: its WebSocket thread and the threads that add sockets, step by step, with the
    storage of the vectors they share. \<open>Ns_Isolated\<close>: the older server's handler as another provider
    of the interface of \<open>Tcp_Threads\<close>.
  \<^item> \<open>Ecma_Regex\<close>: the part of the syntax of \<open>std::regex\<close> that the route patterns of the programs
    use. \<open>Programs\<close> (src/main.cpp, sample/main.cpp): the two programs, with their handlers and tables.
  \<^item> \<open>Cppws_Sha1\<close>, \<open>Cppws_Codec\<close>, \<open>Cppws\<close> (experiments/cppws): a trial echo server with its own
    copies of the digest, of the encoders and of the frame functions, a reader of lines and an encoder that differs. \<open>Proxy\<close>
    (experiments/epoll_select.cpp) and \<open>Fd_Passing\<close> (experiments/pass_client.cpp,
    experiments/pass_master_server.cpp): a proxy and a pair of programs that pass connections on.
  \<^item> \<open>Repo_Tests\<close> (test, tests): the tests of the repository as definitions, and their outcome.
  \<^item> \<open>Logging\<close> (includes/logger.h): the log, the directives that its formats use, its buffers, and the
    calls that the other parts make, as lists beside their models.
  \<^item> \<open>Variant\<close> (includes/variant.h): the tagged union, with the events of construction and
    destruction.

  \<^bold>\<open>What the lemmas show.\<close>
  \<^item> SHA-1: the object computes the digest of FIPS 180-1 of all it was fed, refuses messages of
    \<open>2 ^ 64\<close> bits, and the block function is the compression function of the standard; the
    digest of ``abc'' and the example key of RFC 6455 are computed.
  \<^item> WebSocket: the handshake gives the accept value of RFC 6455 on machines of either byte order;
    a frame is received as its payload however it is cut after its head; nothing else is received;
    what is sent is read back; a message reaches every WebSocket.
  \<^item> HTTP: well-formed requests are taken apart as they were put together; the exact conditions
    under which the parsers throw or leave a vector; a client reads responses back; routing is sound,
    complete and, where matches are unique, independent of the order of the table; a request is
    served end to end, by the handler of its path or as a handshake.
  \<^item> Servers: what each round of an event loop does, what is closed and what is not, for every
    answer of the system; invariants of the interleaved servers; the threads of the default server
    do what a server does that runs every call at once, as long as no two of them race, every client
    is served as if it were alone and gets its answer, the threads end, and it is shown when they race; from any state
    the older server can go to one where every accepted connection has been dealt with.
  \<^item> The system: a client's connection, handshake and first message, through every layer, at the
    end of this theory.
  \<^item> The older generation: equality with the newer one where the text is the same; its socket's
    life, its answers, and its WebSocket thread, which never sends, in any interleaving, and which
    has its memory freed by the first handshake.
  \<^item> The programs: which requests reach which handlers, in any order of the table, and what the home
    page of src/main.cpp sends, in any order of the header table. The proxy: what its threads copy,
    and that it loses no descriptor. The trial echo server: a conversation, and that clients that
    close their connection do not hold it.
  \<^item> The log: a call whose format has the directives of the program writes its line exactly when its
    arguments have the types they ask for and the line fits; what answering a request logs: the first
    call, in the reader of the socket, is undefined for every request, and which of the others are.
  \<^item> Variants: the tag names the object that is alive, nothing is leaked or destroyed twice.

  Several of these theorems state behaviour that the authors can hardly want (an exception that a
  request can cause, an entry of the poll table that is passed over, a descriptor that stays open);
  they are stated as the code has it.

  \<^bold>\<open>Bounds.\<close> No fuel is used: every loop of the code terminates and is a total function, but the
  loop of \<open>replace_all\<close>, which does not for an empty pattern, and those of \<open>Cppws\<close> that end when a
  socket runs dry, which are partial functions (\<open>None\<close>: it does not return), with theorems on when
  they return, for clients whose stream ends with the close of their side; and the endless server loops, which are functions of a finite list
  of answers of the system or a step relation. Positions kept in an \<open>int\<close> go through 32 bits;
  theorems about parsers assume requests shorter than \<open>2 ^ 31\<close>, and the server reads 2048 bytes.

  \<^bold>\<open>Arguments.\<close> The file system, the results of system calls, the regular expressions of
  \<open>std::regex\<close> (argument \<open>rx\<close>), the byte order, the size of memory, the content of members
  that the code never initialises, and, in \<open>Programs\<close>, the order in which a header table is iterated.

  The regular expressions are those of a parameter; only the theorems of \<open>Programs\<close> assume how it
  treats the patterns of \<open>Ecma_Regex\<close>.

  \<^bold>\<open>Not modelled.\<close> Console output other than the log, and the effect of a log call on the
  rest of the program (where a call is undefined the other theories go on); reads that block for
  ever (\<open>Cpp_Socket\<close>); formats of the log with directives that the program does not use; \<open>get<T>\<close> of
  \<open>Variant\<close>, which no use compiles; interleavings inside a connection
  handler of the older generation, and what C++ says of unsynchronised accesses beyond the use of
  freed memory and two conflicting accesses at the same time; the container
  of includes/simple_server/base/simple_server_thread_container.h, which the preprocessor removes,
  and the abstract classes; experiments/exwebsocket, which does not compile, and the vendored code,
  which the library does not use.
\<close>

section \<open>Properties of the whole system\<close>

text \<open>
  C1: A WebSocket conversation, through all layers of the poll server: a client connects and sends
  a handshake, then a text frame (masked or not, cut anywhere after its head). In the first round
  the connection is accepted and answered with 101 and the accept value for its key; in the second
  the message is relayed, in one frame that its readers read back, to every WebSocket, this client
  now among them; the table holds the server and the connection, and nothing is closed.
\<close>

theorem poll_websocket_conversation:
  assumes "plain_request verb target kvs content" and "parse_url_params target = Inr params"
    and "''Upgrade'' \<in> fst ` set kvs"
    and "map_of (rev kvs) k = Some key" and "to_lower_case k = ''sec-websocket-key''"
    and "\<And>k'. k' \<in> fst ` set kvs \<Longrightarrow> to_lower_case k' = ''sec-websocket-key'' \<Longrightarrow> k' = k"
    and "key \<noteq> []" and "length (Message_Block (hash_memory mc)) = 64"
    and "\<And>m. mkey = Some m \<Longrightarrow> length m = 4" and "unat h0 mod 16 = 1"
    and "length p \<le> maxmem" and "length (relay_message c (string_of p)) \<le> vector_max"
    and "d0 @ concat ds = ws_frame h0 mkey p" and "\<forall>d \<in> set ds. d \<noteq> []"
    and "length (frame_head h0 mkey (length p)) \<le> length d0"
    and "backlog w = c # cs" and "c \<noteq> server"
    and "sockets w c = Rx_Data (bytes_of (request_text verb target kvs content)) # map Rx_Data (d0 # ds) @ es"
    and "finite (websocket_descriptor (web w))"
    and "run h" and "server_fd h = server" and "poll_fds h = [\<lparr>pfd = server, events = POLLIN, revents = 0\<rparr>]"
    and "rs1 0 = POLLIN" and "rs2 0 = 0" and "rs2 1 = POLLIN"
  shows "\<exists>frame h' w'. accept_and_process_message (sys_env mc maxmem) [Some rs1, Some rs2] h w
      = Inr (h', [Sys_Accept server, Sys_Set_Nonblocking c,
                  Sys_Net (Send c (bytes_of (handshake_response (accept_key key))))]
                @ map (\<lambda>d. Sys_Net (Send d frame)) (sorted_list_of_set (insert c (websocket_descriptor (web w)))), w')
    \<and> read_frame vector_max recv [Rx_Data frame] = Inr (relay_message c (string_of p), [])
    \<and> websocket_descriptor (web w') = insert c (websocket_descriptor (web w))
    \<and> map pfd (poll_fds h') = [server, c]"
proof -
  let ?ws = "insert c (websocket_descriptor (web w))"
  let ?st = "(web w)\<lparr>websocket_descriptor := ?ws\<rparr>"
  let ?w0 = "w\<lparr>backlog := cs\<rparr>"
  let ?w1 = "?w0\<lparr>web := ?st, sockets := (sockets w)(c := map Rx_Data (d0 # ds) @ es)\<rparr>"
  let ?e1 = "\<lparr>pfd = server, events = POLLIN, revents = POLLIN\<rparr>"
  let ?n = "\<lparr>pfd = c, events = POLLIN, revents = 0\<rparr>"
  let ?e2 = "\<lparr>pfd = server, events = POLLIN, revents = 0\<rparr>"
  let ?p2 = "\<lparr>pfd = c, events = POLLIN, revents = POLLIN\<rparr>"
  let ?hello = "Send c (bytes_of (handshake_response (accept_key key)))"
  have "handle_connection_request mc recv c (web ?w0) (sockets ?w0 c) = Inr ([?hello], ?st, map Rx_Data (d0 # ds) @ es)"
    using upgrade_answer [OF assms(1-8), of c "web w" "map Rx_Data (d0 # ds) @ es"] assms(18) by simp
  from sys_connection_eq [OF this]
  have "sys_connection mc c ?w0 = Inr ([?hello], ?w1)" by simp
  from accept_round [OF _ _ assms(16) this, of ?e1 server]
  have r1: "poll_scan (sys_env mc maxmem) server 0 [?e1] w
      = Inr ([?e1, ?n], [Sys_Accept server, Sys_Set_Nonblocking c, Sys_Net ?hello], ?w1)" by simp
  from relayed [OF _ _ assms(9-12) _ assms(14,15), where ws = ?ws and rest = "[]" and es = es] assms(13,19)
  obtain frame ds' where n: "notify_message_request maxmem recv c ?ws (map Rx_Data (d0 # ds) @ es)
      = Inr (map (\<lambda>d. Send d frame) (sorted_list_of_set ?ws), map Rx_Data ds' @ es)"
    and f: "read_frame vector_max recv [Rx_Data frame] = Inr (relay_message c (string_of p), [])" by auto
  let ?w2 = "?w1\<lparr>sockets := (sockets ?w1)(c := map Rx_Data ds' @ es)\<rparr>"
  have "sys_notify maxmem c ?w1 = Inr (map (\<lambda>d. Send d frame) (sorted_list_of_set ?ws), ?w2)"
    by (rule sys_notify_eq) (use n in simp)
  moreover have "0 < length d0" using assms(15) by (auto simp: frame_head_def)
  then have "0 < fst (recv 2048 (sockets ?w1 c))" by simp
  ultimately have r2: "poll_scan (sys_env mc maxmem) server 0 [?e2, ?p2] ?w1
      = Inr ([?e2, ?p2], map Sys_Net (map (\<lambda>d. Send d frame) (sorted_list_of_set ?ws)), ?w2)"
    using assms(17) by (intro message_round) (simp_all add: quiet_zero)
  have a: "poll_answer rs1 [\<lparr>pfd = server, events = POLLIN, revents = 0\<rparr>] = [?e1]"
    "poll_answer rs2 [?e1, ?n] = [?e2, ?p2]"
    using assms(23-25) by (simp_all add: poll_answer_def)
  let ?h = "h\<lparr>poll_fds := [?e2, ?p2]\<rparr>"
  have "accept_and_process_message (sys_env mc maxmem) [Some rs1, Some rs2] h w
      = Inr (?h, [Sys_Accept server, Sys_Set_Nonblocking c, Sys_Net ?hello]
                @ map (\<lambda>d. Sys_Net (Send d frame)) (sorted_list_of_set ?ws), ?w2)"
    using r1 r2 a assms(20-22) by (simp add: o_def)
  with f show ?thesis by (intro exI [of _ frame] exI [of _ ?h] exI [of _ ?w2]) simp
qed

definition chat_world :: sys_world where
  "chat_world = \<lparr>web = hello_state, backlog = [4],
     sockets = (\<lambda>fd. [Rx_Data (bytes_of (request_text ''GET'' ''/chat''
        [(''Upgrade'', ''websocket''), (''Sec-WebSocket-Key'', ''abc'')] [])), Rx_Data [0x81, 0x02, 0x48, 0x69]])\<rparr>"

definition chat_poll :: tcp_poll_handler where
  "chat_poll = \<lparr>server_fd = 3, port = 9000, run = True,
     poll_fds = [\<lparr>pfd = 3, events = POLLIN, revents = 0\<rparr>]\<rparr>"

theorem poll_websocket_conversation_witness:
  "\<exists>frame h' w'. accept_and_process_message (sys_env hello_machine 100)
      [Some (\<lambda>k. POLLIN), Some (\<lambda>k. if k = 1 then POLLIN else 0)] chat_poll chat_world
    = Inr (h', [Sys_Accept 3, Sys_Set_Nonblocking 4, Sys_Net (Send 4 (bytes_of (handshake_response (accept_key ''abc''))))]
              @ map (\<lambda>d. Sys_Net (Send d frame)) (sorted_list_of_set {4}), w')
    \<and> read_frame vector_max recv [Rx_Data frame] = Inr (relay_message 4 (string_of [0x48, 0x69]), [])"
proof -
  let ?kvs = "[(''Upgrade'', ''websocket''), (''Sec-WebSocket-Key'', ''abc'')]"
  have keys: "to_lower_case ''Sec-WebSocket-Key'' = ''sec-websocket-key''"
    "to_lower_case ''Upgrade'' \<noteq> ''sec-websocket-key''" by code_simp+
  have "length (nat_to_string 4) = 1" by code_simp
  then have "length (relay_message 4 (string_of [0x48, 0x69])) \<le> vector_max"
    by (simp add: relay_message_def int_to_string_def vector_max_def)
  moreover have "plain_request ''GET'' ''/chat'' ?kvs []" by (simp add: plain_simps)
  ultimately show ?thesis
    using poll_websocket_conversation [of "''GET''" "''/chat''" ?kvs "[]" "[]" "''Sec-WebSocket-Key''" "''abc''"
        hello_machine None "0x81" "[0x48, 0x69]" 100 4 "[0x81, 0x02, 0x48, 0x69]" "[]" chat_world "[]" 3 "[]" chat_poll
        "\<lambda>k. POLLIN" "\<lambda>k. if k = 1 then POLLIN else 0"] keys
    by (auto simp: parse_url_params_def hello_machine_def hello_state_def chat_world_def chat_poll_def
        ws_frame_def frame_head_def frame_length_def)
qed

end
